(* ===== verification/Bsr_Prelude.thy ===== *)
theory Bsr_Prelude
  imports Main "HOL-Library.Word" "HOL-Library.Monad_Syntax"
begin

text \<open>
  The prelude of the development: the names of the machine types the C sources use, the
  collections the component theories share, and the generic facts about lists, words and the
  option monad that the component proofs are built from.

  A kernel \<^verbatim>\<open>BUG_ON(c)\<close> stops the machine.  Operations that contain one return an
  \<open>option\<close>: \<open>None\<close> is the halted machine, \<open>Some\<close> the normal return.
\<close>

unbundle bit_operations_syntax

type_synonym u8 = "8 word"
type_synonym u16 = "16 word"
type_synonym u32 = "32 word"
type_synonym u64 = "64 word"

text \<open>The error numbers the modelled operations return (negated in the code).\<close>

datatype errno =
    EINVAL | EOVERFLOW | ENOBUFS | EIO | EBUSY | EWOULDBLOCK | ENOMEM | ENODEV | ECONNABORTED | EAGAIN

named_theorems bug_simps \<open>unfolding of the assertion checks\<close>

definition BUG_ON :: "bool \<Rightarrow> unit option" where
  "BUG_ON c = (if c then None else Some ())"

lemma BUG_ON_simps [simp]:
  "BUG_ON True = None"
  "BUG_ON False = Some ()"
  by (simp_all add: BUG_ON_def)

lemma BUG_ON_bind_Some [simp]:
  "(BUG_ON c \<bind> f = Some y) = (\<not> c \<and> f () = Some y)"
  by (simp add: BUG_ON_def)

lemma BUG_ON_bind_None [simp]:
  "(BUG_ON c \<bind> f = None) = (c \<or> f () = None)"
  by (simp add: BUG_ON_def)


subsection \<open>Lists\<close>

lemma length_removeAll_distinct:
  "distinct xs \<Longrightarrow> length (removeAll x xs) = (if x \<in> set xs then length xs - 1 else length xs)"
  by (metis distinct_remove1_removeAll length_remove1)

lemma find_Some_iff_ex1:
  assumes "\<And>x y. x \<in> set xs \<Longrightarrow> y \<in> set xs \<Longrightarrow> P x \<Longrightarrow> P y \<Longrightarrow> x = y"
  shows "find P xs = Some x \<longleftrightarrow> x \<in> set xs \<and> P x"
  using assms
proof (induction xs)
  case Nil
  then show ?case by simp
next
  case (Cons a xs)
  then have "find P xs = Some x \<longleftrightarrow> x \<in> set xs \<and> P x" by auto
  then show ?case using Cons.prems [of a x] by auto
qed

lemma find_map: "find P (map f xs) = map_option f (find (P \<circ> f) xs)"
  by (induction xs) auto

lemma find_append: "find P (xs @ ys) = (case find P xs of None \<Rightarrow> find P ys | Some x \<Rightarrow> Some x)"
  by (induction xs) auto

lemma distinct_fst_split:
  assumes "xs @ (q, x) # ys = as @ (q, x') # bs" "distinct (map fst (xs @ (q, x) # ys))"
  shows "xs = as \<and> x = x' \<and> ys = bs"
  using assms
proof (induction xs arbitrary: as)
  case Nil
  then show ?case by (cases as) (force simp: image_iff)+
next
  case (Cons a xs)
  show ?case
  proof (cases as)
    case Nil
    then show ?thesis using Cons.prems by (auto simp: image_iff)
  next
    case (Cons b bs')
    then show ?thesis using Cons.prems Cons.IH [of bs'] by simp
  qed
qed

subsection \<open>Options and words\<close>

lemma option_pair_eqI: "(\<And>a b. x = Some (a, b) \<longleftrightarrow> y = Some (a, b)) \<Longrightarrow> x = y"
  by (cases x; cases y) auto

lemma of_nat_length_pred: "xs \<noteq> [] \<Longrightarrow> (of_nat (length xs - Suc 0) :: u32) = of_nat (length xs) - 1"
  by (cases xs) simp_all

lemma word_inc_nonzero: "(w::u32) \<noteq> NOT 0 \<Longrightarrow> w + 1 \<noteq> 0"
  by (metis add_neg_numeral_special(8) add_right_cancel bit.compl_zero)

subsection \<open>The first index of a range with a property\<close>

definition first_or :: "(nat \<Rightarrow> bool) \<Rightarrow> nat \<Rightarrow> nat \<Rightarrow> nat \<Rightarrow> nat" where
  "first_or f s hi miss = (if \<exists>i. s \<le> i \<and> i < hi \<and> f i then LEAST i. s \<le> i \<and> f i else miss)"

lemma first_or_eqI: "s \<le> n \<Longrightarrow> n < hi \<Longrightarrow> f n \<Longrightarrow> (\<And>i. s \<le> i \<Longrightarrow> i < n \<Longrightarrow> \<not> f i) \<Longrightarrow> first_or f s hi miss = n"
proof -
  assume h: "s \<le> n" "n < hi" "f n" "\<And>i. s \<le> i \<Longrightarrow> i < n \<Longrightarrow> \<not> f i"
  have "(LEAST i. s \<le> i \<and> f i) = n" by (rule Least_equality) (use h in \<open>auto simp: not_less [symmetric]\<close>)
  moreover have "\<exists>i. s \<le> i \<and> i < hi \<and> f i" using h by blast
  ultimately show ?thesis by (simp add: first_or_def)
qed

end
