(* ===== verification/Lru_Cache.thy ===== *)
theory Lru_Cache
  imports Bsr_Prelude
begin

text \<open>
  The LRU cache of \<^verbatim>\<open>bsr/lru_cache.c\<close> and \<^verbatim>\<open>bsr/linux/lru_cache.h\<close>:
  the active set of labels that the activity log and the resync extents are kept in.

  An element is the index of its slot in \<^verbatim>\<open>lc->lc_element[]\<close>; the code checks the
  back index \<^verbatim>\<open>lc_index\<close> before every use (\<^verbatim>\<open>PARANOIA_LC_ELEMENT\<close>), so pointer
  and index name the same object.  The four intrusive lists and the hash chains are lists of
  element indices, head first; a node is on at most one list, so \<^verbatim>\<open>list_del\<close> removes it
  from whichever list holds it.  Labels, reference counts and counters keep the width the code
  gives them.  \<^verbatim>\<open>g_bsrmon_run\<close>, the switch of the performance monitor, is an argument.
  The guards against a \<^verbatim>\<open>NULL\<close> cache are not modelled: the cache is a value.
\<close>

section \<open>Data\<close>

record lc_element =
  refcnt :: u32
  lc_index :: u32
  lc_number :: u32
  lc_new_number :: u32

record lru_cache =
  lru :: "nat list"
  free :: "nat list"
  in_use :: "nat list"
  to_be_changed :: "nat list"
  nr_elements :: u32
  max_pending_changes :: u32
  pending_changes :: u32
  used :: u32
  hits :: u64
  misses :: u64
  starving :: u64
  locked :: u64
  changed :: u64
  flags :: u64
  lc_slot :: "nat list list"
  lc_elements :: "lc_element list"
  used_max :: u32
  hits_cnt :: u64
  misses_cnt :: u64
  starving_cnt :: u64
  locked_cnt :: u64
  changed_cnt :: u64

definition LC_FREE :: u32 where
  "LC_FREE = NOT 0"

definition LC_MAX_ACTIVE :: u32 where
  "LC_MAX_ACTIVE = push_bit 24 1"

abbreviation (input) LC_PARANOIA :: nat where "LC_PARANOIA \<equiv> 0"
abbreviation (input) LC_DIRTY :: nat where "LC_DIRTY \<equiv> 1"
abbreviation (input) LC_LOCKED :: nat where "LC_LOCKED \<equiv> 2"
abbreviation (input) LC_STARVING :: nat where "LC_STARVING \<equiv> 3"

definition lc_flag :: "nat \<Rightarrow> lru_cache \<Rightarrow> bool" where
  "lc_flag n lc = bit (flags lc) n"

definition lc_set_flag :: "nat \<Rightarrow> lru_cache \<Rightarrow> lru_cache" where
  "lc_set_flag n lc = lc\<lparr>flags := set_bit n (flags lc)\<rparr>"

definition lc_clear_flag :: "nat \<Rightarrow> lru_cache \<Rightarrow> lru_cache" where
  "lc_clear_flag n lc = lc\<lparr>flags := unset_bit n (flags lc)\<rparr>"

section \<open>List and hash chain primitives\<close>

text \<open>
  \<^verbatim>\<open>list_del\<close>, \<^verbatim>\<open>list_move\<close> and the \<^verbatim>\<open>hlist\<close> operations of the kernel's list
  library, on lists of indices.
\<close>

datatype lc_head = H_LRU | H_FREE | H_IN_USE | H_TO_BE_CHANGED

definition list_del :: "nat \<Rightarrow> lru_cache \<Rightarrow> lru_cache" where
  "list_del i lc = lc\<lparr>lru := removeAll i (lru lc), free := removeAll i (free lc),
     in_use := removeAll i (in_use lc), to_be_changed := removeAll i (to_be_changed lc)\<rparr>"

definition list_add :: "nat \<Rightarrow> lc_head \<Rightarrow> lru_cache \<Rightarrow> lru_cache" where
  "list_add i h lc =
     (case h of
        H_LRU \<Rightarrow> lc\<lparr>lru := i # lru lc\<rparr>
      | H_FREE \<Rightarrow> lc\<lparr>free := i # free lc\<rparr>
      | H_IN_USE \<Rightarrow> lc\<lparr>in_use := i # in_use lc\<rparr>
      | H_TO_BE_CHANGED \<Rightarrow> lc\<lparr>to_be_changed := i # to_be_changed lc\<rparr>)"

definition list_move :: "nat \<Rightarrow> lc_head \<Rightarrow> lru_cache \<Rightarrow> lru_cache" where
  "list_move i h lc = list_add i h (list_del i lc)"

definition hlist_del_init :: "nat \<Rightarrow> lru_cache \<Rightarrow> lru_cache" where
  "hlist_del_init i lc = lc\<lparr>lc_slot := map (removeAll i) (lc_slot lc)\<rparr>"

definition hlist_add_head :: "nat \<Rightarrow> nat \<Rightarrow> lru_cache \<Rightarrow> lru_cache" where
  "hlist_add_head i s lc = lc\<lparr>lc_slot := (lc_slot lc)[s := i # lc_slot lc ! s]\<rparr>"

definition upd_element :: "nat \<Rightarrow> (lc_element \<Rightarrow> lc_element) \<Rightarrow> lru_cache \<Rightarrow> lru_cache" where
  "upd_element i f lc = lc\<lparr>lc_elements := (lc_elements lc)[i := f (lc_elements lc ! i)]\<rparr>"

section \<open>Entry, exit and element checks\<close>

text \<open>\<^verbatim>\<open>PARANOIA_ENTRY\<close>, \<^verbatim>\<open>RETURN\<close> and \<^verbatim>\<open>PARANOIA_LC_ELEMENT\<close>.\<close>

definition PARANOIA_ENTRY :: "lru_cache \<Rightarrow> lru_cache option" where
  "PARANOIA_ENTRY lc = do {
     BUG_ON (nr_elements lc = 0);
     BUG_ON (lc_flag LC_PARANOIA lc);
     Some (lc_set_flag LC_PARANOIA lc)
   }"

definition LC_RETURN :: "'a \<Rightarrow> lru_cache \<Rightarrow> ('a \<times> lru_cache) option" where
  "LC_RETURN x lc = Some (x, lc_clear_flag LC_PARANOIA lc)"

definition PARANOIA_LC_ELEMENT :: "lru_cache \<Rightarrow> nat \<Rightarrow> unit option" where
  "PARANOIA_LC_ELEMENT lc e = do {
     BUG_ON (length (lc_elements lc) \<le> e);
     let i = lc_index (lc_elements lc ! e);
     BUG_ON (nr_elements lc \<le> i);
     BUG_ON (unat i \<noteq> e)
   }"

section \<open>Operations\<close>

text \<open>
  \<^verbatim>\<open>lc_try_lock\<close>: one \<^verbatim>\<open>cmpxchg\<close> of the flag word.  The loop spins while another thread
  is inside an entry/exit section; between operations the paranoia bit is clear, and the first
  exchange decides.
\<close>

definition lc_try_lock :: "lru_cache \<Rightarrow> bool \<times> lru_cache" where
  "lc_try_lock lc =
     (if flags lc = 0 then (True, lc\<lparr>flags := push_bit LC_LOCKED 1\<rparr>) else (False, lc))"

definition lc_try_lock_for_transaction :: "lru_cache \<Rightarrow> bool \<times> lru_cache" where
  "lc_try_lock_for_transaction lc = (\<not> lc_flag LC_LOCKED lc, lc_set_flag LC_LOCKED lc)"

definition lc_unlock :: "lru_cache \<Rightarrow> lru_cache" where
  "lc_unlock lc = lc_clear_flag LC_LOCKED (lc_clear_flag LC_DIRTY lc)"

definition lc_fresh_element :: "nat \<Rightarrow> lc_element" where
  "lc_fresh_element i =
     \<lparr>refcnt = 0, lc_index = of_nat i, lc_number = LC_FREE, lc_new_number = LC_FREE\<rparr>"

text \<open>
  \<^verbatim>\<open>lc_create\<close>.  \<open>objs\<close> says how many of the element allocations succeed, the other flags
  whether the slot table, the element table and the cache itself could be allocated.  On failure
  the cleanup loop \<^verbatim>\<open>for (i--; i; i--)\<close> is recorded as the list of element indices it frees;
  when the very first element fails the unsigned counter wraps and the loop indexes far outside
  the table.
\<close>

datatype lc_created =
    LC_CREATED lru_cache
  | LC_NULL "nat list"
  | LC_OUT_OF_BOUNDS

definition lc_create ::
    "bool \<Rightarrow> bool \<Rightarrow> bool \<Rightarrow> nat \<Rightarrow> u32 \<Rightarrow> u32 \<Rightarrow> lc_created" where
  "lc_create slot_ok element_ok lc_ok objs max_pending e_count =
     (if LC_MAX_ACTIVE < e_count then LC_NULL []
      else if \<not> slot_ok \<or> \<not> element_ok \<or> \<not> lc_ok then LC_NULL []
      else if unat e_count \<le> objs then
        LC_CREATED
          \<lparr>lru = [], free = rev [0..<unat e_count], in_use = [], to_be_changed = [],
           nr_elements = e_count, max_pending_changes = max_pending, pending_changes = 0,
           used = 0, hits = 0, misses = 0, starving = 0, locked = 0, changed = 0, flags = 0,
           lc_slot = replicate (unat e_count) [],
           lc_elements = map lc_fresh_element [0..<unat e_count],
           used_max = 0, hits_cnt = 0, misses_cnt = 0, starving_cnt = 0, locked_cnt = 0,
           changed_cnt = 0\<rparr>
      else if objs = 0 then LC_OUT_OF_BOUNDS
      else LC_NULL (rev [1..<objs]))"

definition lc_reset :: "lru_cache \<Rightarrow> lru_cache" where
  "lc_reset lc = lc\<lparr>lru := [], free := rev [0..<unat (nr_elements lc)], in_use := [],
     to_be_changed := [], used := 0, hits := 0, misses := 0, starving := 0, locked := 0,
     changed := 0, pending_changes := 0, flags := 0,
     lc_slot := replicate (unat (nr_elements lc)) [],
     lc_elements := map lc_fresh_element [0..<unat (nr_elements lc)]\<rparr>"

definition lc_hash_slot :: "lru_cache \<Rightarrow> u32 \<Rightarrow> nat" where
  "lc_hash_slot lc enr = unat (enr mod nr_elements lc)"

text \<open>
  The loop of \<^verbatim>\<open>__lc_find\<close>: it stops at the first element hashed under \<open>enr\<close>, and
  returns it when it is committed or uncommitted ones are wanted.
\<close>

fun lc_find_loop :: "lc_element list \<Rightarrow> u32 \<Rightarrow> bool \<Rightarrow> nat list \<Rightarrow> nat option" where
  "lc_find_loop es enr inc [] = None"
| "lc_find_loop es enr inc (e # chain) =
     (if lc_new_number (es ! e) \<noteq> enr then lc_find_loop es enr inc chain
      else if lc_new_number (es ! e) = lc_number (es ! e) \<or> inc then Some e
      else None)"

definition lc_find0 :: "lru_cache \<Rightarrow> u32 \<Rightarrow> bool \<Rightarrow> nat option" where
  "lc_find0 lc enr include_changing =
     lc_find_loop (lc_elements lc) enr include_changing (lc_slot lc ! lc_hash_slot lc enr)"

definition lc_find :: "lru_cache \<Rightarrow> u32 \<Rightarrow> nat option" where
  "lc_find lc enr = lc_find0 lc enr False"

definition lc_is_used :: "lru_cache \<Rightarrow> u32 \<Rightarrow> bool" where
  "lc_is_used lc enr =
     (case lc_find0 lc enr True of None \<Rightarrow> False | Some e \<Rightarrow> refcnt (lc_elements lc ! e) \<noteq> 0)"

definition lc_del :: "nat \<Rightarrow> lru_cache \<Rightarrow> (unit \<times> lru_cache) option" where
  "lc_del e lc = do {
     lc \<leftarrow> PARANOIA_ENTRY lc;
     PARANOIA_LC_ELEMENT lc e;
     BUG_ON (refcnt (lc_elements lc ! e) \<noteq> 0);
     let lc = upd_element e (\<lambda>x. x\<lparr>lc_number := LC_FREE, lc_new_number := LC_FREE\<rparr>) lc;
     let lc = hlist_del_init e lc;
     let lc = list_move e H_FREE lc;
     LC_RETURN () lc
   }"

definition lc_prepare_for_change :: "u32 \<Rightarrow> lru_cache \<Rightarrow> (nat option \<times> lru_cache) option" where
  "lc_prepare_for_change new_number lc =
     (case (if free lc \<noteq> [] then Some (hd (free lc))
            else if lru lc \<noteq> [] then Some (last (lru lc)) else None) of
        None \<Rightarrow> Some (None, lc)
      | Some e \<Rightarrow> do {
          PARANOIA_LC_ELEMENT lc e;
          let lc = upd_element e (\<lambda>x. x\<lparr>lc_new_number := new_number\<rparr>) lc;
          let lc = hlist_del_init e lc;
          let lc = hlist_add_head e (lc_hash_slot lc new_number) lc;
          Some (Some e, list_move e H_TO_BE_CHANGED lc)
        })"

definition lc_unused_element_available :: "lru_cache \<Rightarrow> bool" where
  "lc_unused_element_available lc = (free lc \<noteq> [] \<or> lru lc \<noteq> [])"

definition lc_used_inc :: "bool \<Rightarrow> lru_cache \<Rightarrow> lru_cache" where
  "lc_used_inc run lc =
     (let lc = lc\<lparr>used := used lc + 1\<rparr>
      in if run then lc\<lparr>used_max := max (used_max lc) (used lc)\<rparr> else lc)"

definition lc_count_hit :: "bool \<Rightarrow> lru_cache \<Rightarrow> lru_cache" where
  "lc_count_hit run lc =
     (let lc = lc\<lparr>hits := hits lc + 1\<rparr>
      in if run then lc\<lparr>hits_cnt := hits_cnt lc + 1\<rparr> else lc)"

definition lc_count_miss :: "bool \<Rightarrow> lru_cache \<Rightarrow> lru_cache" where
  "lc_count_miss run lc =
     (let lc = lc\<lparr>misses := misses lc + 1\<rparr>
      in if run then lc\<lparr>misses_cnt := misses_cnt lc + 1\<rparr> else lc)"

text \<open>The branch of \<^verbatim>\<open>__lc_get\<close> that found the label.\<close>

definition lc_get_hit :: "bool \<Rightarrow> bool \<Rightarrow> nat \<Rightarrow> lru_cache \<Rightarrow> (nat option \<times> lru_cache) option" where
  "lc_get_hit run may_use_uncommitted e lc =
     (if lc_new_number (lc_elements lc ! e) \<noteq> lc_number (lc_elements lc ! e) then
        (if \<not> may_use_uncommitted then LC_RETURN None lc
         else LC_RETURN (Some e)
           (lc_count_hit run (upd_element e (\<lambda>x. x\<lparr>refcnt := refcnt x + 1\<rparr>) lc)))
      else
        (let first = (refcnt (lc_elements lc ! e) = 0);
             lc = upd_element e (\<lambda>x. x\<lparr>refcnt := refcnt x + 1\<rparr>) (lc_count_hit run lc);
             lc = (if first then lc_used_inc run lc else lc)
         in LC_RETURN (Some e) (list_move e H_IN_USE lc)))"

text \<open>The branch of \<^verbatim>\<open>__lc_get\<close> that has to change the active set.\<close>

definition lc_get_miss :: "bool \<Rightarrow> bool \<Rightarrow> u32 \<Rightarrow> lru_cache \<Rightarrow> (nat option \<times> lru_cache) option" where
  "lc_get_miss run may_change enr lc =
     (let lc = lc_count_miss run lc
      in if \<not> may_change then LC_RETURN None lc
      else let lc = lc_set_flag LC_DIRTY lc
      in if lc_flag LC_LOCKED lc then
        (let lc = lc\<lparr>locked := locked lc + 1\<rparr>
         in LC_RETURN None (if run then lc\<lparr>starving_cnt := starving_cnt lc + 1\<rparr> else lc))
      else if \<not> lc_unused_element_available lc then
        LC_RETURN None (lc_set_flag LC_STARVING lc)
      else if max_pending_changes lc \<le> pending_changes lc then LC_RETURN None lc
      else do {
        (eo, lc) \<leftarrow> lc_prepare_for_change enr lc;
        case eo of
          None \<Rightarrow> LC_RETURN None lc
        | Some e \<Rightarrow> do {
            let lc = lc_clear_flag LC_STARVING lc;
            let lc = upd_element e (\<lambda>x. x\<lparr>refcnt := refcnt x + 1\<rparr>) lc;
            BUG_ON (refcnt (lc_elements lc ! e) \<noteq> 1);
            let lc = lc_used_inc run lc;
            LC_RETURN (Some e) (lc\<lparr>pending_changes := pending_changes lc + 1\<rparr>)
          }
      })"

definition lc_get0 ::
    "bool \<Rightarrow> bool \<Rightarrow> bool \<Rightarrow> u32 \<Rightarrow> lru_cache \<Rightarrow> (nat option \<times> lru_cache) option" where
  "lc_get0 run may_change may_use_uncommitted enr lc = do {
     lc \<leftarrow> PARANOIA_ENTRY lc;
     if lc_flag LC_STARVING lc then
       (let lc = lc\<lparr>starving := starving lc + 1\<rparr>
        in LC_RETURN None (if run then lc\<lparr>starving_cnt := starving_cnt lc + 1\<rparr> else lc))
     else (case lc_find0 lc enr True of
         Some e \<Rightarrow> lc_get_hit run may_use_uncommitted e lc
       | None \<Rightarrow> lc_get_miss run may_change enr lc)
   }"

definition lc_get :: "bool \<Rightarrow> u32 \<Rightarrow> lru_cache \<Rightarrow> (nat option \<times> lru_cache) option" where
  "lc_get run enr lc = lc_get0 run True False enr lc"

definition lc_get_cumulative :: "bool \<Rightarrow> u32 \<Rightarrow> lru_cache \<Rightarrow> (nat option \<times> lru_cache) option" where
  "lc_get_cumulative run enr lc = lc_get0 run True True enr lc"

definition lc_try_get :: "bool \<Rightarrow> u32 \<Rightarrow> lru_cache \<Rightarrow> (nat option \<times> lru_cache) option" where
  "lc_try_get run enr lc = lc_get0 run False False enr lc"

fun lc_commit_loop :: "bool \<Rightarrow> nat list \<Rightarrow> lru_cache \<Rightarrow> lru_cache" where
  "lc_commit_loop run [] lc = lc"
| "lc_commit_loop run (e # es) lc =
     (let lc = lc\<lparr>changed := changed lc + 1\<rparr>;
          lc = (if run then lc\<lparr>changed_cnt := changed_cnt lc + 1\<rparr> else lc);
          lc = upd_element e (\<lambda>x. x\<lparr>lc_number := lc_new_number x\<rparr>) lc
      in lc_commit_loop run es (list_move e H_IN_USE lc))"

definition lc_committed :: "bool \<Rightarrow> lru_cache \<Rightarrow> (unit \<times> lru_cache) option" where
  "lc_committed run lc = do {
     lc \<leftarrow> PARANOIA_ENTRY lc;
     let lc = lc_commit_loop run (to_be_changed lc) lc;
     LC_RETURN () (lc\<lparr>pending_changes := 0\<rparr>)
   }"

definition lc_put :: "nat \<Rightarrow> lru_cache \<Rightarrow> (u32 \<times> lru_cache) option" where
  "lc_put e lc = do {
     lc \<leftarrow> PARANOIA_ENTRY lc;
     PARANOIA_LC_ELEMENT lc e;
     BUG_ON (refcnt (lc_elements lc ! e) = 0);
     BUG_ON (lc_number (lc_elements lc ! e) \<noteq> lc_new_number (lc_elements lc ! e));
     let lc = upd_element e (\<lambda>x. x\<lparr>refcnt := refcnt x - 1\<rparr>) lc;
     let lc = (if refcnt (lc_elements lc ! e) = 0
               then lc_clear_flag LC_STARVING
                 (let lc' = list_move e H_LRU lc in lc'\<lparr>used := used lc' - 1\<rparr>)
               else lc);
     LC_RETURN (refcnt (lc_elements lc ! e)) lc
   }"

definition lc_element_by_index :: "lru_cache \<Rightarrow> u32 \<Rightarrow> nat option" where
  "lc_element_by_index lc i = do {
     BUG_ON (nr_elements lc \<le> i);
     BUG_ON (lc_index (lc_elements lc ! unat i) \<noteq> i);
     Some (unat i)
   }"

definition lc_index_of :: "lru_cache \<Rightarrow> nat \<Rightarrow> u32 option" where
  "lc_index_of lc e = do {
     PARANOIA_LC_ELEMENT lc e;
     Some (lc_index (lc_elements lc ! e))
   }"

definition lc_set :: "u32 \<Rightarrow> int \<Rightarrow> lru_cache \<Rightarrow> lru_cache option" where
  "lc_set enr index lc =
     (if index < 0 \<or> uint (nr_elements lc) \<le> index then Some lc
      else do {
        e \<leftarrow> lc_element_by_index lc (of_int index);
        BUG_ON (lc_number (lc_elements lc ! e) \<noteq> lc_new_number (lc_elements lc ! e));
        BUG_ON (refcnt (lc_elements lc ! e) \<noteq> 0);
        let lc = upd_element e (\<lambda>x. x\<lparr>lc_number := enr, lc_new_number := enr\<rparr>) lc;
        let lc = hlist_del_init e lc;
        if enr = LC_FREE then Some (list_move e H_FREE lc)
        else Some (list_move e H_LRU (hlist_add_head e (lc_hash_slot lc enr) lc))
      })"


section \<open>The well-formedness invariant\<close>

text \<open>
  What the operations keep of the cache: every element sits on exactly one list; its reference
  count and labels are those of its list; the hash chains hold exactly the elements that carry a
  label, under the label they have or are about to have; no label is carried twice; the counters
  count the lists.
\<close>

fun lc_list :: "lc_head \<Rightarrow> lru_cache \<Rightarrow> nat list" where
  "lc_list H_LRU lc = lru lc"
| "lc_list H_FREE lc = free lc"
| "lc_list H_IN_USE lc = in_use lc"
| "lc_list H_TO_BE_CHANGED lc = to_be_changed lc"

fun lc_fits :: "lc_head \<Rightarrow> lc_element \<Rightarrow> bool" where
  "lc_fits H_LRU x \<longleftrightarrow> refcnt x = 0 \<and> lc_new_number x = lc_number x \<and> lc_new_number x \<noteq> LC_FREE"
| "lc_fits H_FREE x \<longleftrightarrow> refcnt x = 0 \<and> lc_new_number x = LC_FREE \<and> lc_number x = LC_FREE"
| "lc_fits H_IN_USE x \<longleftrightarrow>
     refcnt x \<noteq> 0 \<and> lc_new_number x = lc_number x \<and> lc_new_number x \<noteq> LC_FREE"
| "lc_fits H_TO_BE_CHANGED x \<longleftrightarrow>
     refcnt x \<noteq> 0 \<and> lc_new_number x \<noteq> lc_number x \<and> lc_new_number x \<noteq> LC_FREE"

definition lc_sizes :: "lru_cache \<Rightarrow> bool" where
  "lc_sizes lc \<longleftrightarrow> nr_elements lc \<noteq> 0 \<and> length (lc_elements lc) = unat (nr_elements lc) \<and>
     length (lc_slot lc) = unat (nr_elements lc) \<and>
     (\<forall>i < unat (nr_elements lc). lc_index (lc_elements lc ! i) = of_nat i)"

definition lc_lists :: "lru_cache \<Rightarrow> bool" where
  "lc_lists lc \<longleftrightarrow> distinct (lru lc @ free lc @ in_use lc @ to_be_changed lc) \<and>
     set (lru lc @ free lc @ in_use lc @ to_be_changed lc) = {..<unat (nr_elements lc)}"

definition lc_states :: "lru_cache \<Rightarrow> bool" where
  "lc_states lc \<longleftrightarrow> (\<forall>h. \<forall>i \<in> set (lc_list h lc). lc_fits h (lc_elements lc ! i))"

definition lc_hashed :: "lru_cache \<Rightarrow> bool" where
  "lc_hashed lc \<longleftrightarrow> (\<forall>s < unat (nr_elements lc). distinct (lc_slot lc ! s) \<and>
     (\<forall>i. i \<in> set (lc_slot lc ! s) \<longleftrightarrow> i < unat (nr_elements lc) \<and>
        lc_new_number (lc_elements lc ! i) \<noteq> LC_FREE \<and>
        lc_hash_slot lc (lc_new_number (lc_elements lc ! i)) = s))"

definition lc_labels :: "lru_cache \<Rightarrow> bool" where
  "lc_labels lc \<longleftrightarrow> (\<forall>i < unat (nr_elements lc). \<forall>j < unat (nr_elements lc).
     lc_new_number (lc_elements lc ! i) = lc_new_number (lc_elements lc ! j) \<longrightarrow>
     lc_new_number (lc_elements lc ! i) \<noteq> LC_FREE \<longrightarrow> i = j)"

definition lc_counts :: "lru_cache \<Rightarrow> bool" where
  "lc_counts lc \<longleftrightarrow>
     used lc = of_nat (length (in_use lc) + length (to_be_changed lc)) \<and>
     pending_changes lc = of_nat (length (to_be_changed lc)) \<and>
     length (to_be_changed lc) \<le> unat (max_pending_changes lc)"

definition lc_wf :: "lru_cache \<Rightarrow> bool" where
  "lc_wf lc \<longleftrightarrow> lc_sizes lc \<and> lc_lists lc \<and> lc_states lc \<and> lc_hashed lc \<and> lc_labels lc \<and>
     lc_counts lc \<and> \<not> lc_flag LC_PARANOIA lc"

end
