(* ===== verification/Lru_Cache_Lemmas.thy ===== *)
theory Lru_Cache_Lemmas
  imports Lru_Cache
begin

text \<open>
  The correctness of the LRU cache.  Every operation keeps the invariant \<^const>\<open>lc_wf\<close> and stops
  at no assertion when its caller keeps its side of the contract.  On the active set, the map from
  labels to reference count and commit state (\<open>lc_view\<close>), every operation does what its abstract
  counterpart does.

  The proofs follow the code: an operation changes one element, moves it to another list, perhaps
  rehashes it, and adjusts counters, and there is one lemma for each of these
  (\<open>lc_struct_keep\<close>, \<open>lc_struct_upd\<close>, \<open>lc_struct_relabel\<close>, \<open>lc_counts_move\<close>).  Statistics and
  flags are outside the part of the state that the invariant reads (\<open>lc_core\<close>).
\<close>

section \<open>Finding an element\<close>

lemma lc_hash_slot_less: "lc_sizes lc \<Longrightarrow> lc_hash_slot lc enr < unat (nr_elements lc)"
  by (auto simp: lc_hash_slot_def lc_sizes_def unat_mod unat_gt_0)

lemma lc_find_loop_iff:
  assumes "\<And>i j. i \<in> set chain \<Longrightarrow> j \<in> set chain \<Longrightarrow> lc_new_number (es ! i) = enr \<Longrightarrow>
             lc_new_number (es ! j) = enr \<Longrightarrow> i = j"
  shows "lc_find_loop es enr inc chain = Some e \<longleftrightarrow> e \<in> set chain \<and> lc_new_number (es ! e) = enr \<and>
           (lc_number (es ! e) = enr \<or> inc)"
  using assms
proof (induction chain)
  case Nil
  then show ?case by simp
next
  case (Cons a chain)
  then have IH: "lc_find_loop es enr inc chain = Some e \<longleftrightarrow> e \<in> set chain \<and>
      lc_new_number (es ! e) = enr \<and> (lc_number (es ! e) = enr \<or> inc)"
    by (meson list.set_intros(2))
  show ?case
  proof (cases "lc_new_number (es ! a) = enr")
    case True
    have "e = a" if "e \<in> set (a # chain)" "lc_new_number (es ! e) = enr"
      using that Cons.prems [of a e] True by simp
    with True show ?thesis by auto
  next
    case False
    with IH show ?thesis by auto
  qed
qed

definition lc_struct :: "lru_cache \<Rightarrow> bool" where
  "lc_struct lc \<longleftrightarrow> lc_sizes lc \<and> lc_lists lc \<and> lc_states lc \<and> lc_hashed lc \<and> lc_labels lc"

lemma lc_find0_iff:
  assumes "lc_struct lc" and "enr \<noteq> LC_FREE"
  shows "lc_find0 lc enr inc = Some e \<longleftrightarrow> e < unat (nr_elements lc) \<and>
    lc_new_number (lc_elements lc ! e) = enr \<and> (lc_number (lc_elements lc ! e) = enr \<or> inc)"
proof -
  have chain: "i \<in> set (lc_slot lc ! lc_hash_slot lc enr) \<longleftrightarrow> i < unat (nr_elements lc) \<and>
      lc_new_number (lc_elements lc ! i) \<noteq> LC_FREE \<and>
      lc_hash_slot lc (lc_new_number (lc_elements lc ! i)) = lc_hash_slot lc enr" for i
    using assms(1) lc_hash_slot_less [of lc enr] by (simp add: lc_struct_def lc_hashed_def)
  have uniq: "i = j" if "i \<in> set (lc_slot lc ! lc_hash_slot lc enr)"
      "j \<in> set (lc_slot lc ! lc_hash_slot lc enr)"
      "lc_new_number (lc_elements lc ! i) = enr" "lc_new_number (lc_elements lc ! j) = enr" for i j
    using that assms chain unfolding lc_struct_def lc_labels_def by blast
  show ?thesis
    unfolding lc_find0_def
    by (subst lc_find_loop_iff) (use uniq assms(2) in \<open>auto simp: chain\<close>)
qed

lemma lc_find0_none:
  assumes "lc_struct lc" and "enr \<noteq> LC_FREE"
  shows "lc_find0 lc enr True = None \<longleftrightarrow>
    (\<forall>e < unat (nr_elements lc). lc_new_number (lc_elements lc ! e) \<noteq> enr)"
  using lc_find0_iff [OF assms, of True] by (auto simp flip: not_Some_eq)

definition lc_core ::
    "lru_cache \<Rightarrow> nat list \<times> nat list \<times> nat list \<times> nat list \<times> u32 \<times> nat list list \<times> lc_element list"
  where
  "lc_core lc = (lru lc, free lc, in_use lc, to_be_changed lc, nr_elements lc, lc_slot lc, lc_elements lc)"

lemma lc_list_core: "lc_core lc = lc_core lc' \<Longrightarrow> lc_list h lc = lc_list h lc'"
  by (cases h) (simp_all add: lc_core_def)

lemma lc_struct_cong: "lc_core lc = lc_core lc' \<Longrightarrow> lc_struct lc = lc_struct lc'"
  unfolding lc_struct_def lc_states_def
  using lc_list_core [of lc lc']
  by (simp add: lc_core_def lc_sizes_def lc_lists_def lc_hashed_def lc_labels_def lc_hash_slot_def)

lemma lc_list_move [simp]:
  "lc_list k (list_move e h lc) = (if k = h then [e] else []) @ removeAll e (lc_list k lc)"
  by (cases k; cases h) (simp_all add: list_move_def list_add_def list_del_def)

lemma list_move_sel [simp]:
  "nr_elements (list_move e h lc) = nr_elements lc"
  "lc_slot (list_move e h lc) = lc_slot lc"
  "lc_elements (list_move e h lc) = lc_elements lc"
  "flags (list_move e h lc) = flags lc"
  "used (list_move e h lc) = used lc"
  "pending_changes (list_move e h lc) = pending_changes lc"
  "max_pending_changes (list_move e h lc) = max_pending_changes lc"
  by (cases h; simp add: list_move_def list_add_def list_del_def)+

lemma lc_lists_move:
  assumes "lc_lists lc" and "e < unat (nr_elements lc)"
  shows "lc_lists (list_move e h lc)"
  using assms
  by (cases h) (auto simp: lc_lists_def list_move_def list_add_def list_del_def distinct_removeAll)

lemma lc_lists_disjoint:
  "lc_lists lc \<Longrightarrow> i \<in> set (lc_list h lc) \<Longrightarrow> i \<in> set (lc_list k lc) \<Longrightarrow> h = k"
  by (cases h; cases k) (auto simp: lc_lists_def)

lemma lc_lists_bound: "lc_lists lc \<Longrightarrow> i \<in> set (lc_list h lc) \<Longrightarrow> i < unat (nr_elements lc)"
  by (cases h) (auto simp: lc_lists_def)

lemma lc_lists_cover:
  assumes "lc_lists lc" and "i < unat (nr_elements lc)"
  obtains h where "i \<in> set (lc_list h lc)"
proof -
  have "i \<in> set (lc_list H_LRU lc) \<or> i \<in> set (lc_list H_FREE lc) \<or>
      i \<in> set (lc_list H_IN_USE lc) \<or> i \<in> set (lc_list H_TO_BE_CHANGED lc)"
    using assms unfolding lc_lists_def set_append lc_list.simps by blast
  then show ?thesis using that by blast
qed

lemma lc_states_move:
  assumes "lc_states lc" and "lc_lists lc" and "lc_sizes lc" and "e < unat (nr_elements lc)"
    and "lc_fits h x" and "lc_elements lc' = (lc_elements lc)[e := x]"
    and "\<And>k. set (lc_list k lc') = (if k = h then {e} else {}) \<union> (set (lc_list k lc) - {e})"
  shows "lc_states lc'"
  unfolding lc_states_def
proof (intro allI ballI)
  fix k i
  assume i: "i \<in> set (lc_list k lc')"
  show "lc_fits k (lc_elements lc' ! i)"
  proof (cases "i = e")
    case True
    then have "k = h" using i by (auto simp: assms(7) split: if_splits)
    then show ?thesis using assms(3-6) True by (simp add: lc_sizes_def)
  next
    case False
    then have "i \<in> set (lc_list k lc)" using i by (auto simp: assms(7) split: if_splits)
    then show ?thesis using assms(1,6) False by (simp add: lc_states_def)
  qed
qed

text \<open>An element keeps its label and moves to list \<open>h\<close>.\<close>

lemma lc_struct_keep:
  assumes wf: "lc_struct lc" and e: "e < unat (nr_elements lc)"
    and x: "x = f (lc_elements lc ! e)"
    and keep: "lc_new_number x = lc_new_number (lc_elements lc ! e)"
    and idx: "lc_index x = lc_index (lc_elements lc ! e)"
    and fits: "lc_fits h x"
  shows "lc_struct (list_move e h (upd_element e f lc))" (is "lc_struct ?lc'")
proof -
  note parts = wf [unfolded lc_struct_def]
  have es: "lc_elements ?lc' = (lc_elements lc)[e := x]" by (simp add: upd_element_def x)
  have new: "lc_new_number (lc_elements ?lc' ! i) = lc_new_number (lc_elements lc ! i)" for i
    unfolding es using keep by (cases "i = e"; cases "e < length (lc_elements lc)")
      (simp_all add: list_update_beyond)
  have nr: "nr_elements ?lc' = nr_elements lc" "lc_slot ?lc' = lc_slot lc"
    by (simp_all add: upd_element_def)
  have "lc_sizes ?lc'"
    using parts idx e by (auto simp: lc_sizes_def upd_element_def nth_list_update x)
  moreover have "lc_lists ?lc'"
    using parts e by (intro lc_lists_move) (simp_all add: upd_element_def lc_lists_def)
  moreover have "lc_states ?lc'"
  proof (rule lc_states_move [of lc e h x])
    show "set (lc_list k ?lc') = (if k = h then {e} else {}) \<union> (set (lc_list k lc) - {e})" for k
      by (cases k) (simp_all add: upd_element_def)
  qed (use parts e fits es in auto)
  moreover have "lc_hashed ?lc'" "lc_labels ?lc'"
    unfolding lc_hashed_def lc_labels_def lc_hash_slot_def new nr
    using parts by (simp_all add: lc_hashed_def lc_labels_def lc_hash_slot_def)
  ultimately show ?thesis by (simp add: lc_struct_def)
qed

text \<open>An element takes the label of \<open>x\<close>, is rehashed under it and moves to list \<open>h\<close>.\<close>

definition lc_rehash :: "nat \<Rightarrow> u32 \<Rightarrow> lru_cache \<Rightarrow> lru_cache" where
  "lc_rehash e label lc =
     (let lc = hlist_del_init e lc
      in if label = LC_FREE then lc else hlist_add_head e (lc_hash_slot lc label) lc)"

lemma lc_rehash_sel [simp]:
  "nr_elements (lc_rehash e l lc) = nr_elements lc"
  "lc_elements (lc_rehash e l lc) = lc_elements lc"
  "lc_list h (lc_rehash e l lc) = lc_list h lc"
  "used (lc_rehash e l lc) = used lc"
  "flags (lc_rehash e l lc) = flags lc"
  "pending_changes (lc_rehash e l lc) = pending_changes lc"
  "max_pending_changes (lc_rehash e l lc) = max_pending_changes lc"
  by (cases h; simp add: lc_rehash_def hlist_del_init_def hlist_add_head_def Let_def)+

lemma lc_rehash_slot:
  assumes "lc_sizes lc" and "s < unat (nr_elements lc)"
  shows "lc_slot (lc_rehash e l lc) ! s =
     (if l \<noteq> LC_FREE \<and> lc_hash_slot lc l = s then [e] else []) @ removeAll e (lc_slot lc ! s)"
  using assms lc_hash_slot_less [OF assms(1), of l]
  by (auto simp: lc_rehash_def hlist_del_init_def hlist_add_head_def Let_def lc_sizes_def
      lc_hash_slot_def nth_list_update)

lemma lc_hashed_rehash:
  assumes h: "lc_hashed lc" and s: "lc_sizes lc" and e: "e < unat (nr_elements lc)"
    and es: "lc_elements lc' = (lc_elements lc)[e := x]" and nr: "nr_elements lc' = nr_elements lc"
    and slot: "lc_slot lc' = lc_slot (lc_rehash e (lc_new_number x) lc)"
  shows "lc_hashed lc'"
proof -
  have hs: "lc_hash_slot lc' = lc_hash_slot lc" by (simp add: lc_hash_slot_def nr fun_eq_iff)
  have len: "length (lc_elements lc) = unat (nr_elements lc)" using s by (simp add: lc_sizes_def)
  show ?thesis
    unfolding lc_hashed_def nr hs slot es
  proof (intro allI impI conjI)
    fix t assume t: "t < unat (nr_elements lc)"
    show "distinct (lc_slot (lc_rehash e (lc_new_number x) lc) ! t)"
      using h t by (simp add: lc_rehash_slot [OF s t] lc_hashed_def distinct_removeAll)
    fix i
    have old: "i \<in> set (lc_slot lc ! t) \<longleftrightarrow> i < unat (nr_elements lc) \<and>
        lc_new_number (lc_elements lc ! i) \<noteq> LC_FREE \<and>
        lc_hash_slot lc (lc_new_number (lc_elements lc ! i)) = t"
      using h t by (simp add: lc_hashed_def)
    show "i \<in> set (lc_slot (lc_rehash e (lc_new_number x) lc) ! t) \<longleftrightarrow> i < unat (nr_elements lc) \<and>
        lc_new_number ((lc_elements lc)[e := x] ! i) \<noteq> LC_FREE \<and>
        lc_hash_slot lc (lc_new_number ((lc_elements lc)[e := x] ! i)) = t"
      using e by (cases "i = e") (auto simp: lc_rehash_slot [OF s t] old len)
  qed
qed

lemma lc_struct_relabel:
  assumes wf: "lc_struct lc" and e: "e < unat (nr_elements lc)"
    and x: "x = f (lc_elements lc ! e)"
    and fresh: "lc_new_number x \<noteq> LC_FREE \<Longrightarrow>
      \<forall>j < unat (nr_elements lc). j \<noteq> e \<longrightarrow> lc_new_number (lc_elements lc ! j) \<noteq> lc_new_number x"
    and idx: "lc_index x = lc_index (lc_elements lc ! e)"
    and fits: "lc_fits h x" and l: "l = lc_new_number x"
  shows "lc_struct (list_move e h (lc_rehash e l (upd_element e f lc)))" (is "lc_struct ?lc'")
proof -
  note parts = wf [unfolded lc_struct_def]
  have es: "lc_elements ?lc' = (lc_elements lc)[e := x]" by (simp add: upd_element_def x)
  have len: "length (lc_elements lc) = unat (nr_elements lc)" using parts by (simp add: lc_sizes_def)
  have nr: "nr_elements ?lc' = nr_elements lc" by (simp add: upd_element_def)
  have slot: "lc_slot ?lc' = lc_slot (lc_rehash e (lc_new_number x) lc)"
    by (simp add: upd_element_def lc_rehash_def hlist_del_init_def hlist_add_head_def Let_def
        lc_hash_slot_def l)
  have "lc_sizes ?lc'"
    using parts idx e
    by (auto simp: lc_sizes_def upd_element_def nth_list_update x lc_rehash_def hlist_del_init_def
        hlist_add_head_def Let_def)
  moreover have "lc_lists ?lc'"
  proof (intro lc_lists_move)
    show "lc_lists (lc_rehash e l (upd_element e f lc))"
      using parts by (simp add: lc_lists_def lc_rehash_def hlist_del_init_def hlist_add_head_def
          Let_def upd_element_def)
  qed (use e in \<open>simp add: upd_element_def\<close>)
  moreover have "lc_states ?lc'"
  proof (rule lc_states_move [of lc e h x])
    show "set (lc_list k ?lc') = (if k = h then {e} else {}) \<union> (set (lc_list k lc) - {e})" for k
      by (cases k) (simp_all add: upd_element_def)
  qed (use parts e fits es in auto)
  moreover have "lc_hashed ?lc'"
    using lc_hashed_rehash [OF _ _ e es nr slot] parts by blast
  moreover have "lc_labels ?lc'"
    unfolding lc_labels_def nr es
  proof (intro allI impI)
    fix i j
    assume ij: "i < unat (nr_elements lc)" "j < unat (nr_elements lc)"
      "lc_new_number ((lc_elements lc)[e := x] ! i) = lc_new_number ((lc_elements lc)[e := x] ! j)"
      "lc_new_number ((lc_elements lc)[e := x] ! i) \<noteq> LC_FREE"
    show "i = j"
    proof (cases "i = e \<or> j = e")
      case True
      then show ?thesis using ij fresh len by (auto simp: nth_list_update split: if_splits)
    next
      case False
      then show ?thesis using ij parts by (auto simp: lc_labels_def)
    qed
  qed
  ultimately show ?thesis by (simp add: lc_struct_def)
qed

lemma lc_flag_simps [simp]:
  "lc_flag n (lc_set_flag m lc) \<longleftrightarrow> n < 64 \<and> n = m \<or> lc_flag n lc"
  "lc_flag n (lc_clear_flag m lc) \<longleftrightarrow> n \<noteq> m \<and> lc_flag n lc"
  "lc_core (lc_set_flag m lc) = lc_core lc"
  "lc_core (lc_clear_flag m lc) = lc_core lc"
  by (auto simp: lc_flag_def lc_set_flag_def lc_clear_flag_def bit_set_bit_iff bit_unset_bit_iff
      lc_core_def bit_simps dest: bit_imp_le_length)

lemma lc_wf_struct: "lc_wf lc \<longleftrightarrow> lc_struct lc \<and> lc_counts lc \<and> \<not> lc_flag LC_PARANOIA lc"
  by (auto simp: lc_wf_def lc_struct_def)

lemma lc_struct_sizes: "lc_struct lc \<Longrightarrow> lc_sizes lc"
  by (simp add: lc_struct_def)

lemma PARANOIA_ENTRY_wf: "lc_wf lc \<Longrightarrow> PARANOIA_ENTRY lc = Some (lc_set_flag LC_PARANOIA lc)"
  by (simp add: PARANOIA_ENTRY_def lc_wf_def lc_sizes_def)

lemma PARANOIA_LC_ELEMENT_iff:
  assumes "lc_sizes lc"
  shows "PARANOIA_LC_ELEMENT lc e = Some () \<longleftrightarrow> e < unat (nr_elements lc)"
proof -
  have "of_nat e < nr_elements lc" "unat (of_nat e :: u32) = e" if "e < unat (nr_elements lc)"
    using that le_unat_uoi [of e "nr_elements lc"] by (simp_all add: word_less_nat_alt)
  with assms show ?thesis
    by (cases "e < unat (nr_elements lc)")
      (auto simp: PARANOIA_LC_ELEMENT_def lc_sizes_def Let_def BUG_ON_def not_less
        simp flip: linorder_not_less)
qed

lemma PARANOIA_LC_ELEMENT_flag [simp]: "PARANOIA_LC_ELEMENT (lc_set_flag n lc) e = PARANOIA_LC_ELEMENT lc e"
  by (simp add: PARANOIA_LC_ELEMENT_def lc_set_flag_def)

lemma lc_struct_elem:
  assumes "lc_struct lc" and "e \<in> set (lc_list h lc)"
  shows "lc_fits h (lc_elements lc ! e)" and "e < unat (nr_elements lc)"
    and "e < length (lc_elements lc)" and "PARANOIA_LC_ELEMENT lc e = Some ()"
proof -
  show "lc_fits h (lc_elements lc ! e)" using assms unfolding lc_struct_def lc_states_def by blast
  show b: "e < unat (nr_elements lc)" using assms lc_lists_bound unfolding lc_struct_def by blast
  show "e < length (lc_elements lc)" "PARANOIA_LC_ELEMENT lc e = Some ()"
    using assms(1) b by (simp_all add: lc_struct_def PARANOIA_LC_ELEMENT_iff lc_sizes_def)
qed

text \<open>An element keeps its label and its list.\<close>

lemma lc_struct_upd:
  assumes wf: "lc_struct lc" and h: "e \<in> set (lc_list h lc)"
    and x: "x = f (lc_elements lc ! e)"
    and keep: "lc_new_number x = lc_new_number (lc_elements lc ! e)"
    and idx: "lc_index x = lc_index (lc_elements lc ! e)"
    and fits: "lc_fits h x"
  shows "lc_struct (upd_element e f lc)" (is "lc_struct ?lc'")
proof -
  note parts = wf [unfolded lc_struct_def]
  have e: "e < unat (nr_elements lc)" using parts h by (auto intro: lc_lists_bound)
  have es: "lc_elements ?lc' = (lc_elements lc)[e := x]" by (simp add: upd_element_def x)
  have new: "lc_new_number (lc_elements ?lc' ! i) = lc_new_number (lc_elements lc ! i)" for i
    unfolding es using keep by (cases "i = e"; cases "e < length (lc_elements lc)")
      (simp_all add: list_update_beyond)
  have nr: "nr_elements ?lc' = nr_elements lc" "lc_slot ?lc' = lc_slot lc"
    by (simp_all add: upd_element_def)
  have ls: "lc_list k ?lc' = lc_list k lc" for k by (cases k) (simp_all add: upd_element_def)
  have "lc_sizes ?lc'"
    using parts idx e by (auto simp: lc_sizes_def upd_element_def nth_list_update x)
  moreover have "lc_lists ?lc'"
    using parts by (simp add: upd_element_def lc_lists_def)
  moreover have "lc_states ?lc'"
  proof (rule lc_states_move [of lc e h x])
    show "set (lc_list k ?lc') = (if k = h then {e} else {}) \<union> (set (lc_list k lc) - {e})" for k
      using h parts lc_lists_disjoint by (auto simp: ls)
  qed (use parts e fits es in auto)
  moreover have "lc_hashed ?lc'" "lc_labels ?lc'"
    unfolding lc_hashed_def lc_labels_def lc_hash_slot_def new nr
    using parts by (simp_all add: lc_hashed_def lc_labels_def lc_hash_slot_def)
  ultimately show ?thesis by (simp add: lc_struct_def)
qed

lemma lc_count_hit_sel [simp]:
  "lc_core (lc_count_hit run lc) = lc_core lc"
  "lc_counts (lc_count_hit run lc) = lc_counts lc"
  "lc_flag n (lc_count_hit run lc) = lc_flag n lc"
  "lc_elements (lc_count_hit run lc) = lc_elements lc"
  "used (lc_count_hit run lc) = used lc"
  "nr_elements (lc_count_hit run lc) = nr_elements lc"
  "pending_changes (lc_count_hit run lc) = pending_changes lc"
  "max_pending_changes (lc_count_hit run lc) = max_pending_changes lc"
  by (simp_all add: lc_count_hit_def lc_core_def lc_counts_def lc_flag_def Let_def)

lemma lc_used_inc_sel [simp]:
  "lc_core (lc_used_inc run lc) = lc_core lc"
  "used (lc_used_inc run lc) = used lc + 1"
  "nr_elements (lc_used_inc run lc) = nr_elements lc"
  "pending_changes (lc_used_inc run lc) = pending_changes lc"
  "max_pending_changes (lc_used_inc run lc) = max_pending_changes lc"
  "lc_flag n (lc_used_inc run lc) = lc_flag n lc"
  "lc_elements (lc_used_inc run lc) = lc_elements lc"
  by (simp_all add: lc_used_inc_def lc_core_def lc_flag_def Let_def)

lemma upd_element_sel [simp]:
  "lc_flag n (upd_element e f lc) = lc_flag n lc"
  "lc_list h (upd_element e f lc) = lc_list h lc"
  "lc_counts (upd_element e f lc) = lc_counts lc"
  "used (upd_element e f lc) = used lc"
  "flags (upd_element e f lc) = flags lc"
  "pending_changes (upd_element e f lc) = pending_changes lc"
  "max_pending_changes (upd_element e f lc) = max_pending_changes lc"
  "nr_elements (upd_element e f lc) = nr_elements lc"
  "length (lc_elements (upd_element e f lc)) = length (lc_elements lc)"
  by (cases h; simp add: upd_element_def lc_flag_def lc_counts_def)+

lemma upd_element_nth [simp]:
  "e < length (lc_elements lc) \<Longrightarrow> lc_elements (upd_element e f lc) ! e = f (lc_elements lc ! e)"
  by (simp add: upd_element_def)

lemma lc_core_cong:
  "lc_core lc = lc_core lc' \<Longrightarrow> lc_core (upd_element e f lc) = lc_core (upd_element e f lc')"
  "lc_core lc = lc_core lc' \<Longrightarrow> lc_core (list_move e h lc) = lc_core (list_move e h lc')"
  "lc_core lc = lc_core lc' \<Longrightarrow> lc_core (lc_rehash e l lc) = lc_core (lc_rehash e l lc')"
  by (cases h; simp add: lc_core_def upd_element_def list_move_def list_add_def list_del_def
      lc_rehash_def hlist_del_init_def hlist_add_head_def lc_hash_slot_def Let_def)+

lemma lc_lengths_move:
  assumes "lc_lists lc"
  shows "length (lc_list k (list_move e h lc)) =
     (if k = h then 1 else 0) + length (lc_list k lc) - (if e \<in> set (lc_list k lc) then 1 else 0)"
proof -
  have "distinct (lc_list k lc)" using assms by (cases k) (simp_all add: lc_lists_def)
  then show ?thesis
    by (auto simp: length_removeAll_distinct Suc_diff_Suc dest: length_pos_if_in_set)
qed

lemma lc_counts_alt:
  "lc_counts lc \<longleftrightarrow>
     used lc = of_nat (length (lc_list H_IN_USE lc) + length (lc_list H_TO_BE_CHANGED lc)) \<and>
     pending_changes lc = of_nat (length (lc_list H_TO_BE_CHANGED lc)) \<and>
     length (lc_list H_TO_BE_CHANGED lc) \<le> unat (max_pending_changes lc)"
  by (simp add: lc_counts_def)

text \<open>How the counters follow an element that moves from list \<open>k\<close> to list \<open>h\<close>.\<close>

definition lc_active :: "lc_head \<Rightarrow> u32" where
  "lc_active h = (if h = H_IN_USE \<or> h = H_TO_BE_CHANGED then 1 else 0)"

definition lc_pending :: "lc_head \<Rightarrow> u32" where
  "lc_pending h = (if h = H_TO_BE_CHANGED then 1 else 0)"

lemma lc_counts_move:
  assumes "lc_lists lc" and "e \<in> set (lc_list k lc)" and "lc_counts lc"
    and ls: "\<And>j. lc_list j lc' = lc_list j (list_move e h lc)"
    and "used lc' = used lc + lc_active h - lc_active k"
    and "pending_changes lc' = pending_changes lc + lc_pending h - lc_pending k"
    and "max_pending_changes lc' = max_pending_changes lc"
    and "h = H_TO_BE_CHANGED \<Longrightarrow> k \<noteq> H_TO_BE_CHANGED \<Longrightarrow> pending_changes lc < max_pending_changes lc"
  shows "lc_counts lc'"
proof -
  have iff: "e \<in> set (lc_list j lc) \<longleftrightarrow> j = k" for j
    using assms(1,2) lc_lists_disjoint by blast
  have len: "length (lc_list j lc') =
      (if j = h then 1 else 0) + length (lc_list j lc) - (if j = k then 1 else 0)" for j
    by (simp add: ls lc_lengths_move [OF assms(1)] iff del: lc_list_move)
  have pos: "0 < length (lc_list k lc)" using assms(2) by (rule length_pos_if_in_set)
  have lt: "length (to_be_changed lc) < unat (max_pending_changes lc)"
    if "h = H_TO_BE_CHANGED" "k \<noteq> H_TO_BE_CHANGED"
  proof -
    have "unat (pending_changes lc) = length (to_be_changed lc)"
      using assms(3) by (auto simp: lc_counts_def intro: le_unat_uoi)
    then show ?thesis using assms(8) [OF that] by (simp add: word_less_nat_alt)
  qed
  show ?thesis
    unfolding lc_counts_alt len
    using assms(3,5-7) pos lt
    by (cases k; cases h)
      (auto simp: lc_counts_def lc_active_def lc_pending_def of_nat_length_pred)
qed

lemma lc_flag_sel [simp]:
  "used (lc_set_flag n lc) = used lc" "used (lc_clear_flag n lc) = used lc"
  "pending_changes (lc_set_flag n lc) = pending_changes lc"
  "pending_changes (lc_clear_flag n lc) = pending_changes lc"
  "max_pending_changes (lc_set_flag n lc) = max_pending_changes lc"
  "max_pending_changes (lc_clear_flag n lc) = max_pending_changes lc"
  "nr_elements (lc_set_flag n lc) = nr_elements lc"
  "nr_elements (lc_clear_flag n lc) = nr_elements lc"
  "lc_elements (lc_set_flag n lc) = lc_elements lc"
  "lc_elements (lc_clear_flag n lc) = lc_elements lc"
  "lc_list h (lc_set_flag n lc) = lc_list h lc" "lc_list h (lc_clear_flag n lc) = lc_list h lc"
  "in_use (lc_clear_flag n lc) = in_use lc" "to_be_changed (lc_clear_flag n lc) = to_be_changed lc"
  "in_use (lc_set_flag n lc) = in_use lc" "to_be_changed (lc_set_flag n lc) = to_be_changed lc"
  "lru (lc_clear_flag n lc) = lru lc" "free (lc_clear_flag n lc) = free lc"
  "lru (lc_set_flag n lc) = lru lc" "free (lc_set_flag n lc) = free lc"
  by (cases h; simp add: lc_set_flag_def lc_clear_flag_def)+

lemma lc_counts_flags [simp]:
  "lc_counts (lc_set_flag n lc) = lc_counts lc"
  "lc_counts (lc_clear_flag n lc) = lc_counts lc"
  by (simp_all add: lc_counts_def lc_set_flag_def lc_clear_flag_def)

lemma lc_struct_flags [simp]:
  "lc_struct (lc_set_flag n lc) = lc_struct lc"
  "lc_struct (lc_clear_flag n lc) = lc_struct lc"
  by (rule lc_struct_cong, simp)+

lemma lc_struct_count_hit [simp]: "lc_struct (lc_count_hit run lc) = lc_struct lc"
  by (rule lc_struct_cong) simp

lemma lc_struct_used_inc [simp]: "lc_struct (lc_used_inc run lc) = lc_struct lc"
  by (rule lc_struct_cong) simp

definition lc_ok :: "('a \<times> lru_cache) option \<Rightarrow> bool" where
  "lc_ok m \<longleftrightarrow> (\<exists>r lc'. m = Some (r, lc') \<and> lc_wf lc')"

lemma LC_RETURN_ok [simp]: "lc_ok (LC_RETURN r lc) \<longleftrightarrow> lc_struct lc \<and> lc_counts lc"
  by (simp add: lc_ok_def LC_RETURN_def lc_wf_struct)

lemma lc_list_of_label:
  assumes "lc_struct lc" and "e < unat (nr_elements lc)"
  obtains h where "e \<in> set (lc_list h lc)" and "lc_fits h (lc_elements lc ! e)"
  using assms lc_lists_cover unfolding lc_struct_def lc_states_def by blast

text \<open>Conditions under which \<^verbatim>\<open>__lc_get\<close> may change the active set.\<close>

definition lc_can_change :: "lru_cache \<Rightarrow> bool" where
  "lc_can_change lc \<longleftrightarrow> \<not> lc_flag LC_LOCKED lc \<and> lc_unused_element_available lc \<and>
     pending_changes lc < max_pending_changes lc"

text \<open>The label that a change pushes out: none while there are free elements, else the one
  least recently used.\<close>

definition lc_victim :: "lru_cache \<Rightarrow> u32" where
  "lc_victim lc = (if free lc \<noteq> [] then LC_FREE else lc_number (lc_elements lc ! last (lru lc)))"

text \<open>What an operation leaves of the element table when element \<open>e\<close> becomes \<open>x\<close>.\<close>

definition lc_changes :: "nat \<Rightarrow> lc_element \<Rightarrow> lru_cache \<Rightarrow> lru_cache \<Rightarrow> bool" where
  "lc_changes e x lc lc' \<longleftrightarrow> lc_struct lc' \<and> lc_counts lc' \<and>
     lc_elements lc' = (lc_elements lc)[e := x] \<and> nr_elements lc' = nr_elements lc"

lemma lc_get_hit_eq:
  assumes wf: "lc_struct lc" "lc_counts lc" and e: "e < unat (nr_elements lc)"
    and lbl: "lc_new_number (lc_elements lc ! e) \<noteq> LC_FREE"
    and novf: "refcnt (lc_elements lc ! e) \<noteq> NOT 0"
  obtains lc' where "lc_get_hit run mu e lc =
      (if lc_new_number (lc_elements lc ! e) \<noteq> lc_number (lc_elements lc ! e) \<and> \<not> mu
       then LC_RETURN None lc else LC_RETURN (Some e) lc')"
    and "lc_changes e ((lc_elements lc ! e)\<lparr>refcnt := refcnt (lc_elements lc ! e) + 1\<rparr>) lc lc'"
proof -
  let ?x = "lc_elements lc ! e" and ?f = "\<lambda>x::lc_element. x\<lparr>refcnt := refcnt x + 1\<rparr>"
  obtain h where h: "e \<in> set (lc_list h lc)" and fits: "lc_fits h ?x"
    using lc_list_of_label [OF wf(1) e] .
  have nz: "refcnt ?x + 1 \<noteq> 0" using novf by (rule word_inc_nonzero)
  show ?thesis
  proof (cases "lc_new_number ?x = lc_number ?x")
    case False
    then have "h = H_TO_BE_CHANGED" using fits lbl by (cases h) auto
    then have "lc_struct (lc_count_hit run (upd_element e ?f lc))"
      using h fits nz lc_struct_upd [OF wf(1), of e h _ ?f] by auto
    then have "lc_changes e (?f ?x) lc (lc_count_hit run (upd_element e ?f lc))"
      using wf(2) by (simp add: lc_changes_def) (simp add: upd_element_def)
    then show ?thesis
      by (rule that [rotated]) (use False in \<open>simp add: lc_get_hit_def\<close>)
  next
    case True
    let ?lc1 = "upd_element e ?f (lc_count_hit run lc)"
    let ?lc2 = "if refcnt ?x = 0 then lc_used_inc run ?lc1 else ?lc1"
    let ?lc3 = "list_move e H_IN_USE ?lc2"
    have h': "h = (if refcnt ?x = 0 then H_LRU else H_IN_USE)"
      using fits lbl True by (cases h) auto
    have c2: "lc_core ?lc2 = lc_core (upd_element e ?f lc)"
      using lc_core_cong(1) [of "lc_count_hit run lc" lc] by simp
    have "lc_struct (list_move e H_IN_USE (upd_element e ?f lc))"
      using True lbl nz by (intro lc_struct_keep [OF wf(1) e refl]) auto
    then have st: "lc_struct ?lc3"
      using lc_struct_cong [OF lc_core_cong(2) [OF c2]] by blast
    have "lc_counts ?lc3"
    proof (rule lc_counts_move [of lc e h])
      show "lc_list j ?lc3 = lc_list j (list_move e H_IN_USE lc)" for j
        using lc_list_core [OF c2] by (simp del: upd_element_sel add: upd_element_sel(2))
    qed (use wf h h' in \<open>auto simp: lc_struct_def lc_active_def lc_pending_def\<close>)
    with st c2 have "lc_changes e (?f ?x) lc ?lc3" by (simp add: lc_changes_def lc_core_def upd_element_def)
    then show ?thesis
      by (rule that [rotated]) (use True in \<open>simp add: lc_get_hit_def Let_def\<close>)
  qed
qed

lemma lc_prepare_ok:
  assumes "lc_struct lc" and "lc_unused_element_available lc" and enr: "enr \<noteq> LC_FREE"
  obtains e k where "lc_prepare_for_change enr lc =
      Some (Some e, list_move e H_TO_BE_CHANGED (lc_rehash e enr
        (upd_element e (\<lambda>x. x\<lparr>lc_new_number := enr\<rparr>) lc)))"
    and "e \<in> set (lc_list k lc)" and "k = H_FREE \<or> k = H_LRU"
    and "e < unat (nr_elements lc)" and "lc_new_number (lc_elements lc ! e) = lc_victim lc"
proof -
  define e where "e = (if free lc \<noteq> [] then hd (free lc) else last (lru lc))"
  define k where "k = (if free lc \<noteq> [] then H_FREE else H_LRU)"
  have mem: "e \<in> set (lc_list k lc)"
    using assms(2) by (auto simp: e_def k_def lc_unused_element_available_def)
  note bound = lc_struct_elem(2) [OF assms(1) mem]
  have "PARANOIA_LC_ELEMENT lc e = Some ()" by (rule lc_struct_elem(4) [OF assms(1) mem])
  then have "lc_prepare_for_change enr lc =
      Some (Some e, list_move e H_TO_BE_CHANGED (lc_rehash e enr
        (upd_element e (\<lambda>x. x\<lparr>lc_new_number := enr\<rparr>) lc)))"
    using assms(2) enr unfolding e_def
    by (auto simp: lc_prepare_for_change_def lc_unused_element_available_def lc_rehash_def Let_def)
  moreover have "lc_new_number (lc_elements lc ! e) = lc_victim lc"
    using lc_struct_elem(1) [OF assms(1) mem] by (auto simp: e_def k_def lc_victim_def split: if_splits)
  ultimately show thesis by (intro that [OF _ mem _ bound]) (simp_all add: k_def)
qed

lemma lc_core_stats [simp]:
  "lc_core (lc\<lparr>misses := a\<rparr>) = lc_core lc" "lc_core (lc\<lparr>misses_cnt := a\<rparr>) = lc_core lc"
  "lc_core (lc\<lparr>locked := a\<rparr>) = lc_core lc" "lc_core (lc\<lparr>starving := a\<rparr>) = lc_core lc"
  "lc_core (lc\<lparr>starving_cnt := a\<rparr>) = lc_core lc" "lc_core (lc\<lparr>changed := a\<rparr>) = lc_core lc"
  "lc_core (lc\<lparr>changed_cnt := a\<rparr>) = lc_core lc" "lc_core (lc\<lparr>used := b\<rparr>) = lc_core lc"
  "lc_core (lc\<lparr>pending_changes := b\<rparr>) = lc_core lc"
  by (simp_all add: lc_core_def)

lemma lc_counts_stats [simp]:
  "lc_counts (lc\<lparr>misses := a\<rparr>) = lc_counts lc" "lc_counts (lc\<lparr>misses_cnt := a\<rparr>) = lc_counts lc"
  "lc_counts (lc\<lparr>locked := a\<rparr>) = lc_counts lc" "lc_counts (lc\<lparr>starving := a\<rparr>) = lc_counts lc"
  "lc_counts (lc\<lparr>starving_cnt := a\<rparr>) = lc_counts lc" "lc_counts (lc\<lparr>changed := a\<rparr>) = lc_counts lc"
  "lc_counts (lc\<lparr>changed_cnt := a\<rparr>) = lc_counts lc"
  by (simp_all add: lc_counts_def)

lemmas lc_struct_stats [simp] = lc_core_stats [THEN lc_struct_cong]

lemma lc_count_miss_sel [simp]:
  "lc_core (lc_count_miss run lc) = lc_core lc"
  "lc_struct (lc_count_miss run lc) = lc_struct lc"
  "lc_counts (lc_count_miss run lc) = lc_counts lc"
  by (simp_all add: lc_count_miss_def Let_def)

text \<open>The step of \<^verbatim>\<open>__lc_get\<close> that hands a spare element to a new label.\<close>

lemma lc_change_ok:
  assumes wf: "lc_struct lc" "lc_counts lc" and enr: "enr \<noteq> LC_FREE"
    and fresh: "\<forall>j < unat (nr_elements lc). lc_new_number (lc_elements lc ! j) \<noteq> enr"
    and e: "e \<in> set (lc_list k lc)" "k = H_FREE \<or> k = H_LRU" "e < unat (nr_elements lc)"
    and room: "pending_changes lc < max_pending_changes lc"
    and core: "lc_core lc' = lc_core (list_move e H_TO_BE_CHANGED (lc_rehash e enr
        (upd_element e (\<lambda>x. x\<lparr>lc_new_number := enr, refcnt := refcnt x + 1\<rparr>) lc)))"
    and cnt: "used lc' = used lc + 1" "pending_changes lc' = pending_changes lc + 1"
      "max_pending_changes lc' = max_pending_changes lc"
  shows "lc_struct lc' \<and> lc_counts lc'"
proof
  note fits = lc_struct_elem(1) [OF wf(1) e(1)]
  show "lc_struct lc'"
    unfolding lc_struct_cong [OF core]
    using fits enr fresh e by (intro lc_struct_relabel [OF wf(1) e(3) refl]) auto
  show "lc_counts lc'"
  proof (rule lc_counts_move [of lc e k])
    show "lc_list j lc' = lc_list j (list_move e H_TO_BE_CHANGED lc)" for j
      unfolding lc_list_core [OF core] by simp
  qed (use wf e cnt room in \<open>auto simp: lc_struct_def lc_active_def lc_pending_def\<close>)
qed

lemma upd_element_comm:
  "upd_element e f (list_move e' h lc) = list_move e' h (upd_element e f lc)"
  "upd_element e f (lc_rehash e' l lc) = lc_rehash e' l (upd_element e f lc)"
  "upd_element e f (lc_clear_flag n lc) = lc_clear_flag n (upd_element e f lc)"
  by (cases h; simp add: upd_element_def list_move_def list_add_def list_del_def lc_rehash_def
      hlist_del_init_def hlist_add_head_def Let_def lc_hash_slot_def lc_clear_flag_def)+

lemma upd_element_twice:
  "e < length (lc_elements lc) \<Longrightarrow> upd_element e f (upd_element e g lc) = upd_element e (\<lambda>x. f (g x)) lc"
  by (simp add: upd_element_def)

lemma lc_get_miss_eq:
  assumes wf: "lc_struct lc" "lc_counts lc" and enr: "enr \<noteq> LC_FREE"
    and fresh: "\<forall>j < unat (nr_elements lc). lc_new_number (lc_elements lc ! j) \<noteq> enr"
    and can: "lc_can_change lc"
  obtains e lc' where "lc_get_miss run True enr lc = LC_RETURN (Some e) lc'"
    and "lc_changes e ((lc_elements lc ! e)\<lparr>lc_new_number := enr, refcnt := 1\<rparr>) lc lc'"
    and "e < unat (nr_elements lc)" and "lc_new_number (lc_elements lc ! e) = lc_victim lc"
    and "lc_number (lc_elements lc ! e) = lc_victim lc"
proof -
  define lc2 where "lc2 = lc_set_flag LC_DIRTY (lc_count_miss run lc)"
  have c2: "lc_core lc2 = lc_core lc" by (simp add: lc2_def)
  then have eqs: "lc_elements lc2 = lc_elements lc" "nr_elements lc2 = nr_elements lc"
      "lc_victim lc2 = lc_victim lc" "lc_unused_element_available lc2 = lc_unused_element_available lc"
    by (simp_all add: lc_core_def lc_victim_def lc_unused_element_available_def)
  have wf2: "lc_struct lc2" "lc_counts lc2" using wf by (simp_all add: lc2_def)
  have cnt: "used lc2 = used lc" "pending_changes lc2 = pending_changes lc"
      "max_pending_changes lc2 = max_pending_changes lc"
    by (simp_all add: lc2_def lc_count_miss_def Let_def)
  have flag: "\<not> lc_flag LC_LOCKED (lc_count_miss run lc)"
    using can by (simp add: lc_can_change_def lc_count_miss_def lc_flag_def Let_def)
  let ?g = "\<lambda>x::lc_element. x\<lparr>lc_new_number := enr\<rparr>"
  obtain e k where prep: "lc_prepare_for_change enr lc2 =
      Some (Some e, list_move e H_TO_BE_CHANGED (lc_rehash e enr (upd_element e ?g lc2)))"
    and e: "e \<in> set (lc_list k lc2)" "k = H_FREE \<or> k = H_LRU" "e < unat (nr_elements lc2)"
    and old: "lc_new_number (lc_elements lc2 ! e) = lc_victim lc2"
    using can lc_prepare_ok [OF wf2(1) _ enr] eqs by (metis lc_can_change_def)
  note len = lc_struct_elem(3) [OF wf2(1) e(1)]
  have ref: "refcnt (lc_elements lc2 ! e) = 0" "lc_number (lc_elements lc2 ! e) = lc_victim lc2"
    using lc_struct_elem(1) [OF wf2(1) e(1)] e(2) old by auto
  define lc3 where "lc3 = lc_used_inc run (lc_clear_flag LC_STARVING
    (list_move e H_TO_BE_CHANGED (lc_rehash e enr
      (upd_element e (\<lambda>x. x\<lparr>lc_new_number := enr, refcnt := refcnt x + 1\<rparr>) lc2))))"
  let ?lc4 = "lc3\<lparr>pending_changes := pending_changes lc3 + 1\<rparr>"
  have room: "pending_changes lc2 < max_pending_changes lc2" using can cnt by (simp add: lc_can_change_def)
  have "lc_struct ?lc4 \<and> lc_counts ?lc4"
    by (rule lc_change_ok [OF wf2 enr _ e room]) (use fresh eqs in \<open>simp_all add: lc3_def\<close>)
  moreover have "lc_elements ?lc4 = (lc_elements lc)[e := (lc_elements lc ! e)\<lparr>lc_new_number := enr, refcnt := 1\<rparr>]"
    using ref eqs by (simp add: lc3_def upd_element_def)
  moreover have "nr_elements ?lc4 = nr_elements lc" using eqs by (simp add: lc3_def)
  moreover have "lc_get_miss run True enr lc = LC_RETURN (Some e) ?lc4"
    using can prep ref len room [THEN linorder_not_le [THEN iffD2]] flag eqs
    by (simp add: lc_get_miss_def lc3_def Let_def lc_can_change_def upd_element_comm upd_element_twice
        del: One_nat_def flip: lc2_def)
  ultimately show thesis using that e old ref eqs by (simp add: lc_changes_def)
qed

lemma lc_get_miss_none:
  assumes "\<not> (mc \<and> lc_can_change lc)"
  obtains lc' where "lc_get_miss run mc enr lc = LC_RETURN None lc'"
    and "lc_core lc' = lc_core lc" and "lc_counts lc' = lc_counts lc"
proof (cases mc)
  case False
  then show ?thesis using that by (auto simp: lc_get_miss_def Let_def)
next
  case True
  define lc2 where "lc2 = lc_set_flag LC_DIRTY (lc_count_miss run lc)"
  have c2: "lc_core lc2 = lc_core lc" "lc_counts lc2 = lc_counts lc" by (simp_all add: lc2_def)
  have "lc_flag LC_LOCKED lc2 = lc_flag LC_LOCKED lc" "pending_changes lc2 = pending_changes lc"
      "max_pending_changes lc2 = max_pending_changes lc"
      "lc_unused_element_available lc2 = lc_unused_element_available lc"
    by (simp_all add: lc2_def lc_count_miss_def Let_def lc_set_flag_def lc_flag_def bit_set_bit_iff
        lc_unused_element_available_def)
  then have "lc_flag LC_LOCKED lc2 \<or> \<not> lc_unused_element_available lc2 \<or>
      max_pending_changes lc2 \<le> pending_changes lc2"
    using assms True by (auto simp: lc_can_change_def not_less)
  then have "\<exists>lc'. lc_get_miss run mc enr lc = LC_RETURN None lc' \<and> lc_core lc' = lc_core lc \<and>
      lc_counts lc' = lc_counts lc"
    using True c2 unfolding lc_get_miss_def Let_def lc2_def [symmetric] by auto
  then show ?thesis using that by blast
qed

lemma lc_find0_cong: "lc_core lc = lc_core lc' \<Longrightarrow> lc_find0 lc = lc_find0 lc'"
  by (simp add: lc_find0_def lc_core_def lc_hash_slot_def fun_eq_iff)

lemma lc_put_ok:
  assumes wf: "lc_wf lc" and e: "e \<in> set (in_use lc)"
  shows "lc_ok (lc_put e lc)"
proof -
  define lc0 where "lc0 = lc_set_flag LC_PARANOIA lc"
  let ?f = "\<lambda>x::lc_element. x\<lparr>refcnt := refcnt x - 1\<rparr>"
  let ?lc1 = "upd_element e ?f lc0"
  have st: "lc_struct lc0" "lc_counts lc0" using wf by (simp_all add: lc0_def lc_wf_struct)
  have mem: "e \<in> set (lc_list H_IN_USE lc0)" using e by (simp add: lc0_def lc_set_flag_def)
  note fits = lc_struct_elem(1) [OF st(1) mem] and b = lc_struct_elem(2) [OF st(1) mem]
    and len = lc_struct_elem(3) [OF st(1) mem] and pe = lc_struct_elem(4) [OF st(1) mem]
  have step: "lc_put e lc = LC_RETURN (refcnt (lc_elements ?lc1 ! e))
      (if refcnt (lc_elements lc0 ! e) = 1
       then lc_clear_flag LC_STARVING (let lc' = list_move e H_LRU ?lc1 in lc'\<lparr>used := used lc' - 1\<rparr>)
       else ?lc1)"
    using fits pe len
    by (simp add: lc_put_def PARANOIA_ENTRY_wf [OF wf] Let_def upd_element_def flip: lc0_def)
  show ?thesis
  proof (cases "refcnt (lc_elements lc0 ! e) = 1")
    case True
    have "lc_struct (list_move e H_LRU ?lc1)"
      using fits True by (intro lc_struct_keep [OF st(1) b refl]) auto
    moreover have "lc_counts ((list_move e H_LRU ?lc1)\<lparr>used := used lc0 - 1\<rparr>)"
    proof (rule lc_counts_move [OF _ mem st(2)])
      show "lc_list j ((list_move e H_LRU ?lc1)\<lparr>used := used lc0 - 1\<rparr>) =
          lc_list j (list_move e H_LRU lc0)" for j
        by (cases j) (simp_all add: upd_element_def list_move_def list_add_def list_del_def)
    qed (use st in \<open>auto simp: lc_struct_def lc_active_def lc_pending_def\<close>)
    ultimately show ?thesis using True by (simp add: step Let_def)
  next
    case False
    have "lc_struct ?lc1"
      using fits False by (intro lc_struct_upd [OF st(1) mem refl]) auto
    then show ?thesis using False st by (simp add: step)
  qed
qed

lemma lc_del_ok:
  assumes wf: "lc_wf lc" and e: "e \<in> set (lru lc)"
  shows "lc_ok (lc_del e lc)"
proof -
  define lc0 where "lc0 = lc_set_flag LC_PARANOIA lc"
  let ?f = "\<lambda>x::lc_element. x\<lparr>lc_number := LC_FREE, lc_new_number := LC_FREE\<rparr>"
  let ?lc1 = "list_move e H_FREE (lc_rehash e LC_FREE (upd_element e ?f lc0))"
  have st: "lc_struct lc0" "lc_counts lc0" using wf by (simp_all add: lc0_def lc_wf_struct)
  have mem: "e \<in> set (lc_list H_LRU lc0)" using e by (simp add: lc0_def lc_set_flag_def)
  note fits = lc_struct_elem(1) [OF st(1) mem] and b = lc_struct_elem(2) [OF st(1) mem]
    and pe = lc_struct_elem(4) [OF st(1) mem]
  have "lc_del e lc = LC_RETURN () ?lc1"
    using fits pe by (simp add: lc_del_def lc_rehash_def PARANOIA_ENTRY_wf [OF wf] Let_def flip: lc0_def)
  moreover have "lc_struct ?lc1"
    using fits by (intro lc_struct_relabel [OF st(1) b refl]) auto
  moreover have "lc_counts ?lc1"
    by (rule lc_counts_move [OF _ mem st(2)])
      (use st in \<open>auto simp: lc_struct_def lc_active_def lc_pending_def\<close>)
  ultimately show ?thesis by simp
qed

text \<open>Committing: every pending label becomes the label of its element.\<close>

definition lc_commit_element :: "lc_element \<Rightarrow> lc_element" where
  "lc_commit_element x = x\<lparr>lc_number := lc_new_number x\<rparr>"

lemma lc_commit_loop_ok:
  assumes "lc_struct lc" and "es = to_be_changed lc"
  shows "lc_struct (lc_commit_loop run es lc) \<and> to_be_changed (lc_commit_loop run es lc) = [] \<and>
    in_use (lc_commit_loop run es lc) = rev es @ in_use lc \<and>
    lru (lc_commit_loop run es lc) = lru lc \<and> free (lc_commit_loop run es lc) = free lc \<and>
    used (lc_commit_loop run es lc) = used lc \<and>
    max_pending_changes (lc_commit_loop run es lc) = max_pending_changes lc \<and>
    nr_elements (lc_commit_loop run es lc) = nr_elements lc \<and>
    lc_elements (lc_commit_loop run es lc) = map lc_commit_element (lc_elements lc)"
  using assms
proof (induction es arbitrary: lc)
  case Nil
  have "lc_commit_element (lc_elements lc ! i) = lc_elements lc ! i" if i: "i < unat (nr_elements lc)" for i
  proof -
    obtain h where h: "i \<in> set (lc_list h lc)" "lc_fits h (lc_elements lc ! i)"
      using lc_list_of_label [OF Nil(1) i] .
    have "lc_number (lc_elements lc ! i) = lc_new_number (lc_elements lc ! i)"
      using h Nil(2) by (cases h) auto
    then show ?thesis by (simp add: lc_commit_element_def)
  qed
  then have "map lc_commit_element (lc_elements lc) = lc_elements lc"
    using Nil(1) by (intro nth_equalityI) (auto simp: lc_struct_def lc_sizes_def)
  then show ?case using Nil by simp
next
  case (Cons e es)
  let ?f = "\<lambda>x::lc_element. x\<lparr>lc_number := lc_new_number x\<rparr>"
  define lc1 where "lc1 = (let lc = lc\<lparr>changed := changed lc + 1\<rparr>
    in if run then lc\<lparr>changed_cnt := changed_cnt lc + 1\<rparr> else lc)"
  have c1: "lc_core lc1 = lc_core lc" by (simp add: lc1_def Let_def)
  have rest: "used lc1 = used lc" "max_pending_changes lc1 = max_pending_changes lc"
    by (simp_all add: lc1_def Let_def)
  have st: "lc_struct lc1" using Cons.prems(1) lc_struct_cong [OF c1] by simp
  have mem: "e \<in> set (lc_list H_TO_BE_CHANGED lc1)"
    using Cons.prems(2) lc_list_core [OF c1, of H_TO_BE_CHANGED] by (metis list.set_intros(1) lc_list.simps(4))
  define lc2 where "lc2 = list_move e H_IN_USE (upd_element e ?f lc1)"
  have st2: "lc_struct lc2"
    unfolding lc2_def
    using lc_struct_elem(1) [OF st mem] by (intro lc_struct_keep [OF st lc_struct_elem(2) [OF st mem] refl]) auto
  have dist: "distinct (lru lc @ free lc @ in_use lc @ e # es)"
    using Cons.prems by (simp add: lc_struct_def lc_lists_def)
  then have ls: "to_be_changed lc2 = es" "in_use lc2 = e # in_use lc" "lru lc2 = lru lc" "free lc2 = free lc"
    using c1 Cons.prems(2) [symmetric]
    by (auto simp: lc2_def list_move_def list_add_def list_del_def upd_element_def lc_core_def removeAll_id)
  have es: "map lc_commit_element (lc_elements lc2) = map lc_commit_element (lc_elements lc)"
    using c1 lc_struct_elem(3) [OF st mem]
    by (intro nth_equalityI)
      (auto simp: lc2_def upd_element_def lc_core_def lc_commit_element_def nth_list_update)
  have "lc_commit_loop run (e # es) lc = lc_commit_loop run es lc2"
    by (simp add: lc1_def lc2_def Let_def)
  then show ?case
    using Cons.IH [OF st2 ls(1) [symmetric]] ls es rest c1 by (simp add: lc2_def lc_core_def)
qed

lemma lc_committed_eq:
  assumes wf: "lc_wf lc"
  obtains lc' where "lc_committed run lc = Some ((), lc')" and "lc_wf lc'"
    and "to_be_changed lc' = []" and "in_use lc' = rev (to_be_changed lc) @ in_use lc"
    and "lru lc' = lru lc" and "free lc' = free lc" and "used lc' = used lc"
    and "nr_elements lc' = nr_elements lc"
    and "lc_elements lc' = map lc_commit_element (lc_elements lc)"
proof -
  define lc0 where "lc0 = lc_set_flag LC_PARANOIA lc"
  have st: "lc_struct lc0" "lc_counts lc0" using wf by (simp_all add: lc0_def lc_wf_struct)
  note loop = lc_commit_loop_ok [OF st(1) refl, of run]
  define lc1 where "lc1 = lc_clear_flag LC_PARANOIA
    (lc_commit_loop run (to_be_changed lc0) lc0 \<lparr>pending_changes := 0\<rparr>)"
  have "lc_committed run lc = Some ((), lc1)"
    by (simp add: lc_committed_def PARANOIA_ENTRY_wf [OF wf] Let_def LC_RETURN_def lc1_def flip: lc0_def)
  moreover have "lc_wf lc1"
    using loop st(2) unfolding lc_wf_struct lc1_def by (simp add: lc_counts_def)
  ultimately show thesis
    by (rule that) (use loop in \<open>simp_all add: lc1_def lc0_def lc_set_flag_def lc_clear_flag_def\<close>)
qed

lemma lc_fresh_wf:
  assumes "nr_elements lc \<noteq> 0" and "lc_elements lc = map lc_fresh_element [0..<unat (nr_elements lc)]"
    and "lc_slot lc = replicate (unat (nr_elements lc)) []" and "free lc = rev [0..<unat (nr_elements lc)]"
    and "lru lc = []" "in_use lc = []" "to_be_changed lc = []" "used lc = 0" "pending_changes lc = 0"
    and "flags lc = 0"
  shows "lc_wf lc"
proof -
  have "lc_fits h (lc_elements lc ! i)" if "i \<in> set (lc_list h lc)" for i h
    using assms(2,4-7) that by (cases h) (simp_all add: lc_fresh_element_def)
  then have "lc_states lc" by (simp add: lc_states_def)
  with assms show ?thesis
    by (auto simp: lc_wf_def lc_sizes_def lc_lists_def lc_hashed_def lc_labels_def lc_counts_def
        lc_flag_def lc_fresh_element_def)
qed

lemma lc_create_wf:
  "lc_create a b c objs mp n = LC_CREATED lc \<Longrightarrow> n \<noteq> 0 \<Longrightarrow> lc_wf lc"
  by (intro lc_fresh_wf) (auto simp: lc_create_def split: if_splits)

lemma lc_reset_wf: "nr_elements lc \<noteq> 0 \<Longrightarrow> lc_wf (lc_reset lc)"
  by (intro lc_fresh_wf) (simp_all add: lc_reset_def)

lemma lc_set_ok:
  assumes wf: "lc_wf lc" and i: "0 \<le> i" "i < uint (nr_elements lc)"
    and e: "nat i \<in> set (lc_list k lc)" "k = H_FREE \<or> k = H_LRU"
    and fresh: "enr \<noteq> LC_FREE \<Longrightarrow> \<forall>j < unat (nr_elements lc). j \<noteq> nat i \<longrightarrow>
      lc_new_number (lc_elements lc ! j) \<noteq> enr"
  obtains lc' where "lc_set enr i lc = Some lc'" and "lc_wf lc'"
    and "lc' = list_move (nat i) (if enr = LC_FREE then H_FREE else H_LRU) (lc_rehash (nat i) enr
      (upd_element (nat i) (\<lambda>x. x\<lparr>lc_number := enr, lc_new_number := enr\<rparr>) lc))"
proof -
  let ?e = "nat i" and ?h = "if enr = LC_FREE then H_FREE else H_LRU"
  let ?f = "\<lambda>x::lc_element. x\<lparr>lc_number := enr, lc_new_number := enr\<rparr>"
  let ?lc' = "list_move ?e ?h (lc_rehash ?e enr (upd_element ?e ?f lc))"
  have st: "lc_struct lc" "lc_counts lc" "\<not> lc_flag LC_PARANOIA lc" using wf by (simp_all add: lc_wf_struct)
  note b = lc_struct_elem(2) [OF st(1) e(1)] and fits = lc_struct_elem(1) [OF st(1) e(1)]
  have un: "unat (of_int i :: u32) = ?e" "(of_int i :: u32) = of_nat ?e" "(of_nat ?e :: u32) < nr_elements lc"
    using i b le_unat_uoi [of ?e "nr_elements lc"] by (simp_all add: word_less_nat_alt)
  have "lc_element_by_index lc (of_int i) = Some ?e"
    using un b st(1) by (simp add: lc_element_by_index_def lc_struct_def lc_sizes_def not_le)
  then have "lc_set enr i lc = Some ?lc'"
    using i e(2) fits by (auto simp: lc_set_def lc_rehash_def Let_def not_le not_less)
  moreover have "lc_struct ?lc'"
    using e(2) fits fresh by (intro lc_struct_relabel [OF st(1) b refl]) auto
  moreover have "lc_counts ?lc'"
    by (rule lc_counts_move [where h = ?h, OF _ e(1) st(2)])
      (use st e(2) in \<open>auto simp: lc_struct_def lc_active_def lc_pending_def split: if_splits\<close>)
  moreover have "\<not> lc_flag LC_PARANOIA ?lc'"
    using st(3) by (simp add: lc_flag_def)
  ultimately show thesis by (intro that) (auto simp: lc_wf_struct)
qed

section \<open>The active set\<close>

text \<open>
  The abstract state: which labels the cache carries, with the reference count of each and
  whether its label is committed.
\<close>

definition lc_view :: "lru_cache \<Rightarrow> u32 \<Rightarrow> (u32 \<times> bool) option" where
  "lc_view lc nr =
     (if nr = LC_FREE then None
      else map_option (\<lambda>e. (refcnt (lc_elements lc ! e), lc_number (lc_elements lc ! e) = nr))
        (lc_find0 lc nr True))"

lemma lc_view_FREE [simp]: "lc_view lc LC_FREE = None"
  by (simp add: lc_view_def)

lemma lc_view_Some:
  assumes "lc_struct lc"
  shows "lc_view lc nr = Some (r, c) \<longleftrightarrow> nr \<noteq> LC_FREE \<and> (\<exists>e < unat (nr_elements lc).
    lc_new_number (lc_elements lc ! e) = nr \<and> refcnt (lc_elements lc ! e) = r \<and>
    (lc_number (lc_elements lc ! e) = nr) = c)"
  using lc_find0_iff [OF assms, of nr True] by (auto simp: lc_view_def)

lemma lc_view_label:
  assumes "lc_struct lc" and "e < unat (nr_elements lc)" and "lc_new_number (lc_elements lc ! e) \<noteq> LC_FREE"
  shows "lc_view lc (lc_new_number (lc_elements lc ! e)) =
    Some (refcnt (lc_elements lc ! e), lc_number (lc_elements lc ! e) = lc_new_number (lc_elements lc ! e))"
  using assms by (auto simp: lc_view_Some)

text \<open>One element changes: its old label leaves the active set, its new label enters.\<close>

lemma lc_view_change:
  assumes st: "lc_struct lc" "lc_struct lc'" and e: "e < unat (nr_elements lc)"
    and es: "lc_elements lc' = (lc_elements lc)[e := x]" and nr: "nr_elements lc' = nr_elements lc"
  shows "lc_view lc' = (\<lambda>nr.
    if nr = LC_FREE then None
    else if nr = lc_new_number x then Some (refcnt x, lc_number x = nr)
    else if nr = lc_new_number (lc_elements lc ! e) then None
    else lc_view lc nr)" (is "_ = ?V")
proof
  fix n
  have len: "length (lc_elements lc) = unat (nr_elements lc)"
    using st(1) by (simp add: lc_struct_def lc_sizes_def)
  have uniq: "j = e" if "j < unat (nr_elements lc)"
      "lc_new_number (lc_elements lc ! j) = lc_new_number (lc_elements lc ! e)"
      "lc_new_number (lc_elements lc ! e) \<noteq> LC_FREE" for j
    using st(1) that e unfolding lc_struct_def lc_labels_def by metis
  have uniq': "j = e" if "j < unat (nr_elements lc)" "lc_new_number x \<noteq> LC_FREE"
      "lc_new_number (lc_elements lc ! j) = lc_new_number x" for j
    using st(2) that e nr es len unfolding lc_struct_def lc_labels_def
    by (metis nth_list_update_eq nth_list_update_neq)
  have "lc_view lc' n = Some (r, c) \<longleftrightarrow> ?V n = Some (r, c)" for r c
  proof -
    consider "n = LC_FREE" | "n \<noteq> LC_FREE" "n = lc_new_number x"
      | "n \<noteq> LC_FREE" "n \<noteq> lc_new_number x" "n = lc_new_number (lc_elements lc ! e)"
      | "n \<noteq> lc_new_number x" "n \<noteq> lc_new_number (lc_elements lc ! e)" by blast
    then show ?thesis
    proof cases
      case 2
      then show ?thesis
        using e uniq' by (auto simp: lc_view_Some [OF st(2)] es nr len nth_list_update split: if_splits)
    next
      case 3
      then show ?thesis
        using e uniq by (auto simp: lc_view_Some [OF st(2)] es nr len nth_list_update split: if_splits)
    next
      case 4
      let ?Q = "\<lambda>y. lc_new_number y = n \<and> refcnt y = r \<and> (lc_number y = n) = c"
      have "?Q (lc_elements lc' ! j) = ?Q (lc_elements lc ! j)" if "j < unat (nr_elements lc)" for j
        using 4 that by (cases "j = e") (auto simp: es len)
      then have "(\<exists>j < unat (nr_elements lc). ?Q (lc_elements lc' ! j)) =
          (\<exists>j < unat (nr_elements lc). ?Q (lc_elements lc ! j))" by blast
      then show ?thesis
        using 4 by (simp add: lc_view_Some [OF st(2)] lc_view_Some [OF st(1)] nr)
    qed (simp add: lc_view_def)
  qed
  then show "lc_view lc' n = ?V n" by (rule option_pair_eqI)
qed

lemma lc_view_cong: "lc_core lc = lc_core lc' \<Longrightarrow> lc_view lc = lc_view lc'"
  using lc_find0_cong [of lc lc'] by (auto simp: lc_view_def fun_eq_iff lc_core_def)

lemma lc_view_changes:
  assumes "lc_struct lc" and "lc_changes e x lc lc'" and "e < unat (nr_elements lc)"
  shows "lc_view lc' = (\<lambda>nr.
    if nr = LC_FREE then None
    else if nr = lc_new_number x then Some (refcnt x, lc_number x = nr)
    else if nr = lc_new_number (lc_elements lc ! e) then None
    else lc_view lc nr)"
  using assms by (intro lc_view_change) (auto simp: lc_changes_def)

text \<open>The contract of \<^verbatim>\<open>__lc_get\<close> on the active set.\<close>

definition lc_get_spec ::
    "bool \<Rightarrow> bool \<Rightarrow> u32 \<Rightarrow> lru_cache \<Rightarrow> (nat option \<times> lru_cache) option \<Rightarrow> bool" where
  "lc_get_spec mc mu enr lc r =
     (case r of
        None \<Rightarrow> False
      | Some (eo, lc') \<Rightarrow> lc_wf lc' \<and> nr_elements lc' = nr_elements lc \<and>
         (if lc_flag LC_STARVING lc then eo = None \<and> lc_view lc' = lc_view lc
          else case lc_view lc enr of
            Some (n, c) \<Rightarrow>
              if c \<or> mu
              then eo = lc_find0 lc enr True \<and> lc_view lc' = (lc_view lc)(enr \<mapsto> (n + 1, c))
              else eo = None \<and> lc_view lc' = lc_view lc
          | None \<Rightarrow>
              if mc \<and> lc_can_change lc
              then eo \<noteq> None \<and> eo = lc_find0 lc' enr True \<and>
                lc_view lc' = (lc_view lc)(lc_victim lc := None, enr \<mapsto> (1, False))
              else eo = None \<and> lc_view lc' = lc_view lc))"

lemma lc_get_none_meets:
  assumes "lc_struct lc" "lc_counts lc" and "lc_core lc' = lc_core lc" and "lc_counts lc' = lc_counts lc"
    and "r = LC_RETURN None lc'"
  shows "\<exists>lc''. r = Some (None, lc'') \<and> lc_wf lc'' \<and> lc_view lc'' = lc_view lc \<and>
    nr_elements lc'' = nr_elements lc"
proof -
  have "lc_core (lc_clear_flag LC_PARANOIA lc') = lc_core lc" using assms by simp
  then have "lc_view (lc_clear_flag LC_PARANOIA lc') = lc_view lc"
      "nr_elements (lc_clear_flag LC_PARANOIA lc') = nr_elements lc"
    by (rule lc_view_cong, simp add: lc_core_def)
  with assms show ?thesis
    using lc_struct_cong [OF assms(3)] by (auto simp: LC_RETURN_def lc_wf_struct)
qed

lemma lc_changes_return:
  assumes "lc_struct lc" and "lc_changes e x lc lc'" and "e < unat (nr_elements lc)"
  shows "lc_wf (lc_clear_flag LC_PARANOIA lc')"
    and "lc_changes e x lc (lc_clear_flag LC_PARANOIA lc')"
  using assms by (auto simp: lc_wf_struct lc_changes_def)

lemma lc_get0_meets_spec:
  assumes wf: "lc_wf lc" and enr: "enr \<noteq> LC_FREE"
    and novf: "\<And>n c. lc_view lc enr = Some (n, c) \<Longrightarrow> n \<noteq> NOT 0"
  shows "lc_get_spec mc mu enr lc (lc_get0 run mc mu enr lc)"
proof -
  let ?lc = "lc_set_flag LC_PARANOIA lc"
  have st: "lc_struct lc" "lc_struct ?lc" "lc_counts ?lc" using wf by (simp_all add: lc_wf_struct)
  have find: "lc_find0 ?lc = lc_find0 lc" and view: "lc_view ?lc = lc_view lc"
    by (rule lc_find0_cong lc_view_cong; simp)+
  have can: "lc_can_change ?lc = lc_can_change lc" "lc_victim ?lc = lc_victim lc"
    by (simp_all add: lc_can_change_def lc_victim_def lc_unused_element_available_def lc_set_flag_def
        lc_flag_def bit_set_bit_iff)
  note iff = lc_find0_iff [OF st(1) enr]
  note entry = lc_get0_def PARANOIA_ENTRY_wf [OF wf]
  consider "lc_flag LC_STARVING lc"
    | e where "\<not> lc_flag LC_STARVING lc" "lc_find0 lc enr True = Some e"
    | "\<not> lc_flag LC_STARVING lc" "lc_find0 lc enr True = None" "\<not> (mc \<and> lc_can_change lc)"
    | "\<not> lc_flag LC_STARVING lc" "lc_find0 lc enr True = None" "mc" "lc_can_change lc"
    by fastforce
  then show ?thesis
  proof cases
    case 1
    then have "\<exists>lc'. lc_get0 run mc mu enr lc = LC_RETURN None lc' \<and> lc_core lc' = lc_core lc \<and>
        lc_counts lc' = lc_counts lc"
      by (auto simp: entry Let_def)
    then obtain lc'' where "lc_get0 run mc mu enr lc = Some (None, lc'') \<and> lc_wf lc'' \<and>
        lc_view lc'' = lc_view lc \<and> nr_elements lc'' = nr_elements lc"
      using lc_get_none_meets [OF st(1)] st(3) by (metis lc_counts_flags(1))
    then show ?thesis using 1 by (simp add: lc_get_spec_def)
  next
    case 2
    then have e: "e < unat (nr_elements ?lc)" "lc_new_number (lc_elements ?lc ! e) = enr" using iff by auto
    let ?x = "lc_elements lc ! e"
    have v: "lc_view lc enr = Some (refcnt ?x, lc_number ?x = enr)" using 2 enr by (simp add: lc_view_def)
    obtain lc' where get: "lc_get_hit run mu e ?lc =
        (if lc_new_number ?x \<noteq> lc_number ?x \<and> \<not> mu then LC_RETURN None ?lc else LC_RETURN (Some e) lc')"
      and ch: "lc_changes e (?x\<lparr>refcnt := refcnt ?x + 1\<rparr>) ?lc lc'"
      using lc_get_hit_eq [OF st(2,3) e(1), of run mu] e enr novf [OF v] by (auto simp del: One_nat_def)
    note r = lc_changes_return [OF st(2) ch e(1)]
    have "lc_view (lc_clear_flag LC_PARANOIA lc') = (lc_view lc)(enr \<mapsto> (refcnt ?x + 1, lc_number ?x = enr))"
      using e enr view lc_view_changes [OF st(2) r(2) e(1)] by (auto simp: fun_eq_iff)
    moreover have "nr_elements lc' = nr_elements lc" using ch by (simp add: lc_changes_def)
    moreover have "lc_get0 run mc mu enr lc =
        (if lc_number ?x = enr \<or> mu then LC_RETURN (Some e) lc' else LC_RETURN None ?lc)"
      using 2 find get e by (auto simp: entry)
    moreover obtain lc0 where "LC_RETURN None ?lc = Some (None :: nat option, lc0)" "lc_wf lc0"
        "lc_view lc0 = lc_view ?lc" "nr_elements lc0 = nr_elements ?lc"
      using lc_get_none_meets [OF st(2,3) refl refl refl] by blast
    ultimately show ?thesis
      using 2 v r(1) e view by (cases "lc_number ?x = enr \<or> mu")
        (simp_all add: lc_get_spec_def LC_RETURN_def)
  next
    case 3
    then obtain lc' where "lc_get_miss run mc enr ?lc = LC_RETURN None lc'"
        "lc_core lc' = lc_core ?lc" "lc_counts lc' = lc_counts ?lc"
      using can lc_get_miss_none [of mc ?lc run enr] by metis
    then have "\<exists>lc''. lc_get0 run mc mu enr lc = Some (None, lc'') \<and> lc_wf lc'' \<and> lc_view lc'' = lc_view lc \<and>
        nr_elements lc'' = nr_elements lc"
      using 3 lc_get_none_meets [OF st(2,3)] view find by (auto simp: entry)
    moreover have "lc_view lc enr = None" using 3 by (simp add: lc_view_def)
    ultimately show ?thesis using 3 by (auto simp: lc_get_spec_def)
  next
    case 4
    have v: "lc_view lc enr = None" using 4 by (simp add: lc_view_def)
    have fresh: "\<forall>j < unat (nr_elements ?lc). lc_new_number (lc_elements ?lc ! j) \<noteq> enr"
      using 4 lc_find0_none [OF st(1) enr] by auto
    obtain e lc' where get: "lc_get_miss run True enr ?lc = LC_RETURN (Some e) lc'"
      and ch: "lc_changes e ((lc_elements ?lc ! e)\<lparr>lc_new_number := enr, refcnt := 1\<rparr>) ?lc lc'"
      and e: "e < unat (nr_elements ?lc)" "lc_new_number (lc_elements ?lc ! e) = lc_victim ?lc"
        "lc_number (lc_elements ?lc ! e) = lc_victim ?lc"
      using lc_get_miss_eq [OF st(2,3) enr fresh, of run] can 4 by metis
    note r = lc_changes_return [OF st(2) ch e(1)]
    have ne: "lc_victim lc \<noteq> enr" using fresh e can by metis
    let ?lc' = "lc_clear_flag LC_PARANOIA lc'"
    have "lc_view ?lc' = (lc_view lc)(lc_victim lc := None, enr \<mapsto> (1, False))"
      using ne e enr view can lc_view_changes [OF st(2) r(2) e(1)] by (auto simp: fun_eq_iff)
    moreover have "lc_find0 ?lc' enr True = Some e"
      using r e enr st(2) by (subst lc_find0_iff) (auto simp: lc_wf_struct lc_changes_def lc_struct_def lc_sizes_def)
    moreover have "nr_elements lc' = nr_elements lc" using ch by (simp add: lc_changes_def)
    ultimately show ?thesis
      using 4 v get r(1) find by (auto simp: lc_get_spec_def entry LC_RETURN_def)
  qed
qed

lemma lc_put_meets_spec:
  assumes wf: "lc_wf lc" and e: "e \<in> set (in_use lc)"
  obtains lc' where "lc_put e lc = Some (refcnt (lc_elements lc ! e) - 1, lc')" and "lc_wf lc'"
    and "lc_view lc' = (lc_view lc)(lc_number (lc_elements lc ! e) \<mapsto> (refcnt (lc_elements lc ! e) - 1, True))"
    and "nr_elements lc' = nr_elements lc"
proof -
  obtain r lc' where put: "lc_put e lc = Some (r, lc')" and wf': "lc_wf lc'"
    using lc_put_ok [OF assms] by (auto simp: lc_ok_def)
  let ?x = "lc_elements lc ! e"
  have st: "lc_struct lc" "lc_struct lc'" using wf wf' by (simp_all add: lc_wf_struct)
  have mem: "e \<in> set (lc_list H_IN_USE lc)" using e by simp
  note el = lc_struct_elem [OF st(1) mem]
  have ch: "r = refcnt ?x - 1" "lc_elements lc' = (lc_elements lc)[e := ?x\<lparr>refcnt := refcnt ?x - 1\<rparr>]"
      "nr_elements lc' = nr_elements lc"
    using put el by (auto simp: lc_put_def PARANOIA_ENTRY_wf [OF wf] Let_def LC_RETURN_def upd_element_def
        split: if_splits)
  have "lc_view lc' = (lc_view lc)(lc_number ?x \<mapsto> (refcnt ?x - 1, True))"
    using el(1) unfolding lc_view_change [OF st el(2) ch(2,3)] by (auto simp: fun_eq_iff)
  with put wf' ch that show thesis by simp
qed

lemma lc_del_meets_spec:
  assumes wf: "lc_wf lc" and e: "e \<in> set (lru lc)"
  obtains lc' where "lc_del e lc = Some ((), lc')" and "lc_wf lc'"
    and "lc_view lc' = (lc_view lc)(lc_number (lc_elements lc ! e) := None)"
    and "nr_elements lc' = nr_elements lc"
proof -
  obtain lc' where del: "lc_del e lc = Some ((), lc')" and wf': "lc_wf lc'"
    using lc_del_ok [OF assms] by (auto simp: lc_ok_def)
  let ?x = "lc_elements lc ! e"
  have st: "lc_struct lc" "lc_struct lc'" using wf wf' by (simp_all add: lc_wf_struct)
  have mem: "e \<in> set (lc_list H_LRU lc)" using e by simp
  note el = lc_struct_elem [OF st(1) mem]
  have ch: "lc_elements lc' = (lc_elements lc)[e := ?x\<lparr>lc_number := LC_FREE, lc_new_number := LC_FREE\<rparr>]"
      "nr_elements lc' = nr_elements lc"
    using del el by (auto simp: lc_del_def PARANOIA_ENTRY_wf [OF wf] Let_def LC_RETURN_def upd_element_def
        hlist_del_init_def split: if_splits)
  have "lc_view lc' = (lc_view lc)(lc_number ?x := None)"
    using el(1) unfolding lc_view_change [OF st el(2) ch] by (auto simp: fun_eq_iff)
  with del wf' ch that show thesis by simp
qed

lemma lc_committed_meets_spec:
  assumes wf: "lc_wf lc"
  obtains lc' where "lc_committed run lc = Some ((), lc')" and "lc_wf lc'"
    and "lc_view lc' = (\<lambda>nr. map_option (\<lambda>(n, c). (n, True)) (lc_view lc nr))"
    and "nr_elements lc' = nr_elements lc" and "pending_changes lc' = 0"
proof (rule lc_committed_eq [OF wf, of run])
  fix lc'
  assume c: "lc_committed run lc = Some ((), lc')" "lc_wf lc'" "to_be_changed lc' = []"
    and n: "nr_elements lc' = nr_elements lc"
    and es: "lc_elements lc' = map lc_commit_element (lc_elements lc)"
  have st: "lc_struct lc" "lc_struct lc'" using wf c by (simp_all add: lc_wf_struct)
  have len: "length (lc_elements lc) = unat (nr_elements lc)"
    using st(1) by (simp add: lc_struct_def lc_sizes_def)
  have "lc_view lc' nr = Some (r, d) \<longleftrightarrow> map_option (\<lambda>(n, c). (n, True)) (lc_view lc nr) = Some (r, d)" for nr r d
    by (auto simp: lc_view_Some [OF st(1)] lc_view_Some [OF st(2)] n es len lc_commit_element_def)
  then have "lc_view lc' nr = map_option (\<lambda>(n, c). (n, True)) (lc_view lc nr)" for nr
    by (intro option_pair_eqI)
  moreover have "pending_changes lc' = 0" using c by (simp add: lc_wf_struct lc_counts_def)
  ultimately show thesis using that c n by blast
qed

lemma lc_set_meets_spec:
  assumes wf: "lc_wf lc" and i: "0 \<le> i" "i < uint (nr_elements lc)"
    and e: "refcnt (lc_elements lc ! nat i) = 0"
    and fresh: "lc_view lc enr = None"
  obtains lc' where "lc_set enr i lc = Some lc'" and "lc_wf lc'"
    and "lc_view lc' = (\<lambda>nr. if nr = LC_FREE then None else if nr = enr then Some (0, True)
      else if nr = lc_number (lc_elements lc ! nat i) then None else lc_view lc nr)"
proof -
  have st: "lc_struct lc" using wf by (simp add: lc_wf_struct)
  have b: "nat i < unat (nr_elements lc)" using i by (simp only: unat_eq_nat_uint nat_less_eq_zless)
  obtain k where k: "nat i \<in> set (lc_list k lc)" "lc_fits k (lc_elements lc ! nat i)"
    using lc_list_of_label [OF st b] .
  then have k': "k = H_FREE \<or> k = H_LRU" using e by (cases k) auto
  have "enr \<noteq> LC_FREE \<Longrightarrow> \<forall>j < unat (nr_elements lc). j \<noteq> nat i \<longrightarrow>
      lc_new_number (lc_elements lc ! j) \<noteq> enr"
    using fresh lc_find0_none [OF st, of enr] by (simp add: lc_view_def)
  then obtain lc' where set: "lc_set enr i lc = Some lc'" "lc_wf lc'"
    and lc': "lc' = list_move (nat i) (if enr = LC_FREE then H_FREE else H_LRU) (lc_rehash (nat i) enr
      (upd_element (nat i) (\<lambda>x. x\<lparr>lc_number := enr, lc_new_number := enr\<rparr>) lc))"
    by (rule lc_set_ok [OF wf i k(1) k'])
  have "lc_elements lc' = (lc_elements lc)[nat i := (lc_elements lc ! nat i)\<lparr>lc_number := enr, lc_new_number := enr\<rparr>]"
      "nr_elements lc' = nr_elements lc"
    by (simp_all add: lc' upd_element_def)
  note v = lc_view_change [OF st _ b this]
  have same: "lc_new_number (lc_elements lc ! nat i) = lc_number (lc_elements lc ! nat i)"
    using k(2) e by (cases k) auto
  have "lc_view lc' = (\<lambda>nr. if nr = LC_FREE then None else if nr = enr then Some (0, True)
      else if nr = lc_number (lc_elements lc ! nat i) then None else lc_view lc nr)"
    using set(2) by (subst v) (auto simp: lc_wf_struct same e)
  then show thesis by (rule that [OF set])
qed


section \<open>Sequences of operations\<close>

text \<open>
  The operations a client may call, what calling one does, and what its caller owes: a label is
  never \<^const>\<open>LC_FREE\<close>, a reference count does not overflow, only committed references are put
  back, only idle elements are removed, a label is set at most once.
\<close>

datatype lc_op =
    Op_get bool bool u32
  | Op_put nat
  | Op_del nat
  | Op_committed
  | Op_try_lock
  | Op_try_lock_for_transaction
  | Op_unlock
  | Op_set u32 int
  | Op_reset

fun lc_exec :: "bool \<Rightarrow> lc_op \<Rightarrow> lru_cache \<Rightarrow> lru_cache option" where
  "lc_exec run (Op_get mc mu enr) lc = map_option snd (lc_get0 run mc mu enr lc)"
| "lc_exec run (Op_put e) lc = map_option snd (lc_put e lc)"
| "lc_exec run (Op_del e) lc = map_option snd (lc_del e lc)"
| "lc_exec run Op_committed lc = map_option snd (lc_committed run lc)"
| "lc_exec run Op_try_lock lc = Some (snd (lc_try_lock lc))"
| "lc_exec run Op_try_lock_for_transaction lc = Some (snd (lc_try_lock_for_transaction lc))"
| "lc_exec run Op_unlock lc = Some (lc_unlock lc)"
| "lc_exec run (Op_set enr i) lc = lc_set enr i lc"
| "lc_exec run Op_reset lc = Some (lc_reset lc)"

fun lc_legal :: "lc_op \<Rightarrow> lru_cache \<Rightarrow> bool" where
  "lc_legal (Op_get mc mu enr) lc \<longleftrightarrow> enr \<noteq> LC_FREE \<and>
     (case lc_view lc enr of None \<Rightarrow> True | Some (n, c) \<Rightarrow> n \<noteq> NOT 0)"
| "lc_legal (Op_put e) lc \<longleftrightarrow> e \<in> set (in_use lc)"
| "lc_legal (Op_del e) lc \<longleftrightarrow> e \<in> set (lru lc)"
| "lc_legal (Op_set enr i) lc \<longleftrightarrow> lc_view lc enr = None \<and>
     (0 \<le> i \<and> i < uint (nr_elements lc) \<longrightarrow> refcnt (lc_elements lc ! nat i) = 0)"
| "lc_legal _ lc \<longleftrightarrow> True"

inductive lc_reachable :: "bool \<Rightarrow> lru_cache \<Rightarrow> bool" for run where
  created: "lc_create a b c objs mp n = LC_CREATED lc \<Longrightarrow> n \<noteq> 0 \<Longrightarrow> lc_reachable run lc"
| step: "lc_reachable run lc \<Longrightarrow> lc_legal op lc \<Longrightarrow> lc_exec run op lc = Some lc' \<Longrightarrow> lc_reachable run lc'"

lemma lc_wf_flags:
  assumes "lc_wf lc" and "\<not> bit w 0"
  shows "lc_wf (lc\<lparr>flags := w\<rparr>)"
proof -
  have "lc_struct (lc\<lparr>flags := w\<rparr>) = lc_struct lc" by (rule lc_struct_cong) (simp add: lc_core_def)
  then show ?thesis using assms by (simp add: lc_wf_struct lc_flag_def lc_counts_def)
qed

lemma lc_lock_wf:
  assumes "lc_wf lc"
  shows "lc_wf (snd (lc_try_lock lc))" and "lc_wf (snd (lc_try_lock_for_transaction lc))"
    and "lc_wf (lc_unlock lc)"
proof -
  have b: "\<not> bit (flags lc) 0" using assms by (simp add: lc_wf_def lc_flag_def)
  show "lc_wf (snd (lc_try_lock lc))"
    using assms by (auto simp: lc_try_lock_def bit_simps intro: lc_wf_flags)
  show "lc_wf (snd (lc_try_lock_for_transaction lc))"
    using lc_wf_flags [OF assms, of "set_bit LC_LOCKED (flags lc)"] b
    by (simp add: lc_try_lock_for_transaction_def lc_set_flag_def bit_set_bit_iff)
  show "lc_wf (lc_unlock lc)"
    using lc_wf_flags [OF assms, of "unset_bit LC_LOCKED (unset_bit LC_DIRTY (flags lc))"] b
    by (simp add: lc_unlock_def lc_clear_flag_def bit_unset_bit_iff)
qed

lemma lc_ok_exec: "lc_ok m \<Longrightarrow> \<exists>lc'. map_option snd m = Some lc' \<and> lc_wf lc'"
  by (auto simp: lc_ok_def)

lemma lc_exec_wf:
  assumes wf: "lc_wf lc" and legal: "lc_legal op lc"
  shows "\<exists>lc'. lc_exec run op lc = Some lc' \<and> lc_wf lc'"
proof (cases op)
  case (Op_get mc mu enr)
  then show ?thesis
    using lc_get0_meets_spec [OF wf, of enr mc mu run] legal
    by (fastforce simp: lc_get_spec_def split: option.splits prod.splits)
next
  case (Op_set enr i)
  show ?thesis
  proof (cases "0 \<le> i \<and> i < uint (nr_elements lc)")
    case True
    then show ?thesis using Op_set legal lc_set_meets_spec [OF wf, of i enr] by auto
  next
    case False
    then show ?thesis using Op_set wf by (auto simp: lc_set_def not_le not_less)
  qed
next
  case Op_reset
  then show ?thesis using wf lc_reset_wf by (simp add: lc_wf_def lc_sizes_def)
next
  case Op_committed
  then show ?thesis by (auto intro: lc_committed_meets_spec [OF wf, of run])
qed (use legal lc_lock_wf [OF wf] in
    \<open>simp_all add: lc_ok_exec [OF lc_put_ok [OF wf]] lc_ok_exec [OF lc_del_ok [OF wf]]
      del: map_option_eq_Some\<close>)

text \<open>
  C15: From a freshly created cache on, every sequence of operations whose callers keep their side
  of the contract leaves the cache well-formed, and the next such operation returns: no assertion
  of the code can fire.
\<close>

theorem lc_reachable_safe:
  assumes "lc_reachable run lc"
  shows "lc_wf lc \<and> (\<forall>op. lc_legal op lc \<longrightarrow> lc_exec run op lc \<noteq> None)"
proof -
  from assms have "lc_wf lc"
  proof induction
    case (created a b c objs mp n lc)
    then show ?case by (rule lc_create_wf)
  next
    case (step lc op lc')
    then show ?case using lc_exec_wf [of lc op run] by auto
  qed
  then show ?thesis using lc_exec_wf by fastforce
qed

definition lc_example :: lru_cache where
  "lc_example = (case lc_create True True True 2 1 2 of LC_CREATED lc \<Rightarrow> lc)"

lemma lc_example_wf: "lc_reachable run lc_example" "lc_wf lc_example"
proof -
  have c: "lc_create True True True 2 1 2 = LC_CREATED lc_example"
    by (simp add: lc_example_def lc_create_def LC_MAX_ACTIVE_def)
  show "lc_reachable run lc_example" by (rule created [OF c]) simp
  show "lc_wf lc_example" by (rule lc_create_wf [OF c]) simp
qed

definition lc_example1 :: lru_cache where
  "lc_example1 = the (lc_exec False (Op_get True False 7) lc_example)"

definition lc_example2 :: lru_cache where
  "lc_example2 = the (lc_exec False Op_committed lc_example1)"

lemma lc_example1_wf: "lc_wf lc_example1"
proof -
  have l: "lc_legal (Op_get True False 7) lc_example" by code_simp
  show ?thesis
    unfolding lc_example1_def using lc_exec_wf [OF lc_example_wf(2) l, of False] by auto
qed

lemma lc_example2_wf: "lc_wf lc_example2"
  using lc_exec_wf [OF lc_example1_wf, of Op_committed False] by (auto simp: lc_example2_def)

theorem lc_reachable_safe_witness:
  "lc_reachable False lc_example \<and> lc_legal (Op_get True False 7) lc_example \<and>
   lc_exec False (Op_get True False 7) lc_example \<noteq> None"
proof -
  have l: "lc_legal (Op_get True False 7) lc_example" by code_simp
  then show ?thesis using lc_reachable_safe [OF lc_example_wf(1) [of False]] lc_example_wf(1) by blast
qed

text \<open>
  C16: The three ways to take a reference act on the active set as their contract says, whatever
  branch of the code runs: a committed label gains a reference, an uncommitted one only for the
  cumulative variant, a cold label replaces the label least recently used when the caller may
  change the set and there is room, and in all other cases nothing changes and no element is
  returned.
\<close>

theorem lc_get_refines:
  assumes "lc_wf lc" and "enr \<noteq> LC_FREE" and "\<And>n c. lc_view lc enr = Some (n, c) \<Longrightarrow> n \<noteq> NOT 0"
  shows "lc_get_spec True False enr lc (lc_get run enr lc) \<and>
    lc_get_spec True True enr lc (lc_get_cumulative run enr lc) \<and>
    lc_get_spec False False enr lc (lc_try_get run enr lc)"
  using lc_get0_meets_spec [OF assms] by (simp add: lc_get_def lc_get_cumulative_def lc_try_get_def)

theorem lc_get_refines_witness:
  "lc_get_spec True False 7 lc_example (lc_get True 7 lc_example)"
proof -
  have v: "lc_view lc_example 7 = None" by code_simp
  have n: "(7 :: u32) \<noteq> LC_FREE" by code_simp
  show ?thesis using lc_get_refines [OF lc_example_wf(2) n, of True] v by simp
qed


lemma lc_put_eq:
  assumes wf: "lc_wf lc" and e: "e \<in> set (in_use lc)"
  defines "lc1 \<equiv> upd_element e (\<lambda>x. x\<lparr>refcnt := refcnt x - 1\<rparr>) (lc_set_flag LC_PARANOIA lc)"
  shows "lc_put e lc = LC_RETURN (refcnt (lc_elements lc ! e) - 1)
    (if refcnt (lc_elements lc ! e) = 1
     then lc_clear_flag LC_STARVING ((list_move e H_LRU lc1)\<lparr>used := used lc - 1\<rparr>) else lc1)"
proof -
  have st: "lc_struct lc" using wf by (simp add: lc_wf_struct)
  have "e \<in> set (lc_list H_IN_USE lc)" using e by simp
  note el = lc_struct_elem [OF st this]
  show ?thesis
    using el by (auto simp: lc_put_def PARANOIA_ENTRY_wf [OF wf] Let_def lc1_def)
qed

lemma lc_put_lists:
  assumes wf: "lc_wf lc" and e: "e \<in> set (in_use lc)" and put: "lc_put e lc = Some (r, lc')"
  shows "lru lc' = (if refcnt (lc_elements lc ! e) = 1 then e # lru lc else lru lc)"
    and "to_be_changed lc' = to_be_changed lc"
    and "lc_flag LC_LOCKED lc' = lc_flag LC_LOCKED lc"
proof -
  have "e \<notin> set (lru lc)" "e \<notin> set (to_be_changed lc)"
    using e wf by (auto simp: lc_wf_def lc_lists_def)
  then show "lru lc' = (if refcnt (lc_elements lc ! e) = 1 then e # lru lc else lru lc)"
    "to_be_changed lc' = to_be_changed lc" "lc_flag LC_LOCKED lc' = lc_flag LC_LOCKED lc"
    using put unfolding lc_put_eq [OF wf e] LC_RETURN_def
    by (auto simp: removeAll_id list_move_def list_add_def list_del_def upd_element_def lc_flag_def
        lc_clear_flag_def lc_set_flag_def bit_set_bit_iff bit_unset_bit_iff split: if_splits)
qed

text \<open>
  C17: Putting back a reference to a committed element of the cache returns the decremented count
  and decrements it in the active set; the last reference makes the element the most recently
  used one, so that it is the last to be pushed out.
\<close>

theorem lc_put_refines:
  assumes "lc_wf lc" and "e \<in> set (in_use lc)"
  shows "\<exists>lc'. lc_put e lc = Some (refcnt (lc_elements lc ! e) - 1, lc') \<and> lc_wf lc' \<and>
    lc_view lc' = (lc_view lc)(lc_number (lc_elements lc ! e) \<mapsto> (refcnt (lc_elements lc ! e) - 1, True)) \<and>
    lru lc' = (if refcnt (lc_elements lc ! e) = 1 then e # lru lc else lru lc)"
proof -
  obtain lc' where put: "lc_put e lc = Some (refcnt (lc_elements lc ! e) - 1, lc')" and "lc_wf lc'"
    and "lc_view lc' = (lc_view lc)(lc_number (lc_elements lc ! e) \<mapsto> (refcnt (lc_elements lc ! e) - 1, True))"
    by (rule lc_put_meets_spec [OF assms])
  moreover have "lru lc' = (if refcnt (lc_elements lc ! e) = 1 then e # lru lc else lru lc)"
    using put lc_put_lists(1) [OF assms] by auto
  ultimately show ?thesis by blast
qed


theorem lc_put_refines_witness:
  "\<exists>lc'. lc_put 1 lc_example2 = Some (0, lc') \<and> lc_wf lc' \<and> lc_view lc' 7 = Some (0, True) \<and> lru lc' = [1]"
proof -
  have m: "1 \<in> set (in_use lc_example2)" by code_simp
  have v: "refcnt (lc_elements lc_example2 ! 1) = 1" "lc_number (lc_elements lc_example2 ! 1) = 7"
      "lru lc_example2 = []"
    by code_simp+
  show ?thesis using lc_put_refines [OF lc_example2_wf m] by (auto simp: v simp del: One_nat_def)
qed

text \<open>
  C18: Committing the pending changes always returns, makes every label of the active set a
  committed one, keeps all reference counts and leaves no change pending.
\<close>

theorem lc_committed_refines:
  assumes "lc_wf lc"
  shows "\<exists>lc'. lc_committed run lc = Some ((), lc') \<and> lc_wf lc' \<and> pending_changes lc' = 0 \<and>
    lc_view lc' = (\<lambda>nr. map_option (\<lambda>(n, c). (n, True)) (lc_view lc nr))"
  by (rule lc_committed_meets_spec [OF assms, of run]) blast

theorem lc_committed_refines_witness:
  "lc_view lc_example1 7 = Some (1, False) \<and>
   (\<exists>lc'. lc_committed True lc_example1 = Some ((), lc') \<and> lc_view lc' 7 = Some (1, True))"
proof -
  have v: "lc_view lc_example1 7 = Some (1, False)" by code_simp
  show ?thesis using lc_committed_refines [OF lc_example1_wf, of True] v by auto
qed

fun lc_io_op :: "lc_op \<Rightarrow> bool" where
  "lc_io_op (Op_get mc mu enr) = True"
| "lc_io_op (Op_put e) = True"
| "lc_io_op Op_try_lock = True"
| "lc_io_op Op_try_lock_for_transaction = True"
| "lc_io_op _ = False"

lemma lc_flag_stats [simp]:
  "lc_flag n (lc_count_miss run lc) = lc_flag n lc"
  "lc_flag n (list_move e h lc) = lc_flag n lc"
  "lc_flag n (lc\<lparr>locked := a\<rparr>) = lc_flag n lc" "lc_flag n (lc\<lparr>starving_cnt := a\<rparr>) = lc_flag n lc"
  "lc_flag n (lc\<lparr>starving := a\<rparr>) = lc_flag n lc" "lc_flag n (lc\<lparr>used := b\<rparr>) = lc_flag n lc"
  by (simp_all add: lc_flag_def lc_count_miss_def Let_def)

lemma lc_get0_locked:
  assumes wf: "lc_wf lc" and l: "lc_flag LC_LOCKED lc" and enr: "enr \<noteq> LC_FREE"
    and get: "lc_get0 run mc mu enr lc = Some (r, lc')"
  shows "lc_flag LC_LOCKED lc' \<and> to_be_changed lc' = to_be_changed lc"
proof -
  let ?lc = "lc_set_flag LC_PARANOIA lc"
  have st: "lc_struct ?lc" using wf by (simp add: lc_wf_struct)
  have hit: "to_be_changed (list_move e H_IN_USE lc2) = to_be_changed lc"
    if "lc_find0 ?lc enr True = Some e" "lc_new_number (lc_elements lc ! e) = lc_number (lc_elements lc ! e)"
      "to_be_changed lc2 = to_be_changed lc" for e lc2
  proof -
    have "e \<notin> set (to_be_changed lc)"
      using that(2) lc_struct_elem(1) [OF st, of e H_TO_BE_CHANGED] by auto
    then show ?thesis using that(3) by (simp add: list_move_def list_add_def list_del_def removeAll_id)
  qed
  show ?thesis
    using get l hit
    by (auto simp: lc_get0_def PARANOIA_ENTRY_wf [OF wf] lc_get_hit_def lc_get_miss_def Let_def LC_RETURN_def
        lc_count_hit_def lc_count_miss_def lc_used_inc_def upd_element_def lc_flag_def lc_set_flag_def
        lc_clear_flag_def bit_set_bit_iff bit_unset_bit_iff
        split: option.splits if_splits)
qed

text \<open>
  C19: While the cache is locked for a transaction, taking and putting references and attempts to
  lock it again leave it locked; they change neither the list of pending changes nor the labels of
  the active set, so the transaction that is being written stays the one that will be committed.
\<close>

theorem lc_locked_stable:
  assumes wf: "lc_wf lc" and l: "lc_flag LC_LOCKED lc" and legal: "lc_legal op lc" and io: "lc_io_op op"
    and ex: "lc_exec run op lc = Some lc'"
  shows "lc_flag LC_LOCKED lc' \<and> to_be_changed lc' = to_be_changed lc \<and> dom (lc_view lc') = dom (lc_view lc)"
proof (cases op)
  case (Op_get mc mu enr)
  with ex obtain r where get: "lc_get0 run mc mu enr lc = Some (r, lc')" by auto
  have "enr \<noteq> LC_FREE" and novf: "\<And>n c. lc_view lc enr = Some (n, c) \<Longrightarrow> n \<noteq> NOT 0"
    using legal Op_get by auto
  note lock = lc_get0_locked [OF wf l this(1) get] and spec = lc_get0_meets_spec [OF wf this(1), of mc mu run]
  have "\<not> lc_can_change lc" using l by (simp add: lc_can_change_def)
  then have "dom (lc_view lc') = dom (lc_view lc)"
    using spec novf unfolding get lc_get_spec_def
    by (auto split: if_splits option.splits prod.splits)
  with lock show ?thesis by simp
next
  case (Op_put e)
  then have e: "e \<in> set (in_use lc)" using legal by simp
  have mem: "e \<in> set (lc_list H_IN_USE lc)" using e by simp
  have st: "lc_struct lc" using wf by (simp add: lc_wf_struct)
  note el = lc_struct_elem [OF st mem]
  have view: "lc_view lc' = (lc_view lc)(lc_number (lc_elements lc ! e) \<mapsto> (refcnt (lc_elements lc ! e) - 1, True))"
    using ex Op_put by (auto intro: lc_put_meets_spec [OF wf e])
  have "lc_view lc (lc_number (lc_elements lc ! e)) \<noteq> None"
    using el lc_view_label [OF st el(2)] by auto
  then have "dom (lc_view lc') = dom (lc_view lc)" by (auto simp: view)
  moreover obtain r where "lc_put e lc = Some (r, lc')" using ex Op_put by auto
  ultimately show ?thesis using l lc_put_lists(2,3) [OF wf e] by simp
qed (use ex l io in \<open>auto simp: lc_try_lock_def lc_try_lock_for_transaction_def lc_flag_def lc_set_flag_def
      bit_set_bit_iff lc_view_def lc_find0_def lc_hash_slot_def split: if_splits\<close>)

definition lc_example_locked :: lru_cache where
  "lc_example_locked = snd (lc_try_lock_for_transaction lc_example1)"

theorem lc_locked_stable_witness:
  "\<exists>lc'. lc_exec False (Op_get True True 9) lc_example_locked = Some lc' \<and> to_be_changed lc' = [1] \<and>
     lc_view lc' 9 = None \<and> lc_view lc' 7 \<noteq> None"
proof -
  have wf: "lc_wf lc_example_locked"
    unfolding lc_example_locked_def by (rule lc_lock_wf(2) [OF lc_example1_wf])
  have h: "lc_flag LC_LOCKED lc_example_locked" "lc_legal (Op_get True True 9) lc_example_locked"
      "lc_io_op (Op_get True True 9)" "to_be_changed lc_example_locked = [1]"
      "lc_view lc_example_locked 9 = None" "lc_view lc_example_locked 7 \<noteq> None"
    by code_simp+
  obtain lc' where ex: "lc_exec False (Op_get True True 9) lc_example_locked = Some lc'"
    using lc_exec_wf [OF wf h(2), of False] by blast
  have "to_be_changed lc' = [1]" and d: "dom (lc_view lc') = dom (lc_view lc_example_locked)"
    using lc_locked_stable [OF wf h(1-3) ex] h(4) by simp_all
  moreover have "lc_view lc' 9 = None" "lc_view lc' 7 \<noteq> None" using d h(5,6) by (metis domIff)+
  ultimately show ?thesis using ex by blast
qed



end
