(* ===== verification/Vli.thy ===== *)
theory Vli
  imports Bsr_Prelude
begin

text \<open>
  The variable length integer code and the bit stream of \<^verbatim>\<open>bsr/bsr_vli.h\<close>, which carry the run
  length encoded bitmap over the wire.

  The \<^verbatim>\<open>LEVEL\<close> macro unrolls the code table \<^verbatim>\<open>VLI_L_1_1\<close> in the encoder and in the decoder; here the
  table is a list of levels (total bits, prefix bits, prefix) and the two functions recurse over
  it.  The decoder's \<^verbatim>\<open>BUG()\<close> behind the table is \<open>None\<close>.  A stream is its byte buffer with a
  cursor (byte offset and bit within the byte); an access outside the buffer, and a shift by a
  negative or too large amount, is \<open>None\<close>.
\<close>

section \<open>The code table\<close>

type_synonym vli_level = "nat \<times> nat \<times> u64"

definition VLI_L_1_1 :: "vli_level list" where
  "VLI_L_1_1 =
     [(2, 1, 0x00), (3, 2, 0x01), (5, 3, 0x03), (7, 4, 0x07), (10, 5, 0x0f), (14, 6, 0x1f),
      (21, 8, 0x3f), (29, 8, 0x7f), (42, 8, 0xbf), (64, 8, 0xff)]"

fun vli_decode_levels :: "vli_level list \<Rightarrow> u64 \<Rightarrow> u64 \<Rightarrow> (nat \<times> u64) option" where
  "vli_decode_levels [] adj inp = None"
| "vli_decode_levels ((t, b, v) # ls) adj inp =
     (if inp AND (push_bit b 1 - 1) = v
      then Some (t, drop_bit b (inp AND drop_bit (64 - t) (NOT 0)) + adj)
      else vli_decode_levels ls (adj + push_bit (t - b) 1) inp)"

definition vli_decode_bits :: "u64 \<Rightarrow> (nat \<times> u64) option" where
  "vli_decode_bits inp = vli_decode_levels VLI_L_1_1 1 inp"

fun vli_encode_levels :: "vli_level list \<Rightarrow> u64 \<Rightarrow> u64 \<Rightarrow> u64 \<Rightarrow> errno + (nat \<times> u64)" where
  "vli_encode_levels [] maxv adj inp = Inl EOVERFLOW"
| "vli_encode_levels ((t, b, v) # ls) maxv adj inp =
     (let maxv = maxv + push_bit (t - b) 1
      in if inp \<le> maxv then Inr (t, push_bit b (inp - adj) OR v)
         else vli_encode_levels ls maxv (maxv + 1) inp)"

definition vli_encode_bits0 :: "u64 \<Rightarrow> errno + (nat \<times> u64)" where
  "vli_encode_bits0 inp = (if inp = 0 then Inl EINVAL else vli_encode_levels VLI_L_1_1 0 1 inp)"

section \<open>The bit stream\<close>

record bitstream =
  cur_b :: nat
  cur_bit :: nat
  buf :: "u8 list"
  pad_bits :: nat

definition bitstream_cursor_reset :: "bitstream \<Rightarrow> bitstream" where
  "bitstream_cursor_reset bs = bs\<lparr>cur_b := 0, cur_bit := 0\<rparr>"

definition bitstream_cursor_advance :: "nat \<Rightarrow> bitstream \<Rightarrow> bitstream" where
  "bitstream_cursor_advance bits bs =
     (let bits = bits + cur_bit bs
      in bs\<lparr>cur_b := cur_b bs + bits div 8, cur_bit := bits mod 8\<rparr>)"

definition bitstream_init :: "u8 list \<Rightarrow> nat \<Rightarrow> bitstream" where
  "bitstream_init s pad = bitstream_cursor_reset \<lparr>cur_b = 0, cur_bit = 0, buf = s, pad_bits = pad\<rparr>"

definition bitstream_rewind :: "bitstream \<Rightarrow> bitstream" where
  "bitstream_rewind bs =
     (let bs = bitstream_cursor_reset bs in bs\<lparr>buf := replicate (length (buf bs)) 0\<rparr>)"

text \<open>The loop that spreads the remaining bits over the following bytes.\<close>

function put_bits_loop :: "u64 \<Rightarrow> nat \<Rightarrow> nat \<Rightarrow> nat \<Rightarrow> u8 list \<Rightarrow> u8 list" where
  "put_bits_loop val bits tmp b bf =
     (if tmp < bits
      then put_bits_loop val bits (tmp + 8) (b + 1) (bf[b := bf ! b OR ucast (drop_bit tmp val AND 0xff)])
      else bf)"
  by auto
termination by (relation "measure (\<lambda>(val, bits, tmp, b, bf). bits - tmp)") auto

declare put_bits_loop.simps [simp del]

definition bitstream_put_bits :: "bitstream \<Rightarrow> u64 \<Rightarrow> nat \<Rightarrow> errno + (nat \<times> bitstream)" where
  "bitstream_put_bits bs val bits =
     (if bits = 0 then Inr (0, bs)
      else if length (buf bs) \<le> cur_b bs + (cur_bit bs + bits - 1) div 8 then Inl ENOBUFS
      else
        (let val = (if bits < 64 then val AND drop_bit (64 - bits) (NOT 0) else val);
             b = cur_b bs;
             bf = (buf bs)[b := buf bs ! b OR ucast (push_bit (cur_bit bs) (val AND 0xff))];
             bf = put_bits_loop val bits (8 - cur_bit bs) (b + 1) bf
         in Inr (bits, bitstream_cursor_advance bits (bs\<lparr>buf := bf\<rparr>))))"

text \<open>\<^verbatim>\<open>memcpy\<close> into a zeroed word followed by \<^verbatim>\<open>le64_to_cpu\<close>.\<close>

fun le64_bytes :: "u8 list \<Rightarrow> u64" where
  "le64_bytes [] = 0"
| "le64_bytes (b # bs) = ucast b OR push_bit 8 (le64_bytes bs)"

text \<open>
  How many bits are fetched: the request, or what is left in the stream before the padding.  The
  index of the last byte is computed in 32-bit unsigned arithmetic.
\<close>

definition get_bits_avail :: "bitstream \<Rightarrow> nat \<Rightarrow> int" where
  "get_bits_avail bs req =
     (let last = ((cur_bit bs + pad_bits bs + req + (2 ^ 32 - 1)) mod 2 ^ 32) div 8
      in if length (buf bs) \<le> cur_b bs + last
         then 8 * (int (length (buf bs)) - int (cur_b bs)) - int (cur_bit bs) - int (pad_bits bs)
         else int req)"

definition bitstream_get_bits :: "bitstream \<Rightarrow> nat \<Rightarrow> (errno + (nat \<times> u64 \<times> bitstream)) option" where
  "bitstream_get_bits bs req =
     (if 64 < req then Some (Inl EINVAL)
      else
        let bits = get_bits_avail bs req
        in if bits = 0 then Some (Inr (0, 0, bs))
           else
             let n = (cur_bit bs + nat bits + 7) div 8
             in if bits < 0 \<or> 64 < bits \<or> length (buf bs) < cur_b bs + n then None
                else
                  let val = push_bit (8 - cur_bit bs) (le64_bytes (take (n - 1) (drop (cur_b bs + 1) (buf bs))));
                      val = val OR ucast (drop_bit (cur_bit bs) (buf bs ! cur_b bs));
                      val = val AND drop_bit (64 - nat bits) (NOT 0)
                  in Some (Inr (nat bits, val, bitstream_cursor_advance (nat bits) bs)))"

definition vli_encode_bits :: "bitstream \<Rightarrow> u64 \<Rightarrow> errno + (nat \<times> bitstream)" where
  "vli_encode_bits bs inp =
     (case vli_encode_bits0 inp of
        Inl e \<Rightarrow> Inl e
      | Inr (bits, code) \<Rightarrow> bitstream_put_bits bs code bits)"

section \<open>Correctness of the code\<close>

text \<open>
  A code table is proper: no prefix is matched by a later level, and prefixes fit their width.
  \<open>vli_span\<close> is how many values the levels cover.
\<close>

fun vli_proper :: "vli_level list \<Rightarrow> bool" where
  "vli_proper [] \<longleftrightarrow> True"
| "vli_proper ((t, b, v) # ls) \<longleftrightarrow> b < t \<and> t \<le> 64 \<and> take_bit b v = v \<and>
     list_all (\<lambda>(t', b', v'). b \<le> b' \<and> take_bit b v' \<noteq> v) ls \<and> vli_proper ls"

fun vli_span :: "vli_level list \<Rightarrow> nat" where
  "vli_span [] = 0"
| "vli_span ((t, b, v) # ls) = 2 ^ (t - b) + vli_span ls"

lemma vli_table_proper: "vli_proper VLI_L_1_1"
  by code_simp

lemma vli_table_span: "vli_span VLI_L_1_1 = 0x100000400202130"
  by (simp add: VLI_L_1_1_def)

lemma push_bit_one_minus_one: "push_bit n 1 - 1 = (mask n :: u64)"
  by (simp add: mask_eq_exp_minus_1)

lemma drop_bit_minus_one: "t \<le> 64 \<Longrightarrow> drop_bit (64 - t) (NOT 0) = (mask t :: u64)"
  by (rule bit_word_eqI) (auto simp: bit_simps)

lemma take_bit_self: "unat (w :: u64) < 2 ^ n \<Longrightarrow> take_bit n w = w"
  by (metis take_bit_nat_eq_self unsigned_take_bit_eq unsigned_word_eqI)

lemma drop_push_bit:
  assumes "unat (y :: u64) < 2 ^ k" and "b + k \<le> 64"
  shows "drop_bit b (push_bit b y) = y"
proof -
  have "bit y n \<Longrightarrow> n < k" for n
    using take_bit_self [OF assms(1)] by (metis bit_take_bit_iff)
  then show ?thesis using assms(2) by (intro bit_word_eqI) (force simp: bit_simps)
qed

lemma vli_decode_levels_Cons:
  "t \<le> 64 \<Longrightarrow> vli_decode_levels ((t, b, v) # ls) adj w =
     (if take_bit b w = v then Some (t, drop_bit b (take_bit t w) + adj)
      else vli_decode_levels ls (adj + push_bit (t - b) 1) w)"
  by (simp only: vli_decode_levels.simps push_bit_one_minus_one drop_bit_minus_one take_bit_eq_mask)

lemma vli_encode_levels_prefix:
  assumes "vli_encode_levels ls m a x = Inr (t, c)" and "vli_proper ls"
  shows "\<exists>b v. (t, b, v) \<in> set ls \<and> b \<le> t \<and> t \<le> 64 \<and> take_bit b c = v"
  using assms
proof (induction ls m a x rule: vli_encode_levels.induct)
  case (2 t' b v ls m a x)
  show ?case
  proof (cases "x \<le> m + push_bit (t' - b) 1")
    case True
    then have "take_bit b c = v" "t = t'"
      using 2(2,3) by (auto simp: take_bit_push_bit Let_def)
    then show ?thesis using 2(3) by auto
  next
    case False
    then have "vli_encode_levels ls (m + push_bit (t' - b) 1) (m + push_bit (t' - b) 1 + 1) x = Inr (t, c)"
      using 2(2) by (simp add: Let_def)
    from 2(1) [OF refl False this] 2(3) show ?thesis by force
  qed
qed simp

lemma vli_encode_levels_Cons:
  assumes "n + 2 ^ (t - b) < 2 ^ 64"
  shows "vli_encode_levels ((t, b, v) # ls) (of_nat n) (of_nat n + 1) x =
     (if unat x \<le> n + 2 ^ (t - b) then Inr (t, push_bit b (x - (of_nat n + 1)) OR v)
      else vli_encode_levels ls (of_nat (n + 2 ^ (t - b))) (of_nat (n + 2 ^ (t - b)) + 1) x)"
proof -
  have n': "(of_nat n + push_bit (t - b) 1 :: u64) = of_nat (n + 2 ^ (t - b))" by simp
  have "x \<le> of_nat (n + 2 ^ (t - b)) \<longleftrightarrow> unat x \<le> n + 2 ^ (t - b)"
    using assms by (simp add: word_le_nat_alt unat_of_nat del: of_nat_add)
  then show ?thesis unfolding vli_encode_levels.simps Let_def n' by simp
qed

lemma vli_offset:
  assumes "n < unat (x :: u64)" and "unat x \<le> n + k"
  shows "unat (x - (of_nat n + 1)) < k"
proof -
  have "unat (x - of_nat (Suc n)) = unat x - Suc n"
    using assms(1) le_unat_uoi [of "Suc n" x] by (simp add: unat_sub word_le_nat_alt)
  then show ?thesis using assms by (simp add: add_ac)
qed

lemma vli_levels_roundtrip:
  assumes "vli_encode_levels ls (of_nat n) (of_nat n + 1) x = Inr (t, c)" and "vli_proper ls"
    and "n + vli_span ls < 2 ^ 64" and "n < unat x" and "take_bit t w = c"
  shows "vli_decode_levels ls (of_nat n + 1) w = Some (t, x)"
  using assms
proof (induction ls arbitrary: n)
  case (Cons l ls)
  obtain t' b v where l: "l = (t', b, v)" by (cases l)
  let ?n' = "n + 2 ^ (t' - b)"
  have n': "(of_nat n + push_bit (t' - b) 1 :: u64) = of_nat ?n'" by simp
  note proper = Cons.prems(2) [unfolded l, simplified]
  have lt: "?n' < 2 ^ 64" using Cons.prems(3) by (simp add: l)
  note enc = Cons.prems(1) [unfolded l vli_encode_levels_Cons [OF lt]]
  show ?case
  proof (cases "unat x \<le> ?n'")
    case True
    then have t: "t = t'" and c: "c = push_bit b (x - (of_nat n + 1)) OR v" using enc by simp_all
    note y = vli_offset [OF Cons.prems(4) True]
    have "take_bit b w = take_bit b (take_bit t w)" using proper t by (simp add: min_def)
    then have "take_bit b w = v"
      using proper by (simp add: Cons.prems(5) c take_bit_push_bit)
    moreover have "drop_bit b v = 0" using proper by (metis drop_bit_take_bit diff_self_eq_0 take_bit_0)
    then have "drop_bit b (take_bit t w) = x - (of_nat n + 1)"
      using proper drop_push_bit [OF y] by (simp add: Cons.prems(5) c drop_bit_or)
    ultimately show ?thesis
      using proper by (simp add: l t vli_decode_levels_Cons del: vli_decode_levels.simps)
  next
    case False
    then have enc': "vli_encode_levels ls (of_nat ?n') (of_nat ?n' + 1) x = Inr (t, c)"
      using enc by simp
    obtain b2 v2 where 2: "(t, b2, v2) \<in> set ls" "b2 \<le> t" "take_bit b2 c = v2"
      using vli_encode_levels_prefix [OF enc'] proper by blast
    then have "b \<le> b2" "take_bit b v2 \<noteq> v" using proper by (auto simp: list_all_iff)
    moreover have "take_bit b w = take_bit b v2"
      using 2 Cons.prems(5) \<open>b \<le> b2\<close> by (auto simp: min_def)
    ultimately have "take_bit b w \<noteq> v" by simp
    moreover have "vli_decode_levels ls (of_nat ?n' + 1) w = Some (t, x)"
      using Cons.IH [OF enc'] proper False Cons.prems(3,5) by (simp add: l)
    ultimately show ?thesis
      using proper n' by (simp add: l vli_decode_levels_Cons add_ac del: vli_decode_levels.simps)
  qed
qed simp

lemma vli_encode_levels_total:
  assumes "vli_proper ls" and "n + vli_span ls < 2 ^ 64" and "n < unat x" and "unat x \<le> n + vli_span ls"
  shows "\<exists>t c. vli_encode_levels ls (of_nat n) (of_nat n + 1) x = Inr (t, c) \<and> take_bit t c = c \<and> 0 < t \<and> t \<le> 64"
  using assms
proof (induction ls arbitrary: n)
  case (Cons l ls)
  obtain t' b v where l: "l = (t', b, v)" by (cases l)
  let ?n' = "n + 2 ^ (t' - b)"
  note proper = Cons.prems(1) [unfolded l, simplified]
  have lt: "?n' < 2 ^ 64" using Cons.prems(2) by (simp add: l)
  note step = vli_encode_levels_Cons [OF lt, of v ls x]
  show ?case
  proof (cases "unat x \<le> ?n'")
    case True
    let ?y = "x - (of_nat n + 1)"
    have "take_bit (t' - b) ?y = ?y" by (rule take_bit_self [OF vli_offset [OF Cons.prems(3) True]])
    then have "take_bit t' (push_bit b ?y) = push_bit b ?y" by (simp add: take_bit_push_bit)
    moreover have "take_bit t' v = v" using proper by (metis less_imp_le min.absorb2 take_bit_take_bit)
    ultimately show ?thesis using True proper step by (auto simp: l)
  next
    case False
    then show ?thesis
      unfolding l step using Cons.IH [of ?n'] Cons.prems proper by (simp add: l del: of_nat_add)
  qed
qed simp

lemma vli_encode_levels_overflow:
  assumes "n + vli_span ls < 2 ^ 64" and "n + vli_span ls < unat x"
  shows "vli_encode_levels ls (of_nat n) (of_nat n + 1) x = Inl EOVERFLOW"
  using assms
proof (induction ls arbitrary: n)
  case (Cons l ls)
  obtain t' b v where l: "l = (t', b, v)" by (cases l)
  have lt: "n + 2 ^ (t' - b) < 2 ^ 64" using Cons.prems(1) by (simp add: l)
  show ?case
    unfolding l vli_encode_levels_Cons [OF lt] using Cons.IH [of "n + 2 ^ (t' - b)"] Cons.prems by (simp add: l)
qed simp

lemma vli_decode_levels_None:
  "vli_proper ls \<Longrightarrow> vli_decode_levels ls adj w = None \<Longrightarrow> (t, b, v) \<in> set ls \<Longrightarrow> take_bit b w \<noteq> v"
proof (induction ls arbitrary: adj)
  case (Cons l ls)
  then show ?case
    by (cases l) (auto simp: vli_decode_levels_Cons simp del: vli_decode_levels.simps split: if_splits)
qed simp

lemma vli_decode_total: "vli_decode_bits w \<noteq> None"
proof
  assume none: "vli_decode_bits w = None"
  let ?k = "unat (take_bit 8 w)"
  have all: "\<forall>k \<in> set [0..<256]. list_ex (\<lambda>(t, b, v). b \<le> 8 \<and> take_bit b (of_nat k) = v) VLI_L_1_1"
    by code_simp
  have "?k < 256"
    using take_bit_nat_less_exp [of 8 "unat w"] by (simp add: unsigned_take_bit_eq)
  then have "?k \<in> set [0..<256]" by simp
  with all have "list_ex (\<lambda>(t, b, v). b \<le> 8 \<and> take_bit b (of_nat ?k) = v) VLI_L_1_1"
    by (rule bspec)
  then obtain t b v where l: "(t, b, v) \<in> set VLI_L_1_1" "b \<le> 8" "take_bit b (take_bit 8 w) = v"
    unfolding list_ex_iff by force
  then have "take_bit b w = v" by (simp add: min_def)
  then show False
    using vli_decode_levels_None [OF vli_table_proper none [unfolded vli_decode_bits_def] l(1)] by simp
qed

section \<open>The stream as a sequence of bits\<close>

definition bs_bit :: "u8 list \<Rightarrow> nat \<Rightarrow> bool" where
  "bs_bit bf i \<longleftrightarrow> i div 8 < length bf \<and> bit (bf ! (i div 8)) (i mod 8)"

definition bs_pos :: "bitstream \<Rightarrow> nat" where
  "bs_pos bs = 8 * cur_b bs + cur_bit bs"

lemma bs_bit_update:
  assumes "b < length bf"
  shows "bs_bit (bf[b := bf ! b OR w]) i \<longleftrightarrow> bs_bit bf i \<or> (i div 8 = b \<and> bit w (i mod 8))"
  using assms by (auto simp: bs_bit_def nth_list_update bit_or_iff)

lemma byte_mask: "(0xff :: u64) = mask 8"
  by (simp add: mask_eq_exp_minus_1)

lemma bit_low_byte: "n < 8 \<Longrightarrow> bit (ucast (drop_bit k (w :: u64) AND 0xff) :: u8) n \<longleftrightarrow> bit w (k + n)"
  using bit_imp_le_length [of w "k + n"] unfolding byte_mask by (auto simp: bit_simps)

lemma put_bits_loop_bit:
  assumes "\<And>j. bits \<le> j \<Longrightarrow> \<not> bit val j" and "bits \<le> tmp + 8 * (length bf - b)"
  shows "length (put_bits_loop val bits tmp b bf) = length bf \<and>
    (bs_bit (put_bits_loop val bits tmp b bf) i \<longleftrightarrow> bs_bit bf i \<or> (8 * b \<le> i \<and> bit val (tmp + (i - 8 * b))))"
  using assms
proof (induction val bits tmp b bf rule: put_bits_loop.induct)
  case (1 val bits tmp b bf)
  show ?case
  proof (cases "tmp < bits")
    case False
    then show ?thesis using 1(2) by (simp add: put_bits_loop.simps)
  next
    case True
    let ?bf = "bf[b := bf ! b OR ucast (drop_bit tmp val AND 0xff)]"
    have b: "b < length bf" using True 1(3) by (cases "b < length bf") auto
    have IH: "length (put_bits_loop val bits (tmp + 8) (b + 1) ?bf) = length ?bf \<and>
        (bs_bit (put_bits_loop val bits (tmp + 8) (b + 1) ?bf) i \<longleftrightarrow>
          bs_bit ?bf i \<or> (8 * (b + 1) \<le> i \<and> bit val (tmp + 8 + (i - 8 * (b + 1)))))"
      using 1 True b by (intro 1(1)) auto
    have eq: "i div 8 = b \<and> bit (ucast (drop_bit tmp val AND 0xff) :: u8) (i mod 8) \<or>
        8 * (b + 1) \<le> i \<and> bit val (tmp + 8 + (i - 8 * (b + 1))) \<longleftrightarrow>
        8 * b \<le> i \<and> bit val (tmp + (i - 8 * b))"
    proof (cases "8 * b \<le> i \<and> i < 8 * b + 8")
      case True
      then obtain r where r: "i = 8 * b + r" "r < 8" by (metis le_Suc_ex nat_add_left_cancel_less)
      then show ?thesis using bit_low_byte [of r tmp val] by simp
    next
      case False
      then have "i div 8 \<noteq> b" by auto
      then show ?thesis using False by (cases "8 * (b + 1) \<le> i") auto
    qed
    show ?thesis
      using IH True b eq by (simp add: put_bits_loop.simps [of val bits tmp] bs_bit_update)
  qed
qed

lemma bs_pos_advance: "bs_pos (bitstream_cursor_advance n bs) = bs_pos bs + n"
  by (simp add: bs_pos_def bitstream_cursor_advance_def Let_def)

lemma bs_advance_sel [simp]:
  "cur_bit (bitstream_cursor_advance n bs) < 8"
  "buf (bitstream_cursor_advance n bs) = buf bs"
  "pad_bits (bitstream_cursor_advance n bs) = pad_bits bs"
  by (simp_all add: bitstream_cursor_advance_def Let_def)

lemma bs_room:
  assumes "cur_bit bs < 8" and "0 < n"
  shows "cur_b bs + (cur_bit bs + n - 1) div 8 < m \<longleftrightarrow> bs_pos bs + n \<le> 8 * m"
proof -
  have "cur_b bs + (cur_bit bs + n - 1) div 8 = (8 * cur_b bs + (cur_bit bs + n - 1)) div 8" by simp
  moreover have "(8 * cur_b bs + (cur_bit bs + n - 1)) div 8 < m \<longleftrightarrow> 8 * cur_b bs + (cur_bit bs + n - 1) < m * 8"
    by (rule div_less_iff_less_mult) simp
  ultimately show ?thesis using assms(2) by (auto simp: bs_pos_def)
qed

lemma bitstream_put_bits_full:
  assumes "cur_bit bs < 8" and "0 < bits" and "8 * length (buf bs) < bs_pos bs + bits"
  shows "bitstream_put_bits bs val bits = Inl ENOBUFS"
  using bs_room [OF assms(1,2), of "length (buf bs)"] assms(2,3) by (simp add: bitstream_put_bits_def)

lemma bitstream_put_bits_bit:
  assumes wf: "cur_bit bs < 8" and bits: "0 < bits" "bits \<le> 64" and room: "bs_pos bs + bits \<le> 8 * length (buf bs)"
  obtains bs' where "bitstream_put_bits bs val bits = Inr (bits, bs')" and "cur_bit bs' < 8"
    and "bs_pos bs' = bs_pos bs + bits" and "length (buf bs') = length (buf bs)" and "pad_bits bs' = pad_bits bs"
    and "\<And>i. bs_bit (buf bs') i \<longleftrightarrow> bs_bit (buf bs) i \<or>
      (bs_pos bs \<le> i \<and> i < bs_pos bs + bits \<and> bit val (i - bs_pos bs))"
proof -
  define v where "v = (if bits < 64 then val AND drop_bit (64 - bits) (NOT 0) else val)"
  define b where "b = cur_b bs"
  define k where "k = cur_bit bs"
  have vb: "bit v j \<longleftrightarrow> j < bits \<and> bit val j" for j
    using bits bit_imp_le_length [of val j] by (auto simp: v_def drop_bit_minus_one bit_simps)
  define bf1 where "bf1 = (buf bs)[b := buf bs ! b OR ucast (push_bit k (v AND 0xff))]"
  define bf2 where "bf2 = put_bits_loop v bits (8 - k) (b + 1) bf1"
  have b: "b < length (buf bs)" using room bits by (simp add: bs_pos_def b_def)
  have k: "k < 8" using wf by (simp add: k_def)
  have fit: "bits \<le> 8 - k + 8 * (length bf1 - (b + 1))"
    using room b k by (simp add: bs_pos_def bf1_def flip: b_def k_def)
  have loop: "length bf2 = length bf1 \<and>
      (bs_bit bf2 i \<longleftrightarrow> bs_bit bf1 i \<or> (8 * (b + 1) \<le> i \<and> bit v (8 - k + (i - 8 * (b + 1)))))" for i
    unfolding bf2_def by (rule put_bits_loop_bit [OF _ fit]) (use vb in auto)
  have first: "bit (ucast (push_bit k (v AND 0xff)) :: u8) n \<longleftrightarrow> k \<le> n \<and> bit v (n - k)" if "n < 8" for n
    using that unfolding byte_mask by (auto simp: bit_simps)
  have all: "bs_bit bf2 i \<longleftrightarrow> bs_bit (buf bs) i \<or> (8 * b + k \<le> i \<and> bit v (i - (8 * b + k)))" for i
  proof (cases "8 * b \<le> i \<and> i < 8 * b + 8")
    case True
    then obtain r where r: "i = 8 * b + r" "r < 8" by (metis le_Suc_ex nat_add_left_cancel_less)
    then show ?thesis using loop [of i] b first [of r] by (simp add: bf1_def bs_bit_update)
  next
    case False
    then have "i div 8 \<noteq> b" by auto
    moreover have "8 - k + (i - 8 * (b + 1)) = i - (8 * b + k)" if "8 * (b + 1) \<le> i" using that k by auto
    ultimately show ?thesis
      using False loop [of i] b k by (cases "8 * (b + 1) \<le> i") (auto simp: bf1_def bs_bit_update)
  qed
  have "bitstream_put_bits bs val bits = Inr (bits, bitstream_cursor_advance bits (bs\<lparr>buf := bf2\<rparr>))"
    using bits bs_room [OF wf bits(1), of "length (buf bs)"] room
    by (simp add: bitstream_put_bits_def Let_def not_le bf2_def bf1_def v_def b_def k_def)
  moreover have "length bf2 = length (buf bs)" using loop by (simp add: bf1_def)
  moreover have "bs_pos (bs\<lparr>buf := bf2\<rparr>) = bs_pos bs" by (simp add: bs_pos_def)
  moreover have "bs_pos bs = 8 * b + k" by (simp add: bs_pos_def b_def k_def)
  ultimately show thesis
    by (intro that [of "bitstream_cursor_advance bits (bs\<lparr>buf := bf2\<rparr>)"]) (auto simp: bs_pos_advance all vb)
qed


lemma bit_le64_bytes:
  "bit (le64_bytes xs) m \<longleftrightarrow> m < 64 \<and> m div 8 < length xs \<and> bit (xs ! (m div 8)) (m mod 8)"
proof (induction xs arbitrary: m)
  case (Cons x xs)
  show ?case
  proof (cases "m < 8")
    case True
    then show ?thesis by (auto simp: bit_simps)
  next
    case False
    then have "m div 8 = Suc ((m - 8) div 8)" "m mod 8 = (m - 8) mod 8" by (simp_all add: le_div_geq le_mod_geq)
    moreover have "\<not> bit x m" using False bit_imp_le_length [of x m] by auto
    ultimately show ?thesis using False Cons.IH [of "m - 8"] by (auto simp: bit_simps)
  qed
qed simp

lemma bitstream_get_bits_bit:
  assumes wf: "cur_bit bs < 8" "pad_bits bs < 8" "bs_pos bs + pad_bits bs \<le> 8 * length (buf bs)"
    and req: "0 < req" "req \<le> 64"
  defines "n \<equiv> min req (8 * length (buf bs) - pad_bits bs - bs_pos bs)"
  obtains val where "bitstream_get_bits bs req =
      Some (Inr (n, val, if n = 0 then bs else bitstream_cursor_advance n bs))"
    and "\<And>j. bit val j \<longleftrightarrow> j < n \<and> bs_bit (buf bs) (bs_pos bs + j)"
proof -
  let ?b = "cur_b bs" and ?k = "cur_bit bs" and ?p = "pad_bits bs" and ?bf = "buf bs"
  have "((?k + ?p + req + (2 ^ 32 - 1)) mod 2 ^ 32) div 8 = (?k + (?p + req) - 1) div 8"
    using wf req by (simp add: mod_if)
  then have avail: "get_bits_avail bs req = int n"
    using bs_room [OF wf(1), of "?p + req" "length ?bf"] req wf(3)
    by (auto simp: get_bits_avail_def n_def not_less bs_pos_def min_def Let_def)
  show thesis
  proof (cases "n = 0")
    case True
    then show ?thesis
      using req by (intro that [of 0]) (simp_all add: bitstream_get_bits_def avail)
  next
    case False
    define m where "m = (?k + n + 7) div 8"
    have fit: "bs_pos bs + n \<le> 8 * length ?bf" using wf(3) by (auto simp: n_def)
    have m: "?b + m \<le> length ?bf" "0 < m" using fit False by (auto simp: m_def bs_pos_def)
    define v0 where "v0 = push_bit (8 - ?k) (le64_bytes (take (m - 1) (drop (?b + 1) ?bf)))
        OR ucast (drop_bit ?k (?bf ! ?b))"
    have n64: "n \<le> 64" using req by (simp add: n_def)
    have get: "bitstream_get_bits bs req =
        Some (Inr (n, v0 AND drop_bit (64 - n) (NOT 0), bitstream_cursor_advance n bs))"
      using False m n64 req
      by (simp add: bitstream_get_bits_def Let_def avail v0_def flip: m_def)
    have "bit v0 j \<longleftrightarrow> bs_bit ?bf (bs_pos bs + j)" if j: "j < n" for j
    proof (cases "?k + j < 8")
      case True
      then have "(bs_pos bs + j) div 8 = ?b" "(bs_pos bs + j) mod 8 = ?k + j"
        by (simp_all add: bs_pos_def add.assoc)
      then show ?thesis
        using True m by (auto simp: v0_def bs_bit_def bit_simps bit_le64_bytes)
    next
      case False
      then obtain i where i: "?k + j = 8 + i" by (metis le_Suc_ex not_less)
      then have "(bs_pos bs + j) div 8 = ?b + 1 + i div 8" "(bs_pos bs + j) mod 8 = i mod 8" "j - (8 - ?k) = i"
        using wf(1) by (simp_all add: bs_pos_def add.assoc)
      moreover have "\<not> bit (?bf ! ?b) (?k + j)" using False bit_imp_le_length [of "?bf ! ?b" "?k + j"] by auto
      moreover have im: "i < 64" "i div 8 < m - 1" "8 - ?k \<le> j" using i j n64 wf(1) False by (auto simp: m_def)
      moreover have "?b + 1 + i div 8 < length ?bf" "i div 8 < length ?bf - Suc ?b" using im(2) m(1) by linarith+
      ultimately show ?thesis
        using m j n64 by (auto simp: v0_def bs_bit_def bit_simps bit_le64_bytes)
    qed
    then show ?thesis
      using get False n64 by (intro that) (auto simp: drop_bit_minus_one bit_simps)
  qed
qed

section \<open>Properties\<close>

lemma vli_code:
  "if x = 0 then vli_encode_bits0 x = Inl EINVAL
   else if x \<le> 0x100000400202130
   then \<exists>t c. vli_encode_bits0 x = Inr (t, c) \<and> 0 < t \<and> t \<le> 64 \<and> take_bit t c = c \<and>
     {w. take_bit t w = c} \<subseteq> {w. vli_decode_bits w = Some (t, x)}
   else vli_encode_bits0 x = Inl EOVERFLOW"
proof -
  have span: "0 + vli_span VLI_L_1_1 < 2 ^ 64" by (simp add: vli_table_span)
  have le: "x \<le> 0x100000400202130 \<longleftrightarrow> unat x \<le> 0 + vli_span VLI_L_1_1"
    by (simp add: vli_table_span word_le_nat_alt)
  have pos: "x \<noteq> 0 \<Longrightarrow> 0 < unat x" by (simp add: unat_gt_0)
  show ?thesis
  proof (cases "x = 0 \<or> \<not> x \<le> 0x100000400202130")
    case True
    then show ?thesis
      using vli_encode_levels_overflow [OF span, of x] le by (auto simp: vli_encode_bits0_def)
  next
    case False
    then obtain t c where tc: "vli_encode_levels VLI_L_1_1 (of_nat 0) (of_nat 0 + 1) x = Inr (t, c)"
        "take_bit t c = c" "0 < t" "t \<le> 64"
      using vli_encode_levels_total [OF vli_table_proper span pos] le by blast
    have "vli_decode_bits w = Some (t, x)" if "take_bit t w = c" for w
      using vli_levels_roundtrip [OF tc(1) vli_table_proper span pos that] False
      by (simp add: vli_decode_bits_def)
    then show ?thesis using False tc by (auto simp: vli_encode_bits0_def)
  qed
qed

text \<open>
  C20: Every value the code table covers is encoded, and whatever follows its code in the stream,
  decoding the look-ahead word consumes exactly that code and gives the value back; zero and
  values beyond the table are refused with the documented error.
\<close>

theorem vli_roundtrip:
  "if x = 0 then vli_encode_bits0 x = Inl EINVAL
   else if x \<le> 0x100000400202130
   then \<exists>t c. vli_encode_bits0 x = Inr (t, c) \<and> 0 < t \<and> t \<le> 64 \<and> take_bit t c = c \<and>
     {w. take_bit t w = c} \<subseteq> {w. vli_decode_bits w = Some (t, x)}
   else vli_encode_bits0 x = Inl EOVERFLOW"
  by (rule vli_code)

text \<open>
  C21: The code table is complete: decoding never runs off its end, so the \<^verbatim>\<open>BUG()\<close> behind the
  table is unreachable whatever the peer sends.
\<close>

theorem vli_decode_no_bug: "vli_decode_bits w \<noteq> None"
  by (rule vli_decode_total)

text \<open>
  C22: What was put into a zeroed part of a bit stream is what reading at that position returns,
  whatever the alignment of the cursor, and nothing else of the stream changes.
\<close>

theorem bitstream_roundtrip:
  assumes "cur_bit bs < 8" and "pad_bits bs = 0" and "0 < bits" and "bits \<le> 64"
    and "bs_pos bs + bits \<le> 8 * length (buf bs)" and "take_bit bits val = val"
    and "\<And>i. bs_pos bs \<le> i \<Longrightarrow> \<not> bs_bit (buf bs) i"
  shows "\<exists>bs'. bitstream_put_bits bs val bits = Inr (bits, bs') \<and>
    bs_pos bs' = bs_pos bs + bits \<and>
    bitstream_get_bits (bs\<lparr>buf := buf bs'\<rparr>) bits = Some (Inr (bits, val, bs')) \<and>
    (\<forall>i. i < bs_pos bs \<or> bs_pos bs' \<le> i \<longrightarrow> bs_bit (buf bs') i = bs_bit (buf bs) i)"
proof -
  obtain bs' where put: "bitstream_put_bits bs val bits = Inr (bits, bs')" "bs_pos bs' = bs_pos bs + bits"
    and len: "length (buf bs') = length (buf bs)"
    and b: "\<And>i. bs_bit (buf bs') i \<longleftrightarrow> bs_bit (buf bs) i \<or>
      (bs_pos bs \<le> i \<and> i < bs_pos bs + bits \<and> bit val (i - bs_pos bs))"
    using bitstream_put_bits_bit [OF assms(1,3-5), of val] by metis
  have adv: "bs' = bitstream_cursor_advance bits (bs\<lparr>buf := buf bs'\<rparr>)"
    using put(1) assms(3)
    by (auto simp: bitstream_put_bits_def Let_def bitstream_cursor_advance_def split: if_splits)
  let ?bs = "bs\<lparr>buf := buf bs'\<rparr>"
  have pos: "bs_pos ?bs = bs_pos bs" by (simp add: bs_pos_def)
  have "min bits (8 * length (buf ?bs) - pad_bits ?bs - bs_pos ?bs) = bits"
    using assms(2,5) len pos by simp
  then obtain v where get: "bitstream_get_bits ?bs bits = Some (Inr (bits, v, bs'))"
    and v: "\<And>j. bit v j \<longleftrightarrow> j < bits \<and> bs_bit (buf bs') (bs_pos bs + j)"
    using bitstream_get_bits_bit [of ?bs bits] assms len pos adv by auto
  have "v = val"
  proof (rule bit_word_eqI)
    fix n
    have "bit val n \<Longrightarrow> n < bits" by (metis assms(6) bit_take_bit_iff)
    then show "bit v n = bit val n" using assms(7) by (auto simp: v b)
  qed
  then show ?thesis using put get b by auto
qed

theorem bitstream_roundtrip_witness:
  "\<exists>bs'. bitstream_put_bits (bitstream_cursor_advance 5 (bitstream_init [0, 0, 0] 0)) 0x1b7 9 = Inr (9, bs') \<and>
    bitstream_get_bits ((bitstream_cursor_advance 5 (bitstream_init [0, 0, 0] 0))\<lparr>buf := buf bs'\<rparr>) 9
      = Some (Inr (9, 0x1b7, bs'))"
proof -
  let ?bs = "bitstream_cursor_advance 5 (bitstream_init [0, 0, 0] 0)"
  have b: "buf ?bs = [0, 0, 0]" by code_simp
  have z: "\<not> bs_bit (buf ?bs) i" for i
    unfolding b bs_bit_def by (auto simp: less_Suc_eq numeral_3_eq_3 nth_Cons split: nat.splits)
  have h: "cur_bit ?bs < 8" "pad_bits ?bs = 0" "bs_pos ?bs + 9 \<le> 8 * length (buf ?bs)"
      "take_bit 9 (0x1b7 :: u64) = 0x1b7"
    by code_simp+
  show ?thesis using bitstream_roundtrip [OF h(1,2) _ _ h(3,4) z] by auto
qed

end
