(* ===== verification/Bitmap.thy ===== *)
theory Bitmap
  imports Bsr_Prelude
begin

text \<open>
  The quick-sync bitmap of \<^verbatim>\<open>bsr/bsr_bitmap.c\<close>: one bit per 4 KiB block and peer, kept in pages of
  little endian 32-bit words in which the words of the peers are interleaved.

  \<^verbatim>\<open>____bm_op\<close> is the one routine behind all operations.  It walks a range page by page; on each page
  it works bit by bit up to the end of the first word, word by word through the full words, and bit
  by bit in the last word.  The model keeps this structure: \<open>bm_op_head\<close>, \<open>bm_words_loop\<close> with
  \<open>bm_op_word\<close>, \<open>bm_op_tail\<close>, \<open>bm_op_page\<close>, \<open>bm_leave_page\<close> and the outer \<open>bm_op_loop\<close>.  The jumps
  \<^verbatim>\<open>goto next_page\<close> and \<^verbatim>\<open>goto found\<close>, the early return of \<^verbatim>\<open>BM_OP_TEST\<close> and the \<^verbatim>\<open>BUG()\<close> calls are the
  values of \<open>bm_jump\<close>.  The functions \<^verbatim>\<open>____bm_op\<close> and \<^verbatim>\<open>__bm_op\<close> are named \<open>bm_op4\<close> and \<open>bm_op2\<close>.

  Positions and counts are natural numbers; the code keeps them in 64 bits, and a bitmap has fewer
  than \<open>2 ^ 40\<close> bits.  The per peer counters \<^verbatim>\<open>bm_set\<close> are 64-bit words.  The kernel's bit operations on
  little endian memory address bit \<open>n\<close> of a page as bit \<open>n mod 32\<close> of its word \<open>n div 32\<close>.
\<close>

section \<open>Data\<close>

definition PAGE_SHIFT :: nat where "PAGE_SHIFT = 12"

definition BITS_PER_PAGE :: nat where "BITS_PER_PAGE = 2 ^ (PAGE_SHIFT + 3)"

record bm_page =
  page_private :: u64
  page_words :: "u32 list"

record bsr_bitmap =
  bm_pages :: "bm_page list"
  bm_set :: "u64 list"
  bm_bits :: nat
  bm_words :: nat
  bm_dev_capacity :: nat
  bm_max_peers :: nat

datatype bitmap_operations =
    BM_OP_CLEAR | BM_OP_SET | BM_OP_TEST | BM_OP_COUNT | BM_OP_MERGE | BM_OP_EXTRACT
  | BM_OP_FIND_BIT | BM_OP_FIND_ZERO_BIT | BM_OP_RANGE_FIND_BIT | BM_OP_RANGE_FIND_ZERO_BIT

definition BSR_END_OF_BITMAP :: nat where "BSR_END_OF_BITMAP = 2 ^ 64 - 1"

definition bm_set_page_need_writeout :: "bm_page \<Rightarrow> bm_page" where
  "bm_set_page_need_writeout p = p\<lparr>page_private := set_bit 29 (page_private p)\<rparr>"

definition bm_set_page_lazy_writeout :: "bm_page \<Rightarrow> bm_page" where
  "bm_set_page_lazy_writeout p = p\<lparr>page_private := set_bit 28 (page_private p)\<rparr>"

definition test_bit_le :: "nat \<Rightarrow> u32 list \<Rightarrow> bool" where
  "test_bit_le n ws = bit (ws ! (n div 32)) (n mod 32)"

definition set_bit_le :: "nat \<Rightarrow> u32 list \<Rightarrow> u32 list" where
  "set_bit_le n ws = ws[n div 32 := set_bit (n mod 32) (ws ! (n div 32))]"

definition clear_bit_le :: "nat \<Rightarrow> u32 list \<Rightarrow> u32 list" where
  "clear_bit_le n ws = ws[n div 32 := unset_bit (n mod 32) (ws ! (n div 32))]"

fun scan_bit_le :: "bool \<Rightarrow> u32 list \<Rightarrow> nat \<Rightarrow> nat \<Rightarrow> nat" where
  "scan_bit_le v ws 0 off = off"
| "scan_bit_le v ws (Suc n) off = (if test_bit_le off ws = v then off else scan_bit_le v ws n (off + 1))"

definition find_next_bit_le :: "u32 list \<Rightarrow> nat \<Rightarrow> nat \<Rightarrow> nat" where
  "find_next_bit_le ws sz off = scan_bit_le True ws (sz - off) off"

definition find_next_zero_bit_le :: "u32 list \<Rightarrow> nat \<Rightarrow> nat \<Rightarrow> nat" where
  "find_next_zero_bit_le ws sz off = scan_bit_le False ws (sz - off) off"

definition hweight32 :: "u32 \<Rightarrow> nat" where
  "hweight32 w = length (filter (bit w) [0..<32])"

definition interleaved_word32 :: "bsr_bitmap \<Rightarrow> nat \<Rightarrow> nat \<Rightarrow> nat" where
  "interleaved_word32 bm idx b = b div 32 * bm_max_peers bm + idx"

definition word32_to_page :: "nat \<Rightarrow> nat" where
  "word32_to_page w = w div 2 ^ (PAGE_SHIFT - 2)"

definition word32_in_page :: "nat \<Rightarrow> nat" where
  "word32_in_page w = w mod 2 ^ (PAGE_SHIFT - 2)"

section \<open>The operation loop\<close>

record bm_loop =
  l_start :: nat
  l_bip :: nat
  l_count :: nat
  l_total :: nat
  l_buffer :: "u32 list"
  l_out :: "u32 list"
  l_words :: "u32 list"

datatype bm_jump = GO_ON | NEXT_PAGE | FOUND | BM_RETURN | BM_BUG

fun bm_bit_step :: "bitmap_operations \<Rightarrow> bm_loop \<Rightarrow> bm_loop" where
  "bm_bit_step BM_OP_CLEAR st =
     (if test_bit_le (l_bip st) (l_words st)
      then st\<lparr>l_words := clear_bit_le (l_bip st) (l_words st), l_count := l_count st + 1\<rparr> else st)"
| "bm_bit_step BM_OP_SET st =
     (if \<not> test_bit_le (l_bip st) (l_words st)
      then st\<lparr>l_words := set_bit_le (l_bip st) (l_words st), l_count := l_count st + 1\<rparr> else st)"
| "bm_bit_step BM_OP_COUNT st =
     (if test_bit_le (l_bip st) (l_words st) then st\<lparr>l_total := l_total st + 1\<rparr> else st)"
| "bm_bit_step _ st = st"

fun bm_bits_loop :: "bitmap_operations \<Rightarrow> nat \<Rightarrow> bm_loop \<Rightarrow> bm_loop" where
  "bm_bits_loop op 0 st = st"
| "bm_bits_loop op (Suc n) st =
     bm_bits_loop op n (let st = bm_bit_step op st in st\<lparr>l_bip := l_bip st + 1\<rparr>)"

definition bm_find :: "bitmap_operations \<Rightarrow> u32 list \<Rightarrow> nat \<Rightarrow> nat \<Rightarrow> nat" where
  "bm_find op ws sz off =
     (if op = BM_OP_FIND_BIT \<or> op = BM_OP_RANGE_FIND_BIT then find_next_bit_le ws sz off
      else find_next_zero_bit_le ws sz off)"

text \<open>Up to the end of the word in which the range starts.\<close>

definition bm_op_head :: "bitmap_operations \<Rightarrow> nat \<Rightarrow> bm_loop \<Rightarrow> bm_jump \<times> bm_loop" where
  "bm_op_head op skip st =
     (let last = l_bip st div 32 * 32 + 31;
          leave = (\<lambda>st.
            let st = st\<lparr>l_start := l_start st div 32 * 32 + 31 + 1, l_bip := l_bip st + skip - 32\<rparr>
            in if BITS_PER_PAGE \<le> l_bip st then (NEXT_PAGE, st) else (GO_ON, st))
      in case op of
           BM_OP_TEST \<Rightarrow> (BM_RETURN, st\<lparr>l_total := of_bool (test_bit_le (l_bip st) (l_words st))\<rparr>)
         | BM_OP_MERGE \<Rightarrow> (BM_BUG, st)
         | BM_OP_EXTRACT \<Rightarrow> (BM_BUG, st)
         | BM_OP_CLEAR \<Rightarrow> leave (bm_bits_loop op (last + 1 - l_bip st) st)
         | BM_OP_SET \<Rightarrow> leave (bm_bits_loop op (last + 1 - l_bip st) st)
         | BM_OP_COUNT \<Rightarrow> leave (bm_bits_loop op (last + 1 - l_bip st) st)
         | _ \<Rightarrow>
             let st = st\<lparr>l_count := bm_find op (l_words st) (last + 1) (l_bip st)\<rparr>
             in if l_count st < last + 1 then (FOUND, st) else leave (st\<lparr>l_bip := last + 1\<rparr>))"

text \<open>One whole word.\<close>

definition bm_op_word :: "bitmap_operations \<Rightarrow> bm_loop \<Rightarrow> bm_jump \<times> bm_loop" where
  "bm_op_word op st =
     (let n = l_bip st div 32; p = l_words st ! n
      in case op of
           BM_OP_CLEAR \<Rightarrow> (GO_ON, st\<lparr>l_count := l_count st + hweight32 p, l_words := (l_words st)[n := 0]\<rparr>)
         | BM_OP_SET \<Rightarrow>
             (GO_ON, st\<lparr>l_count := l_count st + hweight32 (NOT p), l_words := (l_words st)[n := NOT 0]\<rparr>)
         | BM_OP_TEST \<Rightarrow> (BM_BUG, st)
         | BM_OP_COUNT \<Rightarrow> (GO_ON, st\<lparr>l_total := l_total st + hweight32 p\<rparr>)
         | BM_OP_MERGE \<Rightarrow>
             (GO_ON, st\<lparr>l_count := l_count st + hweight32 (NOT p AND hd (l_buffer st)),
                l_words := (l_words st)[n := p OR hd (l_buffer st)], l_buffer := tl (l_buffer st)\<rparr>)
         | BM_OP_EXTRACT \<Rightarrow> (GO_ON, st\<lparr>l_out := l_out st @ [p]\<rparr>)
         | _ \<Rightarrow>
             let st = st\<lparr>l_count := bm_find op (l_words st) (l_bip st + 32) (l_bip st)\<rparr>
             in (if l_count st < l_bip st + 32 then FOUND else GO_ON, st))"

function bm_words_loop :: "bitmap_operations \<Rightarrow> nat \<Rightarrow> nat \<Rightarrow> bm_loop \<Rightarrow> bm_jump \<times> bm_loop" where
  "bm_words_loop op skip end st =
     (if l_start st + 31 \<le> end then
        (case bm_op_word op st of
           (GO_ON, st') \<Rightarrow>
             let st'' = st'\<lparr>l_start := l_start st + 32, l_bip := l_bip st' + skip\<rparr>
             in if BITS_PER_PAGE \<le> l_bip st'' then (NEXT_PAGE, st'') else bm_words_loop op skip end st''
         | r \<Rightarrow> r)
      else (GO_ON, st))"
  by pat_completeness auto
termination by (relation "measure (\<lambda>(op, skip, end, st). end - l_start st)") auto

declare bm_words_loop.simps [simp del]

text \<open>The rest of the range, in its last word.\<close>

definition bm_op_tail :: "bitmap_operations \<Rightarrow> nat \<Rightarrow> bm_loop \<Rightarrow> bm_jump \<times> bm_loop" where
  "bm_op_tail op end st =
     (let n = l_bip st div 32; p = l_words st ! n; k = end - l_start st + 1; m = push_bit k 1 - 1
      in case op of
           BM_OP_MERGE \<Rightarrow>
             let b = hd (l_buffer st) AND m
             in (NEXT_PAGE, st\<lparr>l_count := l_count st + hweight32 (NOT p AND b),
                   l_words := (l_words st)[n := p OR b], l_buffer := tl (l_buffer st), l_start := end + 1\<rparr>)
         | BM_OP_EXTRACT \<Rightarrow> (NEXT_PAGE, st\<lparr>l_out := l_out st @ [p AND m], l_start := end + 1\<rparr>)
         | BM_OP_TEST \<Rightarrow> (NEXT_PAGE, st\<lparr>l_bip := l_bip st + k, l_start := end + 1\<rparr>)
         | BM_OP_CLEAR \<Rightarrow> (NEXT_PAGE, (bm_bits_loop op k st)\<lparr>l_start := end + 1\<rparr>)
         | BM_OP_SET \<Rightarrow> (NEXT_PAGE, (bm_bits_loop op k st)\<lparr>l_start := end + 1\<rparr>)
         | BM_OP_COUNT \<Rightarrow> (NEXT_PAGE, (bm_bits_loop op k st)\<lparr>l_start := end + 1\<rparr>)
         | _ \<Rightarrow>
             let st = st\<lparr>l_count := bm_find op (l_words st) (l_bip st + k) (l_bip st)\<rparr>
             in if l_count st < l_bip st + k then (FOUND, st) else (NEXT_PAGE, st\<lparr>l_start := end + 1\<rparr>))"

text \<open>What happens on one page.\<close>

definition bm_op_page :: "bitmap_operations \<Rightarrow> nat \<Rightarrow> nat \<Rightarrow> bm_loop \<Rightarrow> bm_jump \<times> bm_loop" where
  "bm_op_page op skip end st =
     (case (if l_start st mod 32 \<noteq> 0 \<and> l_start st div 32 * 32 + 31 \<le> end \<or> op = BM_OP_TEST
            then bm_op_head op skip st else (GO_ON, st)) of
        (GO_ON, st) \<Rightarrow>
          (case bm_words_loop op skip end st of
             (GO_ON, st) \<Rightarrow> if end < l_start st then (NEXT_PAGE, st) else bm_op_tail op end st
           | r \<Rightarrow> r)
      | r \<Rightarrow> r)"

lemma bm_bits_loop_start [simp]: "l_start (bm_bits_loop op n st) = l_start st"
proof (induction n arbitrary: st)
  case (Suc n)
  then show ?case by (cases op) (simp_all add: Let_def)
qed simp

lemma bm_op_head_start:
  "bm_op_head op skip st = (j, st') \<Longrightarrow> j = GO_ON \<or> j = NEXT_PAGE \<Longrightarrow> l_start st < l_start st'"
  by (auto simp: bm_op_head_def Let_def div_mult_mod_eq less_Suc_eq_le dest: sym
      split: bitmap_operations.splits if_splits)

lemma bm_op_word_go: "bm_op_word op st = (j, st') \<Longrightarrow> l_start st' = l_start st \<and> l_bip st' = l_bip st \<and> j \<noteq> NEXT_PAGE"
  by (auto simp: bm_op_word_def Let_def split: bitmap_operations.splits if_splits)

lemma bm_words_loop_start:
  "bm_words_loop op skip end st = (j, st') \<Longrightarrow> j = GO_ON \<or> j = NEXT_PAGE \<Longrightarrow>
     l_start st \<le> l_start st' \<and> (j = NEXT_PAGE \<longrightarrow> l_start st < l_start st')"
proof (induction op skip "end" st rule: bm_words_loop.induct)
  case (1 op skip "end" st)
  obtain k st1 where w: "bm_op_word op st = (k, st1)" by fastforce
  let ?st2 = "st1\<lparr>l_start := l_start st + 32, l_bip := l_bip st1 + skip\<rparr>"
  show ?case
  proof (cases "l_start st + 31 \<le> end \<and> k = GO_ON \<and> \<not> BITS_PER_PAGE \<le> l_bip ?st2")
    case True
    then have "bm_words_loop op skip end ?st2 = (j, st')"
      using 1(2) w by (simp add: bm_words_loop.simps [of op skip "end" st])
    then show ?thesis
      using 1(1) [OF _ w [symmetric], of ?st2] 1(3) True by fastforce
  next
    case False
    then show ?thesis
      using 1(2,3) w bm_op_word_go [OF w]
      by (auto simp: bm_words_loop.simps [of op skip "end" st] Let_def split: if_splits bm_jump.splits)
  qed
qed

lemma bm_op_page_start:
  assumes "bm_op_page op skip end st = (NEXT_PAGE, st')" and "l_start st \<le> end"
  shows "l_start st < l_start st'"
  using assms
  by (auto simp: bm_op_page_def bm_op_tail_def Let_def less_Suc_eq_le
      split: if_splits prod.splits bm_jump.splits bitmap_operations.splits
      dest!: bm_op_head_start bm_words_loop_start)

text \<open>At the end of a page: the changed bits are accounted for and the page is marked.\<close>

definition bm_leave_page :: "bitmap_operations \<Rightarrow> bm_loop \<Rightarrow> bm_page \<Rightarrow> bm_loop \<times> bm_page" where
  "bm_leave_page op st pg =
     (let st = st\<lparr>l_bip := l_bip st - BITS_PER_PAGE\<rparr>
      in case op of
           BM_OP_CLEAR \<Rightarrow>
             if l_count st \<noteq> 0 then (st\<lparr>l_total := l_total st + l_count st\<rparr>, bm_set_page_lazy_writeout pg)
             else (st, pg)
         | BM_OP_SET \<Rightarrow>
             if l_count st \<noteq> 0 then (st\<lparr>l_total := l_total st + l_count st\<rparr>, bm_set_page_need_writeout pg)
             else (st, pg)
         | BM_OP_MERGE \<Rightarrow>
             if l_count st \<noteq> 0 then (st\<lparr>l_total := l_total st + l_count st\<rparr>, bm_set_page_need_writeout pg)
             else (st, pg)
         | _ \<Rightarrow> (st, pg))"

lemma bm_leave_page_start [simp]: "l_start (fst (bm_leave_page op st pg)) = l_start st"
  by (cases op) (simp_all add: bm_leave_page_def Let_def)

function bm_op_loop ::
    "bitmap_operations \<Rightarrow> nat \<Rightarrow> nat \<Rightarrow> nat \<Rightarrow> bm_loop \<Rightarrow> bm_page list \<Rightarrow> bm_jump \<times> bm_loop \<times> bm_page list" where
  "bm_op_loop op skip end page st pages =
     (if l_start st \<le> end then
        (case bm_op_page op skip end (st\<lparr>l_count := 0, l_words := page_words (pages ! page)\<rparr>) of
           (NEXT_PAGE, st') \<Rightarrow>
             (case bm_leave_page op st' ((pages ! page)\<lparr>page_words := l_words st'\<rparr>) of
                (st'', pg) \<Rightarrow> bm_op_loop op skip end (page + 1) st'' (pages[page := pg]))
         | (j, st') \<Rightarrow> (j, st', pages[page := (pages ! page)\<lparr>page_words := l_words st'\<rparr>]))
      else (GO_ON, st, pages))"
  by pat_completeness auto
termination
proof (relation "measure (\<lambda>(op, skip, end, page, st, pages). Suc end - l_start st)")
  fix op skip "end" page st pages j st' st'' pg
  assume "l_start st \<le> end" and
    "(j, st') = bm_op_page op skip end (st\<lparr>l_count := 0, l_words := page_words (pages ! page)\<rparr>)"
    "j = NEXT_PAGE"
    and leave: "(st'', pg) = bm_leave_page op st' ((pages ! page)\<lparr>page_words := l_words st'\<rparr>)"
  then have "l_start st < l_start st'"
    using bm_op_page_start [of op skip "end" "st\<lparr>l_count := 0, l_words := page_words (pages ! page)\<rparr>" st'] by simp
  then show "((op, skip, end, page + 1, st'', pages[page := pg]), op, skip, end, page, st, pages)
      \<in> measure (\<lambda>(op, skip, end, page, st, pages). Suc end - l_start st)"
    using leave \<open>l_start st \<le> end\<close> by (metis (no_types, lifting) bm_leave_page_start fst_conv in_measure
        case_prod_conv diff_less_mono2 le_imp_less_Suc)
qed auto

declare bm_op_loop.simps [simp del]

definition bm_op4 ::
    "nat \<Rightarrow> nat \<Rightarrow> nat \<Rightarrow> bitmap_operations \<Rightarrow> u32 list \<Rightarrow> bsr_bitmap \<Rightarrow> (nat \<times> u32 list \<times> bsr_bitmap) option" where
  "bm_op4 idx start end op buffer bm =
     (let real_end = end + 1;
          end = (if bm_bits bm \<le> end then bm_bits bm - 1 else end);
          word = interleaved_word32 bm idx start;
          st = \<lparr>l_start = start, l_bip = word32_in_page word * 32 + start mod 32, l_count = 0, l_total = 0,
                l_buffer = buffer, l_out = [], l_words = []\<rparr>
      in case bm_op_loop op (32 * bm_max_peers bm) end (word32_to_page word) st (bm_pages bm) of
           (j, st, pages) \<Rightarrow>
             let bm = bm\<lparr>bm_pages := pages\<rparr>; total = l_total st
             in case j of
                  BM_BUG \<Rightarrow> None
                | BM_RETURN \<Rightarrow> Some (total, l_out st, bm)
                | FOUND \<Rightarrow> Some (l_start st + l_count st - l_bip st, l_out st, bm)
                | _ \<Rightarrow>
                    (case op of
                       BM_OP_CLEAR \<Rightarrow>
                         Some (total, l_out st, bm\<lparr>bm_set := (bm_set bm)[idx := bm_set bm ! idx - of_nat total]\<rparr>)
                     | BM_OP_SET \<Rightarrow>
                         Some (total, l_out st, bm\<lparr>bm_set := (bm_set bm)[idx := bm_set bm ! idx + of_nat total]\<rparr>)
                     | BM_OP_MERGE \<Rightarrow>
                         Some (total, l_out st, bm\<lparr>bm_set := (bm_set bm)[idx := bm_set bm ! idx + of_nat total]\<rparr>)
                     | BM_OP_RANGE_FIND_BIT \<Rightarrow> Some (real_end, l_out st, bm)
                     | BM_OP_RANGE_FIND_ZERO_BIT \<Rightarrow> Some (real_end, l_out st, bm)
                     | BM_OP_FIND_BIT \<Rightarrow> Some (BSR_END_OF_BITMAP, l_out st, bm)
                     | BM_OP_FIND_ZERO_BIT \<Rightarrow> Some (BSR_END_OF_BITMAP, l_out st, bm)
                     | _ \<Rightarrow> Some (total, l_out st, bm)))"

text \<open>
  \<^verbatim>\<open>__bm_op\<close> and \<^verbatim>\<open>bm_op\<close>: a bitmap without pages (\<^verbatim>\<open>bm_pages == NULL\<close>) or without bits gives 0.
  Reporting a foreign bitmap lock only logs.
\<close>

definition bm_op2 ::
    "nat \<Rightarrow> nat \<Rightarrow> nat \<Rightarrow> bitmap_operations \<Rightarrow> u32 list \<Rightarrow> bsr_bitmap \<Rightarrow> (nat \<times> u32 list \<times> bsr_bitmap) option" where
  "bm_op2 idx start end op buffer bm =
     (if bm_pages bm = [] then Some (0, [], bm)
      else if bm_bits bm = 0 then Some (0, [], bm)
      else bm_op4 idx start end op buffer bm)"

definition bm_op ::
    "nat \<Rightarrow> nat \<Rightarrow> nat \<Rightarrow> bitmap_operations \<Rightarrow> u32 list \<Rightarrow> bsr_bitmap \<Rightarrow> (nat \<times> u32 list \<times> bsr_bitmap) option" where
  "bm_op idx start end op buffer bm = bm_op2 idx start end op buffer bm"

definition last_bit_on_page :: "bsr_bitmap \<Rightarrow> nat \<Rightarrow> nat \<Rightarrow> nat" where
  "last_bit_on_page bm idx b =
     (let word = interleaved_word32 bm idx b
      in (b div 32 * 32 + 31) + word32_in_page (2 ^ 64 - 1 - word) div bm_max_peers bm * 32)"

section \<open>The operations other components call\<close>

definition bm_total_weight :: "nat \<Rightarrow> bsr_bitmap \<Rightarrow> u64" where
  "bm_total_weight idx bm = (if bm_pages bm = [] then 0 else bm_set bm ! idx)"

definition bsr_bm_words :: "bsr_bitmap \<Rightarrow> nat" where
  "bsr_bm_words bm = (if bm_pages bm = [] then 0 else bm_words bm div bm_max_peers bm)"

definition bsr_bm_merge_lel :: "nat \<Rightarrow> nat \<Rightarrow> nat \<Rightarrow> u32 list \<Rightarrow> bsr_bitmap \<Rightarrow> bsr_bitmap option" where
  "bsr_bm_merge_lel idx offset number buffer bm =
     (let start = offset * 64; end = start + number * 64 - 1
      in map_option (\<lambda>(r, out, bm). bm) (bm_op idx start end BM_OP_MERGE buffer bm))"

definition bsr_bm_get_lel :: "nat \<Rightarrow> nat \<Rightarrow> nat \<Rightarrow> bsr_bitmap \<Rightarrow> u32 list option" where
  "bsr_bm_get_lel idx offset number bm =
     (let start = offset * 64; end = start + number * 64 - 1
      in map_option (\<lambda>(r, out, bm). out) (bm_op idx start end BM_OP_EXTRACT [] bm))"

definition bsr_bm_find_next :: "nat \<Rightarrow> nat \<Rightarrow> bsr_bitmap \<Rightarrow> nat option" where
  "bsr_bm_find_next idx start bm = map_option fst (bm_op idx start BSR_END_OF_BITMAP BM_OP_FIND_BIT [] bm)"

definition bsr_bm_range_find_next :: "nat \<Rightarrow> nat \<Rightarrow> nat \<Rightarrow> bsr_bitmap \<Rightarrow> nat option" where
  "bsr_bm_range_find_next idx start end bm = map_option fst (bm_op idx start end BM_OP_RANGE_FIND_BIT [] bm)"

definition bsr_bm_range_find_next_zero :: "nat \<Rightarrow> nat \<Rightarrow> nat \<Rightarrow> bsr_bitmap \<Rightarrow> nat option" where
  "bsr_bm_range_find_next_zero idx start end bm =
     map_option fst (bm_op idx start end BM_OP_RANGE_FIND_ZERO_BIT [] bm)"

definition bsr_bm_set_bits :: "nat \<Rightarrow> nat \<Rightarrow> nat \<Rightarrow> bsr_bitmap \<Rightarrow> (nat \<times> bsr_bitmap) option" where
  "bsr_bm_set_bits idx start end bm = map_option (\<lambda>(r, out, bm). (r, bm)) (bm_op idx start end BM_OP_SET [] bm)"

definition bsr_bm_clear_bits :: "nat \<Rightarrow> nat \<Rightarrow> nat \<Rightarrow> bsr_bitmap \<Rightarrow> (nat \<times> bsr_bitmap) option" where
  "bsr_bm_clear_bits idx start end bm = map_option (\<lambda>(r, out, bm). (r, bm)) (bm_op idx start end BM_OP_CLEAR [] bm)"

definition bsr_bm_count_bits :: "nat \<Rightarrow> nat \<Rightarrow> nat \<Rightarrow> bsr_bitmap \<Rightarrow> nat option" where
  "bsr_bm_count_bits idx s e bm = map_option fst (bm_op idx s e BM_OP_COUNT [] bm)"

definition bsr_bm_test_bit :: "nat \<Rightarrow> nat \<Rightarrow> bsr_bitmap \<Rightarrow> nat option" where
  "bsr_bm_test_bit idx bitnr bm =
     (if bm_bits bm \<le> bitnr then Some BSR_END_OF_BITMAP
      else map_option fst (bm_op2 idx bitnr bitnr BM_OP_COUNT [] bm))"

text \<open>
  \<^verbatim>\<open>__bm_many_bits_op\<close>: page by page, so that the lock can be dropped in between.
\<close>

function many_bits_loop :: "nat \<Rightarrow> nat \<Rightarrow> bitmap_operations \<Rightarrow> nat \<Rightarrow> bsr_bitmap \<Rightarrow> bsr_bitmap option" where
  "many_bits_loop idx end op b bm =
     (if b \<le> end then
        (let last_bit = min end (last_bit_on_page bm idx b)
         in case bm_op2 idx b last_bit op [] bm of
              None \<Rightarrow> None
            | Some (r, out, bm) \<Rightarrow> many_bits_loop idx end op (last_bit + 1) bm)
      else Some bm)"
  by pat_completeness auto
termination
  by (relation "measure (\<lambda>(idx, end, op, b, bm). Suc end - b)")
    (auto simp: last_bit_on_page_def Let_def min_def)

declare many_bits_loop.simps [simp del]

definition bm_many_bits_op0 :: "nat \<Rightarrow> nat \<Rightarrow> nat \<Rightarrow> bitmap_operations \<Rightarrow> bsr_bitmap \<Rightarrow> bsr_bitmap option" where
  "bm_many_bits_op0 idx start end op bm =
     (let end = (if bm_bits bm \<le> end then bm_bits bm - 1 else end)
      in many_bits_loop idx end op start bm)"

definition bsr_bm_set_many_bits :: "nat \<Rightarrow> nat \<Rightarrow> nat \<Rightarrow> bsr_bitmap \<Rightarrow> bsr_bitmap option" where
  "bsr_bm_set_many_bits idx start end bm = bm_many_bits_op0 idx start end BM_OP_SET bm"

definition bsr_bm_clear_many_bits :: "nat \<Rightarrow> nat \<Rightarrow> nat \<Rightarrow> bsr_bitmap \<Rightarrow> bsr_bitmap option" where
  "bsr_bm_clear_many_bits idx start end bm = bm_many_bits_op0 idx start end BM_OP_CLEAR bm"

fun many_all :: "bitmap_operations \<Rightarrow> nat list \<Rightarrow> bsr_bitmap \<Rightarrow> bsr_bitmap option" where
  "many_all op [] bm = Some bm"
| "many_all op (idx # is) bm = bm_many_bits_op0 idx 0 BSR_END_OF_BITMAP op bm \<bind> many_all op is"

definition bsr_bm_set_all :: "bsr_bitmap \<Rightarrow> bsr_bitmap option" where
  "bsr_bm_set_all bm = many_all BM_OP_SET [0..<bm_max_peers bm] bm"

definition bsr_bm_clear_all :: "bsr_bitmap \<Rightarrow> bsr_bitmap option" where
  "bsr_bm_clear_all bm = many_all BM_OP_CLEAR [0..<bm_max_peers bm] bm"

text \<open>\<^verbatim>\<open>bm_count_bits\<close>: recount every slot.\<close>

function count_bits_loop :: "nat \<Rightarrow> nat \<Rightarrow> nat \<Rightarrow> bsr_bitmap \<Rightarrow> (nat \<times> bsr_bitmap) option" where
  "count_bits_loop idx b bits_set bm =
     (if b < bm_bits bm then
        (let last_bit = last_bit_on_page bm idx b
         in case bm_op4 idx b last_bit BM_OP_COUNT [] bm of
              None \<Rightarrow> None
            | Some (r, out, bm') \<Rightarrow> count_bits_loop idx (last_bit + 1) (bits_set + r) (bm\<lparr>bm_pages := bm_pages bm'\<rparr>))
      else Some (bits_set, bm))"
  by pat_completeness auto
termination
  by (relation "measure (\<lambda>(idx, b, bits_set, bm). bm_bits bm - b)")
    (auto simp: last_bit_on_page_def Let_def)

declare count_bits_loop.simps [simp del]

fun count_slots :: "nat list \<Rightarrow> bsr_bitmap \<Rightarrow> bsr_bitmap option" where
  "count_slots [] bm = Some bm"
| "count_slots (idx # is) bm =
     (case count_bits_loop idx 0 0 bm of
        None \<Rightarrow> None
      | Some (n, bm) \<Rightarrow> count_slots is (bm\<lparr>bm_set := (bm_set bm)[idx := of_nat n]\<rparr>))"

definition bm_count_bits :: "bsr_bitmap \<Rightarrow> bsr_bitmap option" where
  "bm_count_bits bm = count_slots [0..<bm_max_peers bm] bm"

end
