(* ===== verification/Bitmap_Lemmas.thy ===== *)
theory Bitmap_Lemmas
  imports Bitmap
begin

text \<open>
  The correctness of the bitmap operations.  The paged, interleaved, word-at-a-time walk of
  \<open>bm_op4\<close> does to the bits of one peer exactly what its name says, and nothing to the bits of the
  other peers.

  The proof works on the linear address of a bit (\<open>lin\<close>: 32 times its interleaved word plus its
  offset).  One section of the walk treats a chunk of consecutive bits of one word (\<open>chunk\<close>);
  \<open>walked\<close> is the invariant that all bits from the start of the range to the current position have
  been treated and counted.
\<close>

section \<open>Chunks\<close>

lemma div_mod_32_eq: "(m :: nat) = n \<longleftrightarrow> m div 32 = n div 32 \<and> m mod 32 = n mod 32"
  by (metis div_mult_mod_eq)

lemma test_set_bit_le:
  "n div 32 < length ws \<Longrightarrow> test_bit_le m (set_bit_le n ws) \<longleftrightarrow> m = n \<or> test_bit_le m ws"
  unfolding div_mod_32_eq [of m n]
  by (auto simp: test_bit_le_def set_bit_le_def nth_list_update bit_set_bit_iff)

lemma test_clear_bit_le:
  "n div 32 < length ws \<Longrightarrow> test_bit_le m (clear_bit_le n ws) \<longleftrightarrow> m \<noteq> n \<and> test_bit_le m ws"
  unfolding div_mod_32_eq [of m n]
  by (auto simp: test_bit_le_def clear_bit_le_def nth_list_update bit_unset_bit_iff)

fun newbit :: "bitmap_operations \<Rightarrow> bool \<Rightarrow> bool" where
  "newbit BM_OP_SET b = True"
| "newbit BM_OP_CLEAR b = False"
| "newbit _ b = b"

fun counted :: "bitmap_operations \<Rightarrow> bool \<Rightarrow> bool" where
  "counted BM_OP_SET b = (\<not> b)"
| "counted BM_OP_CLEAR b = b"
| "counted BM_OP_COUNT b = b"
| "counted _ b = False"

definition bm_mut :: "bitmap_operations \<Rightarrow> bool" where
  "bm_mut op \<longleftrightarrow> op = BM_OP_SET \<or> op = BM_OP_CLEAR \<or> op = BM_OP_COUNT"

definition chunk :: "bitmap_operations \<Rightarrow> nat \<Rightarrow> bm_loop \<Rightarrow> bm_loop \<Rightarrow> bool" where
  "chunk op n st st' \<longleftrightarrow> length (l_words st') = length (l_words st) \<and> l_start st' = l_start st \<and> l_out st' = l_out st \<and>
     (\<forall>b. test_bit_le b (l_words st') =
        (if l_bip st \<le> b \<and> b < l_bip st + n then newbit op (test_bit_le b (l_words st)) else test_bit_le b (l_words st))) \<and>
     l_count st' + l_total st' = l_count st + l_total st +
       card {b. l_bip st \<le> b \<and> b < l_bip st + n \<and> counted op (test_bit_le b (l_words st))} \<and>
     (op = BM_OP_COUNT \<longrightarrow> l_count st' = l_count st)"

lemma chunk_refl: "chunk op 0 st st"
  by (auto simp: chunk_def)

lemma bm_bit_step_chunk:
  assumes "bm_mut op" and "l_bip st < 32 * length (l_words st)"
  shows "chunk op 1 st (bm_bit_step op st)" and "l_bip (bm_bit_step op st) = l_bip st"
proof -
  have b: "l_bip st div 32 < length (l_words st)" using assms(2) by auto
  have sing: "card {c. l_bip st \<le> c \<and> c < l_bip st + 1 \<and> P c} = (if P (l_bip st) then 1 else 0)" for P
  proof -
    have "{c. l_bip st \<le> c \<and> c < l_bip st + 1 \<and> P c} = (if P (l_bip st) then {l_bip st} else {})"
      by (auto simp: less_Suc_eq_le dest: le_antisym)
    then show ?thesis by simp
  qed
  have rng: "l_bip st \<le> c \<and> c < l_bip st + 1 \<longleftrightarrow> c = l_bip st" for c by auto
  have len: "length (set_bit_le n ws) = length ws" "length (clear_bit_le n ws) = length ws" for n ws
    by (simp_all add: set_bit_le_def clear_bit_le_def)
  from assms(1) consider "op = BM_OP_SET" | "op = BM_OP_CLEAR" | "op = BM_OP_COUNT" by (auto simp: bm_mut_def)
  then show "chunk op 1 st (bm_bit_step op st)"
    unfolding chunk_def sing rng
    by cases (auto simp: test_set_bit_le [OF b] test_clear_bit_le [OF b] len)
  show "l_bip (bm_bit_step op st) = l_bip st" by (cases op) simp_all
qed

lemma card_split_range:
  "m \<le> n \<Longrightarrow> n \<le> (k :: nat) \<Longrightarrow>
    card {b. m \<le> b \<and> b < k \<and> P b} = card {b. m \<le> b \<and> b < n \<and> P b} + card {b. n \<le> b \<and> b < k \<and> P b}"
  by (subst card_Un_disjoint [symmetric]) (auto intro: arg_cong [where f = card])

lemma card_shift_range: "card {b. m \<le> b \<and> b < m + n \<and> P b} = card {j :: nat. j < n \<and> P (m + j)}"
proof -
  have "{b. m \<le> b \<and> b < m + n \<and> P b} = (\<lambda>j. m + j) ` {j. j < n \<and> P (m + j)}"
  proof (intro equalityI subsetI)
    fix b assume b: "b \<in> {b. m \<le> b \<and> b < m + n \<and> P b}"
    then obtain j where "b = m + j" using le_Suc_ex by blast
    with b show "b \<in> (\<lambda>j. m + j) ` {j. j < n \<and> P (m + j)}" by auto
  qed auto
  then show ?thesis by (simp add: card_image)
qed

lemma chunk_trans:
  assumes "chunk op m st st1" and "l_bip st2 = l_bip st + m" and "chunk op n st2 st3"
    and "st2 = st1\<lparr>l_bip := l_bip st2\<rparr>"
  shows "chunk op (m + n) st st3"
proof -
  have w: "l_words st2 = l_words st1" "l_count st2 = l_count st1" "l_total st2 = l_total st1"
      "l_start st2 = l_start st1" "l_out st2 = l_out st1"
    using assms(4) by (metis bm_loop.select_convs bm_loop.surjective bm_loop.update_convs(2))+
  have "test_bit_le b (l_words st1) = test_bit_le b (l_words st)" if "l_bip st + m \<le> b" for b
    using assms(1) that by (simp add: chunk_def)
  then have same: "{b. l_bip st2 \<le> b \<and> b < l_bip st2 + n \<and> counted op (test_bit_le b (l_words st2))} =
      {b. l_bip st + m \<le> b \<and> b < l_bip st + m + n \<and> counted op (test_bit_le b (l_words st))}"
    using assms(2) w by auto
  show ?thesis
    using assms(1,3) w assms(2) same card_split_range [of "l_bip st" "l_bip st + m" "l_bip st + m + n"
        "\<lambda>b. counted op (test_bit_le b (l_words st))"]
    unfolding chunk_def by (auto simp: add.assoc)
qed

lemma bm_bits_loop_chunk:
  assumes "bm_mut op" and "l_bip st + n \<le> 32 * length (l_words st)"
  shows "chunk op n st (bm_bits_loop op n st) \<and> l_bip (bm_bits_loop op n st) = l_bip st + n"
  using assms(2)
proof (induction n arbitrary: st)
  case 0
  then show ?case by (simp add: chunk_refl)
next
  case (Suc n)
  let ?st1 = "bm_bit_step op st"
  let ?st2 = "?st1\<lparr>l_bip := l_bip ?st1 + 1\<rparr>"
  have c1: "chunk op 1 st ?st1" and b1: "l_bip ?st1 = l_bip st"
    using bm_bit_step_chunk [OF assms(1)] Suc.prems by auto
  have "length (l_words ?st1) = length (l_words st)" using c1 by (simp add: chunk_def)
  then have IH: "chunk op n ?st2 (bm_bits_loop op n ?st2) \<and> l_bip (bm_bits_loop op n ?st2) = l_bip ?st2 + n"
    using Suc b1 by (intro Suc.IH) simp
  have "chunk op (1 + n) st (bm_bits_loop op n ?st2)"
    by (rule chunk_trans [OF c1 _ conjunct1 [OF IH]]) (simp_all add: b1)
  then show ?case using IH b1 by (simp add: Let_def)
qed

lemma hweight32_card: "hweight32 w = card {i. i < 32 \<and> bit w i}"
  unfolding hweight32_def by (simp add: length_filter_conv_card cong: conj_cong)

lemma word_bits_card:
  assumes "bip mod 32 = 0"
  shows "card {b. bip \<le> b \<and> b < bip + 32 \<and> P (bit (ws ! (b div 32)) (b mod 32))} = card {i. i < 32 \<and> P (bit (ws ! (bip div 32)) i)}"
proof (rule bij_betw_same_card [of "\<lambda>b. b - bip"])
  obtain q where q: "bip = 32 * q" using assms by (metis mod_0_imp_dvd dvdE)
  have "b div 32 = q \<and> b mod 32 = b - bip" if "bip \<le> b" "b < bip + 32" for b
  proof -
    from that obtain r where "b = 32 * q + r" "r < 32" by (metis q le_Suc_ex nat_add_left_cancel_less)
    then show ?thesis by (simp add: q)
  qed
  then show "bij_betw (\<lambda>b. b - bip) {b. bip \<le> b \<and> b < bip + 32 \<and> P (bit (ws ! (b div 32)) (b mod 32))}
      {i. i < 32 \<and> P (bit (ws ! (bip div 32)) i)}"
    by (intro bij_betw_byWitness [where f' = "\<lambda>i. i + bip"]) (auto simp: q)
qed

lemma bm_op_word_chunk:
  assumes "bm_mut op" and "l_bip st mod 32 = 0" and "l_bip st + 32 \<le> 32 * length (l_words st)"
  obtains st' where "bm_op_word op st = (GO_ON, st')" and "chunk op 32 st st'" and "l_bip st' = l_bip st"
proof -
  let ?n = "l_bip st div 32"
  have n: "?n < length (l_words st)" using assms(3) by auto
  have rng: "l_bip st \<le> b \<and> b < l_bip st + 32 \<longleftrightarrow> b div 32 = ?n" for b
    using assms(2) by auto
  have bits: "test_bit_le b ((l_words st)[?n := w]) =
      (if l_bip st \<le> b \<and> b < l_bip st + 32 then bit w (b mod 32) else test_bit_le b (l_words st))" for b w
    using n by (simp add: rng test_bit_le_def)
  have set: "card {b. l_bip st \<le> b \<and> b < l_bip st + 32 \<and> test_bit_le b (l_words st)} =
      hweight32 (l_words st ! ?n)"
    using word_bits_card [OF assms(2), of "\<lambda>b. b" "l_words st"] by (simp add: hweight32_card test_bit_le_def)
  have clear: "card {b. l_bip st \<le> b \<and> b < l_bip st + 32 \<and> \<not> test_bit_le b (l_words st)} =
      hweight32 (NOT (l_words st ! ?n))"
    using word_bits_card [OF assms(2), of Not "l_words st"]
    by (simp add: hweight32_card test_bit_le_def bit_not_iff cong: conj_cong)
  from assms(1) consider "op = BM_OP_SET" | "op = BM_OP_CLEAR" | "op = BM_OP_COUNT" by (auto simp: bm_mut_def)
  then show thesis
  proof cases
    case 1
    then show ?thesis
      by (intro that [of "snd (bm_op_word op st)"]) (auto simp: bm_op_word_def Let_def chunk_def bits clear bit_minus_1_iff)
  next
    case 2
    then show ?thesis
      by (intro that [of "snd (bm_op_word op st)"]) (auto simp: bm_op_word_def Let_def chunk_def bits set)
  next
    case 3
    then show ?thesis
      by (intro that [of "snd (bm_op_word op st)"]) (auto simp: bm_op_word_def Let_def chunk_def set)
  qed
qed

section \<open>Addresses\<close>

definition lin :: "nat \<Rightarrow> nat \<Rightarrow> nat \<Rightarrow> nat" where
  "lin mp idx i = 32 * (i div 32 * mp + idx) + i mod 32"

lemma lin_div_mod: "lin mp idx i div 32 = i div 32 * mp + idx" "lin mp idx i mod 32 = i mod 32"
proof -
  have "(32 * w + i mod 32) div 32 = w" "(32 * w + i mod 32) mod 32 = i mod 32" for w :: nat by simp_all
  then show "lin mp idx i div 32 = i div 32 * mp + idx" "lin mp idx i mod 32 = i mod 32"
    unfolding lin_def by blast+
qed

lemma lin_inj:
  assumes "lin mp idx i = lin mp idx' j" and "idx < mp" and "idx' < mp"
  shows "i = j \<and> idx = idx'"
proof -
  have w: "i div 32 * mp + idx = j div 32 * mp + idx'" and m: "i mod 32 = j mod 32"
    using assms(1) lin_div_mod by metis+
  from w have "idx = idx'" using assms(2,3) by (metis mod_less mod_mult_self3)
  moreover from w this have "i div 32 = j div 32" using assms(2) by simp
  ultimately show ?thesis using m div_mod_32_eq [of i j] by blast
qed

lemma lin_add: "i mod 32 + j < 32 \<Longrightarrow> lin mp idx (i + j) = lin mp idx i + j"
proof -
  assume "i mod 32 + j < 32"
  moreover have "i + j = 32 * (i div 32) + (i mod 32 + j)" by simp
  ultimately have "(i + j) div 32 = i div 32" "(i + j) mod 32 = i mod 32 + j"
    by (metis div_mult_self4 div_less add_0_right zero_neq_numeral, metis mod_mult_self4 mod_less)
  then show ?thesis by (simp add: lin_def)
qed

lemma lin_window:
  assumes "s mod 32 + n \<le> 32"
  shows "lin mp idx s \<le> a \<and> a < lin mp idx s + n \<longleftrightarrow> (\<exists>i. s \<le> i \<and> i < s + n \<and> a = lin mp idx i)"
proof
  assume l: "lin mp idx s \<le> a \<and> a < lin mp idx s + n"
  then obtain j where "a = lin mp idx s + j" "j < n" by (metis le_Suc_ex nat_add_left_cancel_less)
  then show "\<exists>i. s \<le> i \<and> i < s + n \<and> a = lin mp idx i"
    using lin_add [of s j mp idx] assms by (intro exI [of _ "s + j"]) auto
next
  assume "\<exists>i. s \<le> i \<and> i < s + n \<and> a = lin mp idx i"
  then obtain j where "j < n" "a = lin mp idx (s + j)" by (metis le_Suc_ex nat_add_left_cancel_less)
  then show "lin mp idx s \<le> a \<and> a < lin mp idx s + n" using lin_add [of s j mp idx] assms by auto
qed

lemma lin_word: "lin mp idx ((s div 32 + 1) * 32) = lin mp idx (s div 32 * 32) + 32 * mp"
  by (simp add: lin_def algebra_simps)

definition page_bit :: "bm_page list \<Rightarrow> nat \<Rightarrow> bool" where
  "page_bit pages a = test_bit_le (a mod BITS_PER_PAGE) (page_words (pages ! (a div BITS_PER_PAGE)))"

definition gbit :: "bm_page list \<Rightarrow> nat \<Rightarrow> u32 list \<Rightarrow> nat \<Rightarrow> bool" where
  "gbit pages P ws a = (if a div BITS_PER_PAGE = P then test_bit_le (a mod BITS_PER_PAGE) ws else page_bit pages a)"

definition bm_view :: "bsr_bitmap \<Rightarrow> nat \<Rightarrow> nat \<Rightarrow> bool" where
  "bm_view bm idx i = page_bit (bm_pages bm) (lin (bm_max_peers bm) idx i)"

definition walked ::
    "bitmap_operations \<Rightarrow> nat \<Rightarrow> nat \<Rightarrow> nat \<Rightarrow> (nat \<Rightarrow> bool) \<Rightarrow> nat \<Rightarrow> bm_page list \<Rightarrow> bm_loop \<Rightarrow> bool" where
  "walked op mp idx lo G P pages st \<longleftrightarrow>
     32 * length (l_words st) = BITS_PER_PAGE \<and> lo \<le> l_start st \<and> l_out st = [] \<and>
     (\<forall>a. gbit pages P (l_words st) a =
        (if \<exists>i. lo \<le> i \<and> i < l_start st \<and> a = lin mp idx i then newbit op (G a) else G a)) \<and>
     l_count st + l_total st = card {i. lo \<le> i \<and> i < l_start st \<and> counted op (G (lin mp idx i))} \<and>
     (op = BM_OP_COUNT \<longrightarrow> l_count st = 0)"

lemma gbit_chunk:
  assumes "chunk op n st st'" and "l_bip st + n \<le> BITS_PER_PAGE"
  shows "gbit pages P (l_words st') a =
    (if P * BITS_PER_PAGE + l_bip st \<le> a \<and> a < P * BITS_PER_PAGE + l_bip st + n
     then newbit op (gbit pages P (l_words st) a) else gbit pages P (l_words st) a)"
proof -
  have pos: "0 < BITS_PER_PAGE" by (simp add: BITS_PER_PAGE_def)
  show ?thesis
  proof (cases "a div BITS_PER_PAGE = P")
    case True
    then have "a = P * BITS_PER_PAGE + a mod BITS_PER_PAGE" by (metis div_mult_mod_eq)
    then have "P * BITS_PER_PAGE + l_bip st \<le> a \<and> a < P * BITS_PER_PAGE + l_bip st + n \<longleftrightarrow>
        l_bip st \<le> a mod BITS_PER_PAGE \<and> a mod BITS_PER_PAGE < l_bip st + n" by linarith
    then show ?thesis using True assms(1) by (simp add: gbit_def chunk_def)
  next
    case False
    have "a div BITS_PER_PAGE = P" if "P * BITS_PER_PAGE + l_bip st \<le> a" "a < P * BITS_PER_PAGE + l_bip st + n"
    proof (rule div_nat_eqI)
      show "BITS_PER_PAGE * P \<le> a" using that by (simp add: mult.commute)
      show "a < BITS_PER_PAGE * Suc P" using that assms(2) by (simp add: mult.commute)
    qed
    then show ?thesis using False by (auto simp: gbit_def)
  qed
qed

lemma walked_chunk:
  assumes w: "walked op mp idx lo G P pages st" and c: "chunk op n st st'"
    and at: "P * BITS_PER_PAGE + l_bip st = lin mp idx (l_start st)"
    and n: "l_start st mod 32 + n \<le> 32" "l_bip st + n \<le> BITS_PER_PAGE" and idx: "idx < mp"
    and st'': "l_words st'' = l_words st'" "l_start st'' = l_start st + n" "l_count st'' = l_count st'"
      "l_total st'' = l_total st'" "l_out st'' = l_out st'"
  shows "walked op mp idx lo G P pages st''"
proof -
  let ?s = "l_start st"
  have G: "gbit pages P (l_words st) a = (if \<exists>i. lo \<le> i \<and> i < ?s \<and> a = lin mp idx i then newbit op (G a) else G a)" for a
    using w by (simp add: walked_def)
  have lo: "lo \<le> ?s" using w by (simp add: walked_def)
  have fresh: "gbit pages P (l_words st) (lin mp idx i) = G (lin mp idx i)" if "?s \<le> i" for i
    using that lin_inj [of mp idx i idx] idx by (auto simp: G)
  have "gbit pages P (l_words st'') a =
      (if \<exists>i. lo \<le> i \<and> i < ?s + n \<and> a = lin mp idx i then newbit op (G a) else G a)" for a
  proof (cases "\<exists>i. ?s \<le> i \<and> i < ?s + n \<and> a = lin mp idx i")
    case True
    then obtain i where i: "?s \<le> i" "i < ?s + n" "a = lin mp idx i" by blast
    then have "\<exists>i. lo \<le> i \<and> i < ?s + n \<and> a = lin mp idx i" using lo le_trans by blast
    then show ?thesis
      using gbit_chunk [OF c n(2), of pages P a] at st'' lin_window [OF n(1), of mp idx a] True fresh [OF i(1)] i(3)
      by simp
  next
    case False
    then have "i < ?s" if "i < ?s + n" "a = lin mp idx i" for i using that not_less by blast
    then have "(\<exists>i. lo \<le> i \<and> i < ?s + n \<and> a = lin mp idx i) = (\<exists>i. lo \<le> i \<and> i < ?s \<and> a = lin mp idx i)"
      using trans_less_add1 by blast
    then show ?thesis
      using gbit_chunk [OF c n(2), of pages P a] at st'' lin_window [OF n(1), of mp idx a] False G by auto
  qed
  moreover have "card {b. l_bip st \<le> b \<and> b < l_bip st + n \<and> counted op (test_bit_le b (l_words st))} =
      card {i. ?s \<le> i \<and> i < ?s + n \<and> counted op (G (lin mp idx i))}"
  proof -
    have eq: "test_bit_le (l_bip st + j) (l_words st) = G (lin mp idx (?s + j))" if "j < n" for j
    proof -
      have "lin mp idx (?s + j) = P * BITS_PER_PAGE + (l_bip st + j)"
        using lin_add [of ?s j mp idx] that n(1) at by simp
      moreover have "l_bip st + j < BITS_PER_PAGE" using that n(2) by simp
      ultimately show ?thesis using fresh [of "?s + j"] by (simp add: gbit_def)
    qed
    then have "{j. j < n \<and> counted op (test_bit_le (l_bip st + j) (l_words st))} =
        {j. j < n \<and> counted op (G (lin mp idx (?s + j)))}" by auto
    then show ?thesis unfolding card_shift_range by simp
  qed
  ultimately show ?thesis
    using w c st'' lo card_split_range [OF lo, of "?s + n" "\<lambda>i. counted op (G (lin mp idx i))"]
    by (simp add: walked_def chunk_def)
qed

section \<open>The operations that count, set and clear\<close>

lemma bpp: "BITS_PER_PAGE = 32 * 1024"
  by (simp add: BITS_PER_PAGE_def PAGE_SHIFT_def)

definition at_addr :: "nat \<Rightarrow> nat \<Rightarrow> nat \<Rightarrow> bm_loop \<Rightarrow> bool" where
  "at_addr mp idx P st \<longleftrightarrow> P * BITS_PER_PAGE + l_bip st = lin mp idx (l_start st)"

lemma at_addr_mod: "at_addr mp idx P st \<Longrightarrow> l_bip st mod 32 = l_start st mod 32"
proof -
  assume "at_addr mp idx P st"
  then have "lin mp idx (l_start st) = 32 * (1024 * P) + l_bip st" by (simp add: at_addr_def bpp)
  then have "lin mp idx (l_start st) mod 32 = l_bip st mod 32" by (metis mod_mult_self4)
  then show ?thesis by (simp add: lin_div_mod)
qed

lemma page_room: "b < BITS_PER_PAGE \<Longrightarrow> b mod 32 + n \<le> 32 \<Longrightarrow> b + n \<le> BITS_PER_PAGE"
proof -
  assume b: "b < BITS_PER_PAGE" and n: "b mod 32 + n \<le> 32"
  have "b div 32 < 1024" using b by (simp add: bpp less_mult_imp_div_less)
  moreover have "b = 32 * (b div 32) + b mod 32" by simp
  ultimately show ?thesis using n unfolding bpp by linarith
qed

lemma lin_next_word:
  assumes "0 < mp"
  shows "lin mp idx ((s div 32 + 1) * 32) = lin mp idx s + (32 - s mod 32) + 32 * mp - 32"
proof -
  have "s mod 32 \<le> 32" by (rule less_imp_le) simp
  then show ?thesis using assms by (simp add: lin_def algebra_simps)
qed

lemma next_word_start: "(s div 32 + 1) * 32 = s + (32 - s mod 32)" for s :: nat
  by presburger

lemma bm_op_head_mut:
  assumes op: "bm_mut op" and w: "walked op mp idx lo G P pages st" and at: "at_addr mp idx P st"
    and b: "l_bip st < BITS_PER_PAGE" and idx: "idx < mp"
  obtains st' where "bm_op_head op (32 * mp) st = (if BITS_PER_PAGE \<le> l_bip st' then NEXT_PAGE else GO_ON, st')"
    and "walked op mp idx lo G P pages st'" and "at_addr mp idx P st'" and "l_start st' = (l_start st div 32 + 1) * 32"
    and "l_bip st' + 32 \<le> BITS_PER_PAGE + 32 * mp"
proof -
  let ?k = "32 - l_bip st mod 32" and ?s = "l_start st"
  define st1 where "st1 = bm_bits_loop op ?k st"
  define st' where "st' = st1\<lparr>l_start := (?s div 32 + 1) * 32, l_bip := l_bip st1 + 32 * mp - 32\<rparr>"
  have k: "l_bip st div 32 * 32 + 31 + 1 - l_bip st = ?k"
    using div_mult_mod_eq [of "l_bip st" 32] by linarith
  have room: "l_bip st + ?k \<le> BITS_PER_PAGE" using b by (intro page_room) auto
  then have c: "chunk op ?k st st1" "l_bip st1 = l_bip st + ?k"
    using bm_bits_loop_chunk [OF op, of st ?k] w by (auto simp: walked_def st1_def)
  have m: "l_bip st mod 32 = ?s mod 32" by (rule at_addr_mod [OF at])
  have s': "(?s div 32 + 1) * 32 = ?s + ?k"
    unfolding m by (rule next_word_start)
  have "walked op mp idx lo G P pages st'"
    using at m s' by (intro walked_chunk [OF w c(1) _ _ room idx]) (auto simp: at_addr_def st'_def)
  moreover have "at_addr mp idx P st'"
    using at lin_next_word [of mp idx ?s] idx c(2) m by (simp add: at_addr_def st'_def) linarith
  moreover have "bm_op_head op (32 * mp) st = (if BITS_PER_PAGE \<le> l_bip st' then NEXT_PAGE else GO_ON, st')"
    using op k unfolding bm_mut_def bm_op_head_def Let_def
    by (elim disjE) (simp_all add: st'_def st1_def)
  moreover have "l_bip st' + 32 \<le> BITS_PER_PAGE + 32 * mp" using c(2) room idx by (simp add: st'_def)
  ultimately show thesis using that by (simp add: st'_def)
qed

text \<open>The rest of the range starts at a word boundary or lies within one word.\<close>

definition rest_ok :: "nat \<Rightarrow> bm_loop \<Rightarrow> bool" where
  "rest_ok end st \<longleftrightarrow> l_start st mod 32 = 0 \<or> end < l_start st div 32 * 32 + 31"

definition words_done ::
    "bitmap_operations \<Rightarrow> nat \<Rightarrow> nat \<Rightarrow> nat \<Rightarrow> (nat \<Rightarrow> bool) \<Rightarrow> nat \<Rightarrow> bm_page list \<Rightarrow> nat \<Rightarrow> bm_jump \<times> bm_loop \<Rightarrow> bool" where
  "words_done op mp idx lo G P pages end r \<longleftrightarrow>
     (case r of (j, st) \<Rightarrow> walked op mp idx lo G P pages st \<and> at_addr mp idx P st \<and> l_start st \<le> end + 1 \<and>
        (j = NEXT_PAGE \<and> BITS_PER_PAGE \<le> l_bip st \<and> l_bip st + 32 \<le> BITS_PER_PAGE + 32 * mp \<or>
         j = GO_ON \<and> l_bip st < BITS_PER_PAGE \<and> end < l_start st + 31 \<and> rest_ok end st))"

lemma bm_words_loop_mut:
  assumes "bm_mut op" and "walked op mp idx lo G P pages st" and "at_addr mp idx P st"
    and "l_bip st < BITS_PER_PAGE" and "idx < mp" and "rest_ok end st" and "l_start st \<le> end + 1"
  shows "words_done op mp idx lo G P pages end (bm_words_loop op (32 * mp) end st)"
  using assms
proof (induction op "32 * mp" "end" st rule: bm_words_loop.induct)
  case (1 op "end" st)
  note op = 1(2) and w = 1(3) and at = 1(4) and b = 1(5) and idx = 1(6) and al = 1(7) and le = 1(8)
  show ?case
  proof (cases "l_start st + 31 \<le> end")
    case False
    then show ?thesis using w at b le al by (simp add: words_done_def bm_words_loop.simps [of op _ "end" st])
  next
    case True
    then have s0: "l_start st mod 32 = 0" using al div_mult_mod_eq [of "l_start st" 32] by (simp add: rest_ok_def)
    then have b0: "l_bip st mod 32 = 0" using at_addr_mod [OF at] by simp
    have room: "l_bip st + 32 \<le> BITS_PER_PAGE" using b b0 by (intro page_room) simp_all
    then obtain st1 where step: "bm_op_word op st = (GO_ON, st1)" and c: "chunk op 32 st st1" "l_bip st1 = l_bip st"
      using bm_op_word_chunk [OF op b0] w by (metis walked_def)
    define st2 where "st2 = st1\<lparr>l_start := l_start st + 32, l_bip := l_bip st1 + 32 * mp\<rparr>"
    have w2: "walked op mp idx lo G P pages st2"
      using at s0 by (intro walked_chunk [OF w c(1) _ _ room idx]) (auto simp: at_addr_def st2_def)
    have "(l_start st div 32 + 1) * 32 = l_start st + 32" using next_word_start [of "l_start st"] s0 by simp
    then have at2: "at_addr mp idx P st2"
      using at lin_next_word [of mp idx "l_start st"] idx c(2) s0
      by (simp add: at_addr_def st2_def add.commute [of "l_start st"])
    have s2: "rest_ok end st2" "l_start st2 \<le> end + 1" using s0 True by (simp_all add: rest_ok_def st2_def)
    have unf: "bm_words_loop op (32 * mp) end st =
        (if BITS_PER_PAGE \<le> l_bip st2 then (NEXT_PAGE, st2) else bm_words_loop op (32 * mp) end st2)"
      using True step by (simp add: bm_words_loop.simps [of op _ "end" st] Let_def st2_def)
    show ?thesis
    proof (cases "BITS_PER_PAGE \<le> l_bip st2")
      case nxt: True
      have "l_bip st2 + 32 \<le> BITS_PER_PAGE + 32 * mp" using room c(2) by (simp add: st2_def)
      then show ?thesis using nxt unf w2 at2 s2 by (simp add: words_done_def)
    next
      case False
      have "words_done op mp idx lo G P pages end (bm_words_loop op (32 * mp) end st2)"
        by (rule 1(1) [OF True step [symmetric] refl st2_def False op w2 at2 _ idx s2]) (use False in simp)
      then show ?thesis using unf False by simp
    qed
  qed
qed

lemma rest_in_word:
  assumes "s \<le> e" and "e < s div 32 * 32 + (31 :: nat)"
  shows "s mod 32 + (e - s + 1) \<le> 32"
proof -
  obtain d where d: "e = s + d" using assms(1) le_Suc_ex by blast
  have "s div 32 * 32 + s mod 32 + d < s div 32 * 32 + 31" using assms(2) d by simp
  then have "s mod 32 + d < 31" by linarith
  then show ?thesis using d by simp
qed

lemma bm_op_tail_mut:
  assumes op: "bm_mut op" and w: "walked op mp idx lo G P pages st" and at: "at_addr mp idx P st"
    and b: "l_bip st < BITS_PER_PAGE" and idx: "idx < mp" and r: "rest_ok end st" and "l_start st \<le> end"
    and "end < l_start st + 31"
  shows "\<exists>st'. bm_op_tail op end st = (NEXT_PAGE, st') \<and> walked op mp idx lo G P pages st' \<and> l_start st' = end + 1"
proof -
  let ?k = "end - l_start st + 1"
  define st1 where "st1 = bm_bits_loop op ?k st"
  have "l_start st mod 32 + ?k \<le> 32"
    using r assms(7,8) rest_in_word [of "l_start st" "end"] by (auto simp: rest_ok_def)
  moreover from this have room: "l_bip st + ?k \<le> BITS_PER_PAGE"
    using b at_addr_mod [OF at] by (intro page_room) simp_all
  moreover from this have c: "chunk op ?k st st1"
    using bm_bits_loop_chunk [OF op, of st ?k] w by (auto simp: walked_def st1_def)
  ultimately have "walked op mp idx lo G P pages (st1\<lparr>l_start := end + 1\<rparr>)"
    using at assms(7) by (intro walked_chunk [OF w c _ _ room idx]) (auto simp: at_addr_def)
  then show ?thesis
    using op unfolding bm_mut_def bm_op_tail_def Let_def by (elim disjE) (auto simp: st1_def)
qed

lemma bm_op_page_go:
  assumes "\<not> (l_start st mod 32 \<noteq> 0 \<and> l_start st div 32 * 32 + 31 \<le> end \<or> op = BM_OP_TEST)"
  shows "bm_op_page op skip end st =
    (case bm_words_loop op skip end st of
       (GO_ON, st) \<Rightarrow> if end < l_start st then (NEXT_PAGE, st) else bm_op_tail op end st
     | r \<Rightarrow> r)"
  unfolding bm_op_page_def if_not_P [OF assms] by simp

lemma bm_op_page_mut:
  assumes op: "bm_mut op" and w: "walked op mp idx lo G P pages st" and at: "at_addr mp idx P st"
    and b: "l_bip st < BITS_PER_PAGE" and idx: "idx < mp" and le: "l_start st \<le> end"
  shows "\<exists>st'. bm_op_page op (32 * mp) end st = (NEXT_PAGE, st') \<and> walked op mp idx lo G P pages st' \<and>
    (l_start st' = end + 1 \<or> l_start st' \<le> end + 1 \<and> at_addr mp idx P st' \<and>
       BITS_PER_PAGE \<le> l_bip st' \<and> l_bip st' + 32 \<le> BITS_PER_PAGE + 32 * mp)"
proof -
  have rest: "\<exists>st'. (case bm_words_loop op (32 * mp) end st0 of
             (GO_ON, st) \<Rightarrow> if end < l_start st then (NEXT_PAGE, st) else bm_op_tail op end st
           | r \<Rightarrow> r) = (NEXT_PAGE, st') \<and> walked op mp idx lo G P pages st' \<and>
    (l_start st' = end + 1 \<or> l_start st' \<le> end + 1 \<and> at_addr mp idx P st' \<and>
       BITS_PER_PAGE \<le> l_bip st' \<and> l_bip st' + 32 \<le> BITS_PER_PAGE + 32 * mp)"
    if h: "walked op mp idx lo G P pages st0" "at_addr mp idx P st0" "l_bip st0 < BITS_PER_PAGE"
      "rest_ok end st0" "l_start st0 \<le> end + 1" for st0
  proof -
    obtain j st1 where l: "bm_words_loop op (32 * mp) end st0 = (j, st1)" by fastforce
    note d = bm_words_loop_mut [OF op h(1-3) idx h(4,5), unfolded l words_done_def, simplified]
    show ?thesis
    proof (cases "j = GO_ON \<and> l_start st1 \<le> end")
      case True
      then show ?thesis using l d bm_op_tail_mut [OF op _ _ _ idx, of lo G P pages st1 "end"] by auto
    next
      case False
      then show ?thesis using l d by auto
    qed
  qed
  have ne: "op \<noteq> BM_OP_TEST" using op by (auto simp: bm_mut_def)
  show ?thesis
  proof (cases "l_start st mod 32 \<noteq> 0 \<and> l_start st div 32 * 32 + 31 \<le> end")
    case True
    obtain st1 where hd: "bm_op_head op (32 * mp) st = (if BITS_PER_PAGE \<le> l_bip st1 then NEXT_PAGE else GO_ON, st1)"
      and h: "walked op mp idx lo G P pages st1" "at_addr mp idx P st1" "l_start st1 = (l_start st div 32 + 1) * 32"
        "l_bip st1 + 32 \<le> BITS_PER_PAGE + 32 * mp"
      by (rule bm_op_head_mut [OF op w at b idx])
    have s: "rest_ok end st1" "l_start st1 \<le> end + 1" using h(3) True by (simp_all add: rest_ok_def)
    show ?thesis
    proof (cases "BITS_PER_PAGE \<le> l_bip st1")
      case nxt: True
      then show ?thesis using True hd h s by (simp add: bm_op_page_def)
    next
      case False
      then show ?thesis using True hd rest [OF h(1,2) _ s] by (simp add: bm_op_page_def)
    qed
  next
    case False
    then have r: "rest_ok end st" by (auto simp: rest_ok_def)
    from False ne have "\<not> (l_start st mod 32 \<noteq> 0 \<and> l_start st div 32 * 32 + 31 \<le> end \<or> op = BM_OP_TEST)" by blast
    from bm_op_page_go [OF this] show ?thesis using rest [OF w at b r] le by simp
  qed
qed

text \<open>The pages all have their full size, and the range to walk lies within them.\<close>

definition pages_ok :: "bm_page list \<Rightarrow> bool" where
  "pages_ok pages \<longleftrightarrow> (\<forall>p \<in> set pages. 32 * length (page_words p) = BITS_PER_PAGE)"

definition loop_done ::
    "bitmap_operations \<Rightarrow> nat \<Rightarrow> nat \<Rightarrow> nat \<Rightarrow> (nat \<Rightarrow> bool) \<Rightarrow> nat \<Rightarrow> bm_page list \<Rightarrow> bm_jump \<times> bm_loop \<times> bm_page list \<Rightarrow> bool" where
  "loop_done op mp idx lo G end pages r \<longleftrightarrow>
     (case r of (j, st, pages') \<Rightarrow> j = GO_ON \<and> l_out st = [] \<and> pages_ok pages' \<and> length pages' = length pages \<and>
        (\<forall>a. page_bit pages' a = (if \<exists>i. lo \<le> i \<and> i < end + 1 \<and> a = lin mp idx i then newbit op (G a) else G a)) \<and>
        l_total st = card {i. lo \<le> i \<and> i < end + 1 \<and> counted op (G (lin mp idx i))})"

lemma page_bit_update:
  "P < length pages \<Longrightarrow> page_bit (pages[P := pg]) a = gbit pages P (page_words pg) a"
  by (simp add: page_bit_def gbit_def nth_list_update)

lemma bm_leave_page_eq:
  assumes "bm_mut op" and "op = BM_OP_COUNT \<longrightarrow> l_count st = 0"
  shows "\<exists>pg'. bm_leave_page op st pg = (st\<lparr>l_bip := l_bip st - BITS_PER_PAGE, l_total := l_total st + l_count st\<rparr>, pg') \<and>
    page_words pg' = page_words pg"
  using assms unfolding bm_mut_def
  by (elim disjE) (auto simp: bm_leave_page_def Let_def bm_set_page_need_writeout_def bm_set_page_lazy_writeout_def)

lemma bm_op_loop_mut:
  assumes "bm_mut op" and "pages_ok pages" and "idx < mp" and "32 * mp \<le> BITS_PER_PAGE"
    and "\<And>i. i \<le> end \<Longrightarrow> lin mp idx i < length pages * BITS_PER_PAGE"
    and "lo \<le> l_start st" and "l_start st \<le> end + 1" and "l_out st = []"
    and "l_start st \<le> end \<Longrightarrow> at_addr mp idx P st \<and> l_bip st < BITS_PER_PAGE"
    and "\<And>a. page_bit pages a = (if \<exists>i. lo \<le> i \<and> i < l_start st \<and> a = lin mp idx i then newbit op (G a) else G a)"
    and "l_total st = card {i. lo \<le> i \<and> i < l_start st \<and> counted op (G (lin mp idx i))}"
  shows "loop_done op mp idx lo G end pages (bm_op_loop op (32 * mp) end P st pages)"
  using assms
proof (induction op "32 * mp" "end" P st pages rule: bm_op_loop.induct)
  case (1 op "end" P st pages)
  note op = 1(2) and ok = 1(3) and idx = 1(4) and mp = 1(5) and bnd = 1(6) and lo = 1(7) and le = 1(8)
    and out = 1(9) and at = 1(10) and G = 1(11) and tot = 1(12)
  show ?case
  proof (cases "l_start st \<le> end")
    case False
    then have "l_start st = end + 1" using le by simp
    then show ?thesis
      using False G tot ok out by (simp add: bm_op_loop.simps [of op _ "end" P st pages] loop_done_def)
  next
    case True
    note at = at [OF True]
    have "lin mp idx (l_start st) div BITS_PER_PAGE = P"
      using at unfolding at_addr_def by (metis bpp add.commute div_less div_mult_self3 mult_is_0 numeral_neq_zero add_0_right)
    then have P: "P < length pages" using bnd [OF True] by (metis less_mult_imp_div_less)
    define st0 where "st0 = st\<lparr>l_count := 0, l_words := page_words (pages ! P)\<rparr>"
    have "gbit pages P (page_words (pages ! P)) = page_bit pages" by (simp add: gbit_def page_bit_def fun_eq_iff)
    then have w0: "walked op mp idx lo G P pages st0"
      using ok P lo out G tot by (simp add: walked_def st0_def pages_ok_def)
    obtain st1 where page: "bm_op_page op (32 * mp) end st0 = (NEXT_PAGE, st1)"
      and w1: "walked op mp idx lo G P pages st1"
      and nxt: "l_start st1 = end + 1 \<or> l_start st1 \<le> end + 1 \<and> at_addr mp idx P st1 \<and>
        BITS_PER_PAGE \<le> l_bip st1 \<and> l_bip st1 + 32 \<le> BITS_PER_PAGE + 32 * mp"
      using bm_op_page_mut [OF op w0 _ _ idx] at True by (auto simp: st0_def at_addr_def)
    obtain pg where leave: "bm_leave_page op st1 ((pages ! P)\<lparr>page_words := l_words st1\<rparr>) =
        (st1\<lparr>l_bip := l_bip st1 - BITS_PER_PAGE, l_total := l_total st1 + l_count st1\<rparr>, pg)"
        and pg: "page_words pg = l_words st1"
      using bm_leave_page_eq [OF op, of st1] w1 by (fastforce simp: walked_def)
    define st2 where "st2 = st1\<lparr>l_bip := l_bip st1 - BITS_PER_PAGE, l_total := l_total st1 + l_count st1\<rparr>"
    have "loop_done op mp idx lo G end (pages[P := pg])
        (bm_op_loop op (32 * mp) end (P + 1) st2 (pages[P := pg]))"
    proof (rule 1(1) [OF True page [unfolded st0_def, symmetric] refl leave [symmetric, folded st2_def] op])
      show "pages_ok (pages[P := pg])"
        using ok w1 pg by (auto simp: pages_ok_def walked_def dest!: subsetD [OF set_update_subset_insert])
      show "l_start st2 \<le> end \<Longrightarrow> at_addr mp idx (P + 1) st2 \<and> l_bip st2 < BITS_PER_PAGE"
        using nxt mp by (auto simp: st2_def at_addr_def)
      show "page_bit (pages[P := pg]) a =
          (if \<exists>i. lo \<le> i \<and> i < l_start st2 \<and> a = lin mp idx i then newbit op (G a) else G a)" for a
        using w1 P pg by (simp add: page_bit_update walked_def st2_def)
    qed (use idx mp bnd w1 nxt in \<open>auto simp: st2_def walked_def add.commute\<close>)
    then show ?thesis
      using True page leave by (simp add: bm_op_loop.simps [of op _ "end" P st pages] loop_done_def
        flip: st0_def st2_def)
  qed
qed

section \<open>The shape of a bitmap\<close>

definition bm_shape :: "bsr_bitmap \<Rightarrow> bool" where
  "bm_shape bm \<longleftrightarrow> 0 < bm_max_peers bm \<and> 32 * bm_max_peers bm \<le> BITS_PER_PAGE \<and> pages_ok (bm_pages bm) \<and>
     (bm_bits bm + 31) div 32 * bm_max_peers bm \<le> 1024 * length (bm_pages bm) \<and>
     bm_max_peers bm \<le> length (bm_set bm)"

definition bm_weight :: "bsr_bitmap \<Rightarrow> nat \<Rightarrow> nat" where
  "bm_weight bm idx = card {i. i < bm_bits bm \<and> bm_view bm idx i}"

definition bm_wf :: "bsr_bitmap \<Rightarrow> bool" where
  "bm_wf bm \<longleftrightarrow> bm_shape bm \<and> (\<forall>idx < bm_max_peers bm. bm_set bm ! idx = of_nat (bm_weight bm idx))"

lemma lin_bound:
  assumes "bm_shape bm" and "idx < bm_max_peers bm" and "i < bm_bits bm"
  shows "lin (bm_max_peers bm) idx i < length (bm_pages bm) * BITS_PER_PAGE"
proof -
  let ?mp = "bm_max_peers bm"
  have "i div 32 + 1 \<le> (bm_bits bm + 31) div 32" using assms(3) by simp
  then have "(i div 32 + 1) * ?mp \<le> 1024 * length (bm_pages bm)"
    using assms(1) by (meson bm_shape_def le_trans mult_le_mono1)
  then have "i div 32 * ?mp + idx + 1 \<le> 1024 * length (bm_pages bm)" using assms(2) by (simp add: algebra_simps)
  then have "32 * (i div 32 * ?mp + idx) + 32 \<le> length (bm_pages bm) * BITS_PER_PAGE" by (simp add: bpp)
  then show ?thesis using mod_less_divisor [of 32 i] unfolding lin_def by linarith
qed

lemma start_addr:
  "word32_to_page w * BITS_PER_PAGE + (word32_in_page w * 32 + r) = 32 * w + r"
  "r < 32 \<Longrightarrow> word32_in_page w * 32 + r < BITS_PER_PAGE"
proof -
  have "w = 1024 * (w div 1024) + w mod 1024" "w mod 1024 < 1024" by simp_all
  then have *: "32 * w = 32 * 1024 * (w div 1024) + 32 * (w mod 1024)" and **: "w mod 1024 \<le> 1023" by linarith+
  show "word32_to_page w * BITS_PER_PAGE + (word32_in_page w * 32 + r) = 32 * w + r"
    using * by (simp add: word32_to_page_def word32_in_page_def PAGE_SHIFT_def bpp)
  show "r < 32 \<Longrightarrow> word32_in_page w * 32 + r < BITS_PER_PAGE"
    using ** by (simp add: word32_in_page_def PAGE_SHIFT_def bpp)
qed

definition clip :: "bsr_bitmap \<Rightarrow> nat \<Rightarrow> nat" where
  "clip bm e = (if bm_bits bm \<le> e then bm_bits bm - 1 else e)"

lemma bm_op_loop_empty: "e < l_start st \<Longrightarrow> bm_op_loop op skip e P st pages = (GO_ON, st, pages)"
  by (simp add: bm_op_loop.simps)

lemma bm_op4_mut:
  fixes start e :: nat
  assumes shape: "bm_shape bm" and idx: "idx < bm_max_peers bm" and op: "bm_mut op" and bits: "0 < bm_bits bm"
  defines "n \<equiv> card {i. start \<le> i \<and> i \<le> e \<and> i < bm_bits bm \<and> counted op (bm_view bm idx i)}"
  obtains bm' where "bm_op4 idx start e op buffer bm = Some (n, [], bm')" and "bm_shape bm'"
    and "bm_bits bm' = bm_bits bm" and "bm_max_peers bm' = bm_max_peers bm"
    and "length (bm_pages bm') = length (bm_pages bm)"
    and "\<And>idx' i. idx' < bm_max_peers bm \<Longrightarrow> bm_view bm' idx' i =
      (if idx' = idx \<and> start \<le> i \<and> i \<le> e \<and> i < bm_bits bm then newbit op (bm_view bm idx' i) else bm_view bm idx' i)"
    and "bm_set bm' = (if op = BM_OP_SET then (bm_set bm)[idx := bm_set bm ! idx + of_nat n]
      else if op = BM_OP_CLEAR then (bm_set bm)[idx := bm_set bm ! idx - of_nat n] else bm_set bm)"
proof -
  let ?mp = "bm_max_peers bm" and ?e = "clip bm e" and ?pages = "bm_pages bm"
  let ?w = "interleaved_word32 bm idx start"
  define st where "st = \<lparr>l_start = start, l_bip = word32_in_page ?w * 32 + start mod 32, l_count = 0, l_total = 0,
    l_buffer = buffer, l_out = [], l_words = []\<rparr>"
  have rng: "i < ?e + 1 \<longleftrightarrow> i \<le> e \<and> i < bm_bits bm" for i using bits by (auto simp: clip_def)
  have fin: "loop_done op ?mp idx start (page_bit ?pages) ?e ?pages
      (bm_op_loop op (32 * ?mp) ?e (word32_to_page ?w) st ?pages)"
  proof (cases "start \<le> ?e")
    case True
    show ?thesis
    proof (rule bm_op_loop_mut [OF op _ idx])
      show "pages_ok ?pages" "32 * ?mp \<le> BITS_PER_PAGE" using shape by (simp_all add: bm_shape_def)
      show "lin ?mp idx i < length ?pages * BITS_PER_PAGE" if "i \<le> ?e" for i
        using lin_bound [OF shape idx] rng [of i] that by simp
      show "at_addr ?mp idx (word32_to_page ?w) st \<and> l_bip st < BITS_PER_PAGE"
        using start_addr(1) [of ?w "start mod 32"] start_addr(2) [of "start mod 32" ?w] by (simp add: at_addr_def st_def lin_def interleaved_word32_def)
    qed (use True in \<open>auto simp: st_def\<close>)
  next
    case False
    then show ?thesis
      using shape bm_op_loop_empty [of ?e st op "32 * ?mp" "word32_to_page ?w" ?pages]
      by (auto simp: st_def loop_done_def bm_shape_def)
  qed
  obtain j st1 pages1 where r: "bm_op_loop op (32 * ?mp) ?e (word32_to_page ?w) st ?pages = (j, st1, pages1)"
    by (metis prod.exhaust)
  note d = fin [unfolded r loop_done_def, simplified]
  have tot: "l_total st1 = n" using d rng by (simp add: n_def bm_view_def less_Suc_eq_le [symmetric])
  define bm' where "bm' = bm\<lparr>bm_pages := pages1, bm_set :=
    (if op = BM_OP_SET then (bm_set bm)[idx := bm_set bm ! idx + of_nat n]
      else if op = BM_OP_CLEAR then (bm_set bm)[idx := bm_set bm ! idx - of_nat n] else bm_set bm)\<rparr>"
  show thesis
  proof (rule that [of bm'])
    show "bm_op4 idx start e op buffer bm = Some (n, [], bm')"
      using op r d tot unfolding bm_op4_def Let_def bm_mut_def
      by (elim disjE) (simp_all add: bm'_def flip: st_def clip_def)
    show "bm_shape bm'" using shape d by (auto simp: bm_shape_def bm'_def)
    show "bm_view bm' idx' i = (if idx' = idx \<and> start \<le> i \<and> i \<le> e \<and> i < bm_bits bm
        then newbit op (bm_view bm idx' i) else bm_view bm idx' i)" if "idx' < ?mp" for idx' i
    proof -
      have "(\<exists>k. start \<le> k \<and> k < ?e + 1 \<and> lin ?mp idx' i = lin ?mp idx k) \<longleftrightarrow>
          idx' = idx \<and> start \<le> i \<and> i < ?e + 1"
        using lin_inj [OF _ that idx] by blast
      then show ?thesis using d rng [of i] by (simp add: bm_view_def bm'_def)
    qed
  qed (use d in \<open>simp_all add: bm'_def\<close>)
qed

end
