(* ===== verification/Bitmap_Find.thy ===== *)
theory Bitmap_Find
  imports Bitmap_Lemmas
begin

text \<open>
  The operations that search: \<open>bm_op4\<close> returns the first bit of the range with the value sought, and
  leaves the bitmap as it is.
\<close>

section \<open>One section of the walk\<close>

definition bm_seek :: "bitmap_operations \<Rightarrow> bool" where
  "bm_seek op \<longleftrightarrow> op \<in> {BM_OP_FIND_BIT, BM_OP_FIND_ZERO_BIT, BM_OP_RANGE_FIND_BIT, BM_OP_RANGE_FIND_ZERO_BIT}"

definition sought :: "bitmap_operations \<Rightarrow> bool" where
  "sought op \<longleftrightarrow> op = BM_OP_FIND_BIT \<or> op = BM_OP_RANGE_FIND_BIT"

lemma bm_seek_cases:
  "bm_seek op \<Longrightarrow> (op = BM_OP_FIND_BIT \<Longrightarrow> P) \<Longrightarrow> (op = BM_OP_FIND_ZERO_BIT \<Longrightarrow> P) \<Longrightarrow>
    (op = BM_OP_RANGE_FIND_BIT \<Longrightarrow> P) \<Longrightarrow> (op = BM_OP_RANGE_FIND_ZERO_BIT \<Longrightarrow> P) \<Longrightarrow> P"
  by (auto simp: bm_seek_def)

text \<open>\<open>missed\<close>: no bit of the range has the value sought; \<open>found_at\<close>: the first one that has it.\<close>

definition missed :: "(nat \<Rightarrow> bool) \<Rightarrow> bool \<Rightarrow> nat \<Rightarrow> nat \<Rightarrow> bool" where
  "missed f v lo hi \<longleftrightarrow> (\<forall>i. lo \<le> i \<and> i < hi \<longrightarrow> f i \<noteq> v)"

definition found_at :: "(nat \<Rightarrow> bool) \<Rightarrow> bool \<Rightarrow> nat \<Rightarrow> nat \<Rightarrow> nat \<Rightarrow> bool" where
  "found_at f v lo end i \<longleftrightarrow> lo \<le> i \<and> i \<le> end \<and> f i = v \<and> missed f v lo i"

lemma missed_empty [simp]: "missed f v lo lo"
  by (auto simp: missed_def)

lemma missed_append: "missed f v lo m \<Longrightarrow> missed f v m hi \<Longrightarrow> missed f v lo hi"
  unfolding missed_def by (meson not_le)

lemma scan_bit_le_spec:
  "off \<le> scan_bit_le v ws n off \<and> scan_bit_le v ws n off \<le> off + n \<and>
   missed (\<lambda>k. test_bit_le k ws) v off (scan_bit_le v ws n off) \<and>
   (scan_bit_le v ws n off < off + n \<longrightarrow> test_bit_le (scan_bit_le v ws n off) ws = v)"
proof (induction n arbitrary: off)
  case (Suc n)
  have "missed (\<lambda>k. test_bit_le k ws) v off (off + 1)" if "test_bit_le off ws \<noteq> v"
    using that by (auto simp: missed_def le_antisym Suc_leI dest: le_less_Suc_eq [THEN iffD1, rotated])
  then show ?case using Suc [of "off + 1"] missed_append [of _ v off "off + 1"] by (auto simp: not_le)
qed simp

lemma bm_find_scan: "bm_find op ws (off + n) off = scan_bit_le (sought op) ws n off"
  by (simp add: bm_find_def sought_def find_next_bit_le_def find_next_zero_bit_le_def)

definition seek_inv ::
    "bool \<Rightarrow> nat \<Rightarrow> nat \<Rightarrow> nat \<Rightarrow> bm_page list \<Rightarrow> nat \<Rightarrow> bm_loop \<Rightarrow> bool" where
  "seek_inv v mp idx lo pages P st \<longleftrightarrow> l_words st = page_words (pages ! P) \<and> at_addr mp idx P st \<and> lo \<le> l_start st \<and>
     missed (\<lambda>i. page_bit pages (lin mp idx i)) v lo (l_start st)"

lemma seek_section:
  fixes n :: nat
  assumes s: "seek_inv (sought op) mp idx lo pages P st" and room: "l_bip st + n \<le> BITS_PER_PAGE"
    and word: "l_start st mod 32 + n \<le> 32"
  defines "r \<equiv> bm_find op (l_words st) (l_bip st + n) (l_bip st)" and "f \<equiv> \<lambda>i. page_bit pages (lin mp idx i)"
  shows "l_bip st \<le> r" and "r < l_bip st + n \<Longrightarrow> found_at f (sought op) lo (l_start st + n - 1) (l_start st + r - l_bip st)"
    and "\<not> r < l_bip st + n \<Longrightarrow> missed f (sought op) lo (l_start st + n)"
proof -
  let ?b = "l_bip st" and ?s = "l_start st" and ?v = "sought op"
  have f: "f (?s + j) = test_bit_le (?b + j) (l_words st)" if "j < n" for j
  proof -
    have "lin mp idx (?s + j) = P * BITS_PER_PAGE + (?b + j)"
      using lin_add [of ?s j mp idx] that word s by (simp add: seek_inv_def at_addr_def)
    moreover have "?b + j < BITS_PER_PAGE" using that room by simp
    ultimately show ?thesis using s by (simp add: f_def page_bit_def seek_inv_def)
  qed
  note sc = scan_bit_le_spec [of ?b ?v "l_words st" n, folded bm_find_scan, folded r_def]
  show b: "?b \<le> r" using sc by simp
  have lo: "lo \<le> ?s" "missed f ?v lo ?s" using s by (simp_all add: seek_inv_def f_def)
  have m: "missed f ?v ?s (?s + (r - ?b))"
    unfolding missed_def
  proof (intro allI impI)
    fix i assume "?s \<le> i \<and> i < ?s + (r - ?b)"
    then obtain j where "i = ?s + j" "?b + j < r" by (metis add.commute le_Suc_ex nat_add_left_cancel_less less_diff_conv)
    then show "f i \<noteq> ?v" using sc f [of j] by (auto simp: missed_def)
  qed
  note m' = missed_append [OF lo(2) m]
  show "found_at f ?v lo (?s + n - 1) (?s + r - ?b)" if "r < ?b + n"
  proof -
    have "r - ?b < n" using that b by linarith
    then have "f (?s + (r - ?b)) = ?v" using f [of "r - ?b"] sc that by simp
    moreover have e: "?s + r - ?b = ?s + (r - ?b)" using b by simp
    moreover have "lo \<le> ?s + (r - ?b)" "?s + (r - ?b) \<le> ?s + n - 1" using lo(1) \<open>r - ?b < n\<close> by linarith+
    ultimately show ?thesis using m' unfolding found_at_def e by blast
  qed
  show "missed f ?v lo (?s + n)" if "\<not> r < ?b + n"
    using that sc m' by (simp add: not_less le_antisym [of r])
qed

section \<open>A page\<close>

text \<open>
  What a part of the walk on page \<open>P\<close> ends with: a hit, or a miss up to the position it reached.
\<close>

definition seek_pos :: "bm_loop \<Rightarrow> nat" where
  "seek_pos st = l_start st + l_count st - l_bip st"

definition hit :: "bool \<Rightarrow> nat \<Rightarrow> nat \<Rightarrow> nat \<Rightarrow> bm_page list \<Rightarrow> nat \<Rightarrow> nat \<Rightarrow> bm_jump \<times> bm_loop \<Rightarrow> bool" where
  "hit v mp idx lo pages P end r \<longleftrightarrow> (case r of (j, st) \<Rightarrow> j = FOUND \<and> l_words st = page_words (pages ! P) \<and> l_out st = [] \<and>
     found_at (\<lambda>i. page_bit pages (lin mp idx i)) v lo end (seek_pos st))"

definition off_page :: "bool \<Rightarrow> nat \<Rightarrow> nat \<Rightarrow> nat \<Rightarrow> bm_page list \<Rightarrow> nat \<Rightarrow> nat \<Rightarrow> bm_jump \<times> bm_loop \<Rightarrow> bool" where
  "off_page v mp idx lo pages P end r \<longleftrightarrow> (case r of (j, st) \<Rightarrow> j = NEXT_PAGE \<and> l_out st = [] \<and>
     l_words st = page_words (pages ! P) \<and> lo \<le> l_start st \<and>
     missed (\<lambda>i. page_bit pages (lin mp idx i)) v lo (l_start st) \<and>
     (l_start st = end + 1 \<or> l_start st \<le> end + 1 \<and> at_addr mp idx P st \<and>
        BITS_PER_PAGE \<le> l_bip st \<and> l_bip st + 32 \<le> BITS_PER_PAGE + 32 * mp))"

lemma found_at_mono: "found_at f v lo e i \<Longrightarrow> e \<le> e' \<Longrightarrow> found_at f v lo e' i"
  by (auto simp: found_at_def)

lemma bm_op_head_seek:
  assumes op: "bm_seek op" and s: "seek_inv (sought op) mp idx lo pages P st" and o: "l_out st = []"
    and b: "l_bip st < BITS_PER_PAGE" and idx: "idx < mp" and le: "l_start st div 32 * 32 + 31 \<le> end"
  shows "hit (sought op) mp idx lo pages P end (bm_op_head op (32 * mp) st) \<or>
    (\<exists>st'. bm_op_head op (32 * mp) st = (if BITS_PER_PAGE \<le> l_bip st' then NEXT_PAGE else GO_ON, st') \<and>
      seek_inv (sought op) mp idx lo pages P st' \<and> l_out st' = [] \<and> l_start st' = (l_start st div 32 + 1) * 32 \<and>
      l_bip st' + 32 \<le> BITS_PER_PAGE + 32 * mp)"
proof -
  let ?k = "32 - l_bip st mod 32" and ?s = "l_start st"
  have at: "at_addr mp idx P st" using s by (simp add: seek_inv_def)
  have k: "l_bip st div 32 * 32 + 31 + 1 = l_bip st + ?k"
    using div_mult_mod_eq [of "l_bip st" 32] by linarith
  have room: "l_bip st + ?k \<le> BITS_PER_PAGE" using b by (intro page_room) auto
  have m: "l_bip st mod 32 = ?s mod 32" by (rule at_addr_mod [OF at])
  have s': "(?s div 32 + 1) * 32 = ?s + ?k" unfolding m by (rule next_word_start)
  define r where "r = bm_find op (l_words st) (l_bip st + ?k) (l_bip st)"
  define q where "q = l_bip st div 32 * 32 + 31 + 1"
  define st' where "st' = st\<lparr>l_count := r, l_start := ?s div 32 * 32 + 31 + 1, l_bip := q + 32 * mp - 32\<rparr>"
  have st': "l_start st' = ?s + ?k" "l_bip st' = l_bip st + ?k + 32 * mp - 32" "l_words st' = l_words st" "l_out st' = l_out st"
    using s' k by (simp_all add: st'_def q_def)
  have eq: "bm_op_head op (32 * mp) st = (if r < l_bip st + ?k then (FOUND, st\<lparr>l_count := r\<rparr>)
      else (if BITS_PER_PAGE \<le> l_bip st' then NEXT_PAGE else GO_ON, st'))"
    unfolding bm_op_head_def Let_def r_def st'_def k [symmetric] q_def
    using op by (rule bm_seek_cases) simp_all
  have word: "?s mod 32 + ?k \<le> 32" using m by simp
  note sec = seek_section [OF s room word, folded r_def]
  show ?thesis
  proof (cases "r < l_bip st + ?k")
    case True
    have "?s + ?k - 1 \<le> end" using le s' by simp
    then have "hit (sought op) mp idx lo pages P end (FOUND, st\<lparr>l_count := r\<rparr>)"
      using found_at_mono [OF sec(2) [OF True]] s o by (simp add: hit_def seek_pos_def seek_inv_def)
    then show ?thesis using eq True by simp
  next
    case False
    have "at_addr mp idx P st'"
      using at lin_next_word [of mp idx ?s] idx m s' by (simp add: at_addr_def st') linarith
    then have "seek_inv (sought op) mp idx lo pages P st'"
      using s sec(3) [OF False] trans_le_add1 [of lo ?s ?k] unfolding seek_inv_def st' by simp
    moreover have "l_bip st' + 32 \<le> BITS_PER_PAGE + 32 * mp" using room idx by (simp add: st')
    ultimately show ?thesis using eq False o s' by (intro disjI2 exI [of _ st']) (simp add: st')
  qed
qed

lemma bm_words_loop_seek:
  assumes "bm_seek op" and "seek_inv (sought op) mp idx lo pages P st" and "l_out st = []"
    and "l_bip st < BITS_PER_PAGE" and "idx < mp" and "rest_ok end st" and "l_start st \<le> end + 1"
  shows "hit (sought op) mp idx lo pages P end (bm_words_loop op (32 * mp) end st) \<or>
    off_page (sought op) mp idx lo pages P end (bm_words_loop op (32 * mp) end st) \<or>
    (\<exists>st'. bm_words_loop op (32 * mp) end st = (GO_ON, st') \<and> seek_inv (sought op) mp idx lo pages P st' \<and>
      l_out st' = [] \<and> l_start st' \<le> end + 1 \<and> l_bip st' < BITS_PER_PAGE \<and> end < l_start st' + 31 \<and> rest_ok end st')"
  using assms
proof (induction op "32 * mp" "end" st rule: bm_words_loop.induct)
  case (1 op "end" st)
  note op = 1(2) and s = 1(3) and o = 1(4) and b = 1(5) and idx = 1(6) and al = 1(7) and le = 1(8)
  have at: "at_addr mp idx P st" using s by (simp add: seek_inv_def)
  show ?case
  proof (cases "l_start st + 31 \<le> end")
    case False
    then show ?thesis using s o b le al by (simp add: bm_words_loop.simps [of op _ "end" st])
  next
    case True
    then have s0: "l_start st mod 32 = 0" using al div_mult_mod_eq [of "l_start st" 32] by (simp add: rest_ok_def)
    then have b0: "l_bip st mod 32 = 0" using at_addr_mod [OF at] by simp
    have room: "l_bip st + 32 \<le> BITS_PER_PAGE" using b b0 by (intro page_room) simp_all
    define r where "r = bm_find op (l_words st) (l_bip st + 32) (l_bip st)"
    have step: "bm_op_word op st = (if r < l_bip st + 32 then FOUND else GO_ON, st\<lparr>l_count := r\<rparr>)"
      using op by (rule bm_seek_cases) (simp_all add: bm_op_word_def Let_def r_def)
    have word: "l_start st mod 32 + 32 \<le> 32" using s0 by simp
    note sec = seek_section [OF s room word, folded r_def]
    show ?thesis
    proof (cases "r < l_bip st + 32")
      case hit: True
      have "found_at (\<lambda>i. page_bit pages (lin mp idx i)) (sought op) lo end (l_start st + r - l_bip st)"
        by (rule found_at_mono [OF sec(2) [OF hit]]) (use True in simp)
      then show ?thesis using True step hit s o
        by (simp add: bm_words_loop.simps [of op _ "end" st] hit_def seek_pos_def seek_inv_def)
    next
      case no: False
      define st2 where "st2 = st\<lparr>l_count := r, l_start := l_start st + 32, l_bip := l_bip st + 32 * mp\<rparr>"
      have "(l_start st div 32 + 1) * 32 = l_start st + 32" using next_word_start [of "l_start st"] s0 by simp
      then have "at_addr mp idx P st2"
        using at lin_next_word [of mp idx "l_start st"] idx s0
        by (simp add: at_addr_def st2_def add.commute [of "l_start st"])
      then have s2: "seek_inv (sought op) mp idx lo pages P st2"
        using s sec(3) [OF no] by (simp add: seek_inv_def st2_def)
      have r2: "rest_ok end st2" "l_start st2 \<le> end + 1" "l_out st2 = []"
        using s0 True o by (simp_all add: rest_ok_def st2_def)
      have unf: "bm_words_loop op (32 * mp) end st =
          (if BITS_PER_PAGE \<le> l_bip st2 then (NEXT_PAGE, st2) else bm_words_loop op (32 * mp) end st2)"
        using True step no by (simp add: bm_words_loop.simps [of op _ "end" st] Let_def st2_def)
      show ?thesis
      proof (cases "BITS_PER_PAGE \<le> l_bip st2")
        case nxt: True
        have "l_bip st2 + 32 \<le> BITS_PER_PAGE + 32 * mp" using room by (simp add: st2_def)
        then show ?thesis using nxt unf s2 r2 by (simp add: off_page_def seek_inv_def)
      next
        case False
        have go: "(GO_ON, st\<lparr>l_count := r\<rparr>) = bm_op_word op st" using step no by simp
        have "st2 = st\<lparr>l_count := r, l_start := l_start st + 32, l_bip := l_bip (st\<lparr>l_count := r\<rparr>) + 32 * mp\<rparr>"
          by (simp add: st2_def)
        from 1(1) [OF True go refl this False op s2 r2(3) _ idx r2(1,2)] False unf show ?thesis by simp
      qed
    qed
  qed
qed

lemma bm_op_tail_seek:
  assumes op: "bm_seek op" and s: "seek_inv (sought op) mp idx lo pages P st" and o: "l_out st = []"
    and b: "l_bip st < BITS_PER_PAGE" and idx: "idx < mp" and r: "rest_ok end st" and le: "l_start st \<le> end"
    and lt: "end < l_start st + 31"
  shows "hit (sought op) mp idx lo pages P end (bm_op_tail op end st) \<or>
    off_page (sought op) mp idx lo pages P end (bm_op_tail op end st)"
proof -
  let ?k = "end - l_start st + 1"
  have at: "at_addr mp idx P st" using s by (simp add: seek_inv_def)
  have word: "l_start st mod 32 + ?k \<le> 32"
    using r le lt rest_in_word [of "l_start st" "end"] by (auto simp: rest_ok_def)
  then have room: "l_bip st + ?k \<le> BITS_PER_PAGE"
    using b at_addr_mod [OF at] by (intro page_room) simp_all
  define q where "q = bm_find op (l_words st) (l_bip st + ?k) (l_bip st)"
  have eq: "bm_op_tail op end st = (if q < l_bip st + ?k then (FOUND, st\<lparr>l_count := q\<rparr>)
      else (NEXT_PAGE, st\<lparr>l_count := q, l_start := end + 1\<rparr>))"
    unfolding bm_op_tail_def Let_def q_def using op by (rule bm_seek_cases) simp_all
  have e: "l_start st + ?k = end + 1" "l_start st + ?k - 1 = end" using le by simp_all
  note sec = seek_section [OF s room word, folded q_def, unfolded e]
  show ?thesis
  proof (cases "q < l_bip st + ?k")
    case True
    then show ?thesis using eq sec(2) s o by (simp add: hit_def seek_pos_def seek_inv_def)
  next
    case False
    then show ?thesis using eq sec(3) s o le by (simp add: off_page_def seek_inv_def)
  qed
qed

lemma bm_op_page_seek:
  assumes op: "bm_seek op" and s: "seek_inv (sought op) mp idx lo pages P st" and o: "l_out st = []"
    and b: "l_bip st < BITS_PER_PAGE" and idx: "idx < mp" and le: "l_start st \<le> end"
  shows "hit (sought op) mp idx lo pages P end (bm_op_page op (32 * mp) end st) \<or>
    off_page (sought op) mp idx lo pages P end (bm_op_page op (32 * mp) end st)"
proof -
  let ?res = "\<lambda>r. hit (sought op) mp idx lo pages P end r \<or> off_page (sought op) mp idx lo pages P end r"
  have rest: "?res (case bm_words_loop op (32 * mp) end st0 of
             (GO_ON, st) \<Rightarrow> if end < l_start st then (NEXT_PAGE, st) else bm_op_tail op end st
           | r \<Rightarrow> r)"
    if h: "seek_inv (sought op) mp idx lo pages P st0" "l_out st0 = []" "l_bip st0 < BITS_PER_PAGE"
      "rest_ok end st0" "l_start st0 \<le> end + 1" for st0
  proof -
    obtain j st1 where l: "bm_words_loop op (32 * mp) end st0 = (j, st1)" by fastforce
    note d = bm_words_loop_seek [OF op h(1-3) idx h(4,5), unfolded l]
    show ?thesis
    proof (cases "j = GO_ON \<and> l_start st1 \<le> end")
      case True
      then show ?thesis using l d bm_op_tail_seek [OF op _ _ _ idx, of lo pages P st1 "end"]
        by (auto simp: hit_def off_page_def)
    next
      case False
      then show ?thesis using l d by (auto simp: hit_def off_page_def seek_inv_def)
    qed
  qed
  have ne: "op \<noteq> BM_OP_TEST" using op by (auto simp: bm_seek_def)
  show ?thesis
  proof (cases "l_start st mod 32 \<noteq> 0 \<and> l_start st div 32 * 32 + 31 \<le> end")
    case True
    from bm_op_head_seek [OF op s o b idx] True consider
      (hit) "hit (sought op) mp idx lo pages P end (bm_op_head op (32 * mp) st)" |
      (go) st1 where "bm_op_head op (32 * mp) st = (if BITS_PER_PAGE \<le> l_bip st1 then NEXT_PAGE else GO_ON, st1)"
        "seek_inv (sought op) mp idx lo pages P st1" "l_out st1 = []" "l_start st1 = (l_start st div 32 + 1) * 32"
        "l_bip st1 + 32 \<le> BITS_PER_PAGE + 32 * mp" by blast
    then show ?thesis
    proof cases
      case hit
      then show ?thesis using True by (cases "bm_op_head op (32 * mp) st") (auto simp: bm_op_page_def hit_def)
    next
      case go
      have r: "rest_ok end st1" "l_start st1 \<le> end + 1" using go(4) True by (simp_all add: rest_ok_def)
      show ?thesis
      proof (cases "BITS_PER_PAGE \<le> l_bip st1")
        case nxt: True
        then have "off_page (sought op) mp idx lo pages P end (NEXT_PAGE, st1)"
          using go(2,3,5) r(2) by (simp add: off_page_def seek_inv_def)
        then show ?thesis using True go(1) nxt by (simp add: bm_op_page_def)
      next
        case False
        then show ?thesis using True go(1) rest [OF go(2,3) _ r] by (simp add: bm_op_page_def)
      qed
    qed
  next
    case False
    then have r: "rest_ok end st" by (auto simp: rest_ok_def)
    from False ne have "\<not> (l_start st mod 32 \<noteq> 0 \<and> l_start st div 32 * 32 + 31 \<le> end \<or> op = BM_OP_TEST)" by blast
    from bm_op_page_go [OF this] show ?thesis using rest [OF s o b r] le by simp
  qed
qed

section \<open>The search\<close>

lemma page_write_back: "P < length pages \<Longrightarrow> ws = page_words (pages ! P) \<Longrightarrow>
    pages[P := (pages ! P)\<lparr>page_words := ws\<rparr>] = pages"
  by (simp add: list_update_same_conv)

lemma bm_leave_page_seek: "bm_seek op \<Longrightarrow> bm_leave_page op st pg = (st\<lparr>l_bip := l_bip st - BITS_PER_PAGE\<rparr>, pg)"
  by (erule bm_seek_cases) (simp_all add: bm_leave_page_def Let_def)

lemma addr_page: "at_addr mp idx P st \<Longrightarrow> l_bip st < BITS_PER_PAGE \<Longrightarrow>
    lin mp idx (l_start st) < n * BITS_PER_PAGE \<Longrightarrow> P < n"
  unfolding at_addr_def bpp by (metis add_lessD1 mult_less_cancel2)

lemma bm_op_loop_seek:
  assumes "bm_seek op" and "idx < mp" and "32 * mp \<le> BITS_PER_PAGE"
    and "\<And>i. i \<le> end \<Longrightarrow> lin mp idx i < length pages * BITS_PER_PAGE"
    and "lo \<le> l_start st" and "l_start st \<le> end + 1" and "l_out st = []"
    and "l_start st \<le> end \<Longrightarrow> at_addr mp idx P st \<and> l_bip st < BITS_PER_PAGE"
    and "missed (\<lambda>i. page_bit pages (lin mp idx i)) (sought op) lo (l_start st)"
  shows "\<exists>j st'. bm_op_loop op (32 * mp) end P st pages = (j, st', pages) \<and> l_out st' = [] \<and>
    (j = FOUND \<and> found_at (\<lambda>i. page_bit pages (lin mp idx i)) (sought op) lo end (seek_pos st') \<or>
     j = GO_ON \<and> missed (\<lambda>i. page_bit pages (lin mp idx i)) (sought op) lo (end + 1))"
  using assms
proof (induction op "32 * mp" "end" P st pages rule: bm_op_loop.induct)
  case (1 op "end" P st pages)
  note op = 1(2) and idx = 1(3) and mp = 1(4) and bnd = 1(5) and lo = 1(6) and le = 1(7)
    and out = 1(8) and at = 1(9) and m = 1(10)
  show ?case
  proof (cases "l_start st \<le> end")
    case False
    then have "l_start st = end + 1" using le by simp
    then show ?thesis
      using False m out by (simp add: bm_op_loop.simps [of op _ "end" P st pages])
  next
    case True
    note at = at [OF True]
    have P: "P < length pages" using addr_page at bnd [OF True] by blast
    define st0 where "st0 = st\<lparr>l_count := 0, l_words := page_words (pages ! P)\<rparr>"
    have s0: "seek_inv (sought op) mp idx lo pages P st0" "l_out st0 = []" "l_bip st0 < BITS_PER_PAGE" "l_start st0 \<le> end"
      using at m lo out True by (simp_all add: seek_inv_def st0_def at_addr_def)
    obtain j st1 where page: "bm_op_page op (32 * mp) end st0 = (j, st1)" by fastforce
    from bm_op_page_seek [OF op s0(1-3) idx s0(4), unfolded page] show ?thesis
    proof
      assume h: "hit (sought op) mp idx lo pages P end (j, st1)"
      then have "bm_op_loop op (32 * mp) end P st pages = (FOUND, st1, pages)"
        using True page P by (simp add: bm_op_loop.simps [of op _ "end" P st pages] hit_def page_write_back flip: st0_def)
      then show ?thesis using h by (simp add: hit_def)
    next
      assume o: "off_page (sought op) mp idx lo pages P end (j, st1)"
      define st2 where "st2 = st1\<lparr>l_bip := l_bip st1 - BITS_PER_PAGE\<rparr>"
      have pg: "pages[P := (pages ! P)\<lparr>page_words := l_words st1\<rparr>] = pages"
        using o P by (simp add: off_page_def page_write_back)
      have eq: "bm_op_loop op (32 * mp) end P st pages = bm_op_loop op (32 * mp) end (P + 1) st2 pages"
        using True page o pg
        by (simp add: bm_op_loop.simps [of op _ "end" P st pages] off_page_def bm_leave_page_seek [OF op]
          flip: st0_def st2_def)
      have at2: "at_addr mp idx (P + 1) st2 \<and> l_bip st2 < BITS_PER_PAGE" if "l_start st2 \<le> end"
        using o that mp by (auto simp: off_page_def st2_def at_addr_def)
      have leave: "(st2, (pages ! P)\<lparr>page_words := l_words st1\<rparr>) =
          bm_leave_page op st1 ((pages ! P)\<lparr>page_words := l_words st1\<rparr>)"
        by (simp add: bm_leave_page_seek [OF op] st2_def)
      have j: "j = NEXT_PAGE" and l2: "lo \<le> l_start st2" "l_start st2 \<le> end + 1" "l_out st2 = []"
          "missed (\<lambda>i. page_bit pages (lin mp idx i)) (sought op) lo (l_start st2)"
        using o by (auto simp: off_page_def st2_def)
      show ?thesis
        unfolding eq
        using 1(1) [OF True page [symmetric, unfolded st0_def j] refl leave, unfolded pg, OF op idx mp bnd l2(1,2,3) at2 l2(4)]
        by blast
    qed
  qed
qed

theorem bm_op4_seek:
  fixes start e :: nat
  assumes shape: "bm_shape bm" and idx: "idx < bm_max_peers bm" and op: "bm_seek op" and bits: "0 < bm_bits bm"
    and start: "start < bm_bits bm"  and "start \<le> e"
  obtains n where "bm_op4 idx start e op buffer bm = Some (n, [], bm)"
    and "found_at (bm_view bm idx) (sought op) start (clip bm e) n \<or>
      missed (bm_view bm idx) (sought op) start (clip bm e + 1) \<and>
      n = (if op \<in> {BM_OP_RANGE_FIND_BIT, BM_OP_RANGE_FIND_ZERO_BIT} then e + 1 else BSR_END_OF_BITMAP)"
proof -
  let ?mp = "bm_max_peers bm" and ?e = "clip bm e" and ?pages = "bm_pages bm"
  let ?w = "interleaved_word32 bm idx start"
  define st where "st = \<lparr>l_start = start, l_bip = word32_in_page ?w * 32 + start mod 32, l_count = 0, l_total = 0,
    l_buffer = buffer, l_out = [], l_words = []\<rparr>"
  have rng: "i \<le> ?e \<Longrightarrow> i < bm_bits bm" for i using bits by (auto simp: clip_def split: if_splits)
  have se: "start \<le> ?e" using assms(5,6) by (auto simp: clip_def)
  have f: "(\<lambda>i. page_bit ?pages (lin ?mp idx i)) = bm_view bm idx" by (simp add: bm_view_def fun_eq_iff)
  have "\<exists>j st'. bm_op_loop op (32 * ?mp) ?e (word32_to_page ?w) st ?pages = (j, st', ?pages) \<and> l_out st' = [] \<and>
    (j = FOUND \<and> found_at (bm_view bm idx) (sought op) start ?e (seek_pos st') \<or>
     j = GO_ON \<and> missed (bm_view bm idx) (sought op) start (?e + 1))"
    unfolding f [symmetric]
  proof (rule bm_op_loop_seek [OF op idx])
    show "32 * ?mp \<le> BITS_PER_PAGE" using shape by (simp_all add: bm_shape_def)
    show "lin ?mp idx i < length ?pages * BITS_PER_PAGE" if "i \<le> ?e" for i
      using lin_bound [OF shape idx] rng [of i] that by simp
    show "at_addr ?mp idx (word32_to_page ?w) st \<and> l_bip st < BITS_PER_PAGE"
      using start_addr(1) [of ?w "start mod 32"] start_addr(2) [of "start mod 32" ?w]
      by (simp add: at_addr_def st_def lin_def interleaved_word32_def)
  qed (use se in \<open>auto simp: st_def\<close>)
  then obtain j st' where r: "bm_op_loop op (32 * ?mp) ?e (word32_to_page ?w) st ?pages = (j, st', ?pages)"
    and o: "l_out st' = []"
    and d: "j = FOUND \<and> found_at (bm_view bm idx) (sought op) start ?e (seek_pos st') \<or>
     j = GO_ON \<and> missed (bm_view bm idx) (sought op) start (?e + 1)" by blast
  define n where "n = (if j = FOUND then seek_pos st'
    else if op \<in> {BM_OP_RANGE_FIND_BIT, BM_OP_RANGE_FIND_ZERO_BIT} then e + 1 else BSR_END_OF_BITMAP)"
  have j: "j = FOUND \<or> j = GO_ON" using d by blast
  have "bm_op4 idx start e op buffer bm = Some (n, [], bm)"
    using op r o j unfolding bm_op4_def Let_def n_def
    by (elim bm_seek_cases disjE) (simp_all add: seek_pos_def flip: st_def clip_def)
  then show thesis by (rule that) (use d in \<open>auto simp: n_def\<close>)
qed

end
