(* ===== verification/Bitmap_Ops.thy ===== *)
theory Bitmap_Ops
  imports Bitmap_Find
begin

text \<open>What the exported operations do to the set bits of a peer.\<close>

section \<open>Setting and clearing\<close>

definition bm_updated :: "bool \<Rightarrow> nat \<Rightarrow> nat \<Rightarrow> nat \<Rightarrow> bsr_bitmap \<Rightarrow> bsr_bitmap \<Rightarrow> bool" where
  "bm_updated v idx s e bm bm' \<longleftrightarrow> bm_bits bm' = bm_bits bm \<and> bm_max_peers bm' = bm_max_peers bm \<and>
     (\<forall>idx' < bm_max_peers bm. \<forall>i < bm_bits bm.
        bm_view bm' idx' i = (if idx' = idx \<and> s \<le> i \<and> i \<le> e then v else bm_view bm idx' i))"

lemma bm_updated_trans:
  "bm_updated v idx s m bm bm1 \<Longrightarrow> bm_updated v idx (m + 1) e bm1 bm2 \<Longrightarrow> s \<le> m + 1 \<Longrightarrow> m \<le> e \<Longrightarrow>
     bm_updated v idx s e bm bm2"
  unfolding bm_updated_def by (auto simp: not_le)

lemma bm_updated_empty: "e < s \<Longrightarrow> bm_updated v idx s e bm bm"
  by (auto simp: bm_updated_def)

lemma bm_shape_pages: "bm_shape bm \<Longrightarrow> 0 < bm_bits bm \<Longrightarrow> bm_pages bm \<noteq> []"
  using lin_bound [of bm 0 0] by (auto simp: bm_shape_def)

lemma bm_op2_eq: "bm_shape bm \<Longrightarrow> 0 < bm_bits bm \<Longrightarrow> bm_op2 idx s e op buf bm = bm_op4 idx s e op buf bm"
  by (simp add: bm_op2_def bm_shape_pages)

definition bm_upd_op :: "bool \<Rightarrow> bitmap_operations" where
  "bm_upd_op v = (if v then BM_OP_SET else BM_OP_CLEAR)"

lemma card_update:
  fixes f :: "nat \<Rightarrow> bool" and n s e :: nat and v :: bool
  defines "c \<equiv> card {i. i < n \<and> f i}"
    and "d \<equiv> card {i. s \<le> i \<and> i \<le> e \<and> i < n \<and> f i \<noteq> v}"
    and "c' \<equiv> card {i. i < n \<and> (if s \<le> i \<and> i \<le> e then v else f i)}"
  shows "if v then c' = c + d else c = c' + d"
proof -
  let ?D = "{i. s \<le> i \<and> i \<le> e \<and> i < n \<and> f i \<noteq> v}" and ?C = "{i. i < n \<and> f i}"
  let ?C' = "{i. i < n \<and> (if s \<le> i \<and> i \<le> e then v else f i)}"
  have fin: "finite ?D" "finite ?C" "finite ?C'" by simp_all
  show ?thesis
  proof (cases v)
    case True
    then have "?C' = ?C \<union> ?D" "?C \<inter> ?D = {}" by auto
    then show ?thesis using True card_Un_disjoint [OF fin(2,1)] unfolding c_def d_def c'_def by metis
  next
    case False
    then have "?C = ?C' \<union> ?D" "?C' \<inter> ?D = {}" by (auto split: if_splits)
    then show ?thesis using False card_Un_disjoint [OF fin(3,1)] unfolding c_def d_def c'_def by metis
  qed
qed

lemma bm_op4_update:
  fixes s e :: nat
  assumes wf: "bm_wf bm" and idx: "idx < bm_max_peers bm" and bits: "0 < bm_bits bm"
  obtains bm' where "bm_op4 idx s e (bm_upd_op v) buf bm =
      Some (card {i. s \<le> i \<and> i \<le> e \<and> i < bm_bits bm \<and> bm_view bm idx i \<noteq> v}, [], bm')"
    and "bm_wf bm'" and "bm_updated v idx s e bm bm'"
proof -
  define op where "op = bm_upd_op v"
  have shape: "bm_shape bm" and set: "\<And>k. k < bm_max_peers bm \<Longrightarrow> bm_set bm ! k = of_nat (bm_weight bm k)"
    using wf by (simp_all add: bm_wf_def)
  have mut: "bm_mut op" by (simp add: op_def bm_upd_op_def bm_mut_def)
  have nb: "newbit op b = v" "counted op b = (b \<noteq> v)" for b by (cases v; simp add: op_def bm_upd_op_def)+
  define n where "n = card {i. s \<le> i \<and> i \<le> e \<and> i < bm_bits bm \<and> bm_view bm idx i \<noteq> v}"
  show thesis
  proof (rule bm_op4_mut [OF shape idx mut bits, of s e buf, unfolded nb, folded n_def])
    fix bm'
    assume r: "bm_op4 idx s e op buf bm = Some (n, [], bm')" "bm_shape bm'"
      and same: "bm_bits bm' = bm_bits bm" "bm_max_peers bm' = bm_max_peers bm"
      and view: "\<And>idx' i. idx' < bm_max_peers bm \<Longrightarrow> bm_view bm' idx' i =
        (if idx' = idx \<and> s \<le> i \<and> i \<le> e \<and> i < bm_bits bm then v else bm_view bm idx' i)"
      and set': "bm_set bm' = (if op = BM_OP_SET then (bm_set bm)[idx := bm_set bm ! idx + of_nat n]
        else if op = BM_OP_CLEAR then (bm_set bm)[idx := bm_set bm ! idx - of_nat n] else bm_set bm)"
    have w: "{i. i < bm_bits bm \<and> bm_view bm' idx i} = {i. i < bm_bits bm \<and> (if s \<le> i \<and> i \<le> e then v else bm_view bm idx i)}"
      using view [OF idx] by auto
    have other: "bm_weight bm' k = bm_weight bm k" if "k < bm_max_peers bm" "k \<noteq> idx" for k
      using view [OF that(1)] that(2) same by (simp add: bm_weight_def)
    note cu = card_update [of v "bm_bits bm" s e "bm_view bm idx", folded n_def bm_weight_def w same(1)]
    have "bm_set bm' ! k = of_nat (bm_weight bm' k)" if k: "k < bm_max_peers bm" for k
    proof (cases "k = idx")
      case True
      have len: "idx < length (bm_set bm)" using idx shape by (simp add: bm_shape_def)
      then show ?thesis using cu set' set [OF idx] True
        by (cases v) (simp_all add: op_def bm_upd_op_def bm_weight_def [of bm' idx])
    next
      case False
      then show ?thesis using other [OF k False] set [OF k] set' by auto
    qed
    then have "bm_wf bm'" using r(2) same by (simp add: bm_wf_def)
    moreover have "bm_updated v idx s e bm bm'" using same view by (auto simp: bm_updated_def)
    ultimately show thesis by (rule that [OF r(1) [unfolded op_def n_def]])
  qed
qed

lemma last_bit_on_page_ge: "b \<le> last_bit_on_page bm idx b"
proof -
  have "b \<le> b div 32 * 32 + 31" by simp
  then show ?thesis unfolding last_bit_on_page_def Let_def by (rule trans_le_add1)
qed

lemma many_bits_loop_update:
  assumes "bm_wf bm" and "idx < bm_max_peers bm" and "0 < bm_bits bm"
  shows "\<exists>bm'. many_bits_loop idx e (bm_upd_op v) b bm = Some bm' \<and> bm_wf bm' \<and> bm_updated v idx b e bm bm'"
  using assms
proof (induction idx e "bm_upd_op v" b bm rule: many_bits_loop.induct)
  case (1 idx e b bm)
  show ?case
  proof (cases "b \<le> e")
    case True
    define l where "l = min e (last_bit_on_page bm idx b)"
    define r where "r = card {i. b \<le> i \<and> i \<le> l \<and> i < bm_bits bm \<and> bm_view bm idx i \<noteq> v}"
    have "bm_shape bm" using 1(2) by (simp add: bm_wf_def)
    then obtain bm1 where op: "bm_op2 idx b l (bm_upd_op v) [] bm = Some (r, [], bm1)" and
      w1: "bm_wf bm1" "bm_updated v idx b l bm bm1"
      unfolding bm_op2_eq [OF \<open>bm_shape bm\<close> 1(4)] r_def by (rule_tac bm_op4_update [OF 1(2-4), of b l v "[]"])
    obtain bm2 where l2: "many_bits_loop idx e (bm_upd_op v) (l + 1) bm1 = Some bm2" "bm_wf bm2"
        "bm_updated v idx (l + 1) e bm1 bm2"
      using 1(1) [OF True l_def op refl refl w1(1)] w1(2) 1(3,4) by (auto simp: bm_updated_def)
    have "b \<le> l + 1" "l \<le> e" using True last_bit_on_page_ge [of b bm idx] by (simp_all add: l_def)
    then have "bm_updated v idx b e bm bm2" by (rule bm_updated_trans [OF w1(2) l2(3)])
    moreover have "many_bits_loop idx e (bm_upd_op v) b bm = Some bm2"
      using True op l2(1) by (simp add: many_bits_loop.simps [of idx e _ b bm] Let_def flip: l_def)
    ultimately show ?thesis using l2(2) by blast
  next
    case False
    then show ?thesis using 1(2) by (simp add: many_bits_loop.simps [of idx e _ b bm] bm_updated_empty)
  qed
qed

section \<open>Recounting\<close>

definition bm_same_bits :: "bsr_bitmap \<Rightarrow> bsr_bitmap \<Rightarrow> bool" where
  "bm_same_bits bm bm' \<longleftrightarrow> bm_bits bm' = bm_bits bm \<and> bm_max_peers bm' = bm_max_peers bm \<and>
     (\<forall>k < bm_max_peers bm. bm_view bm' k = bm_view bm k)"

lemma bm_same_bits_refl [simp]: "bm_same_bits bm bm"
  by (simp add: bm_same_bits_def)

lemma bm_same_bits_trans: "bm_same_bits a b \<Longrightarrow> bm_same_bits b c \<Longrightarrow> bm_same_bits a c"
  by (simp add: bm_same_bits_def)

lemma bm_view_cong: "bm_pages a = bm_pages b \<Longrightarrow> bm_max_peers a = bm_max_peers b \<Longrightarrow> bm_view a = bm_view b"
  by (simp add: bm_view_def fun_eq_iff)

lemma bm_op4_count:
  fixes s e :: nat
  assumes "bm_shape bm" and "idx < bm_max_peers bm" and "0 < bm_bits bm"
  obtains bm' where "bm_op4 idx s e BM_OP_COUNT buf bm =
      Some (card {i. s \<le> i \<and> i \<le> e \<and> i < bm_bits bm \<and> bm_view bm idx i}, [], bm')"
    and "bm_shape bm'" and "bm_same_bits bm bm'" and "length (bm_pages bm') = length (bm_pages bm)"
proof -
  have mut: "bm_mut BM_OP_COUNT" by (simp add: bm_mut_def)
  show thesis
  proof (rule bm_op4_mut [OF assms(1,2) mut assms(3), of s e buf])
    fix bm' assume h: "bm_op4 idx s e BM_OP_COUNT buf bm = Some (card {i. s \<le> i \<and> i \<le> e \<and> i < bm_bits bm \<and>
        counted BM_OP_COUNT (bm_view bm idx i)}, [], bm')"
      "bm_shape bm'" "bm_bits bm' = bm_bits bm" "bm_max_peers bm' = bm_max_peers bm"
      "length (bm_pages bm') = length (bm_pages bm)"
      "\<And>idx' i. idx' < bm_max_peers bm \<Longrightarrow> bm_view bm' idx' i =
        (if idx' = idx \<and> s \<le> i \<and> i \<le> e \<and> i < bm_bits bm then newbit BM_OP_COUNT (bm_view bm idx' i)
         else bm_view bm idx' i)"
    show thesis by (rule that [of bm']) (use h in \<open>auto simp: bm_same_bits_def fun_eq_iff\<close>)
  qed
qed

lemma count_bits_loop_count:
  assumes "bm_shape bm" and "idx < bm_max_peers bm"
  shows "\<exists>bm'. count_bits_loop idx b n bm = Some (n + card {i. b \<le> i \<and> i < bm_bits bm \<and> bm_view bm idx i}, bm') \<and>
    bm_shape bm' \<and> bm_same_bits bm bm' \<and> bm_set bm' = bm_set bm"
  using assms
proof (induction idx b n bm rule: count_bits_loop.induct)
  case (1 idx b n bm)
  show ?case
  proof (cases "b < bm_bits bm")
    case True
    define l where "l = last_bit_on_page bm idx b"
    have bl: "b \<le> l" unfolding l_def by (rule last_bit_on_page_ge)
    let ?A = "{i. b \<le> i \<and> i \<le> l \<and> i < bm_bits bm \<and> bm_view bm idx i}"
    have "0 < bm_bits bm" using True by simp
    then obtain bm1 where op: "bm_op4 idx b l BM_OP_COUNT [] bm = Some (card ?A, [], bm1)"
      and s1: "bm_shape bm1" "bm_same_bits bm bm1" "length (bm_pages bm1) = length (bm_pages bm)"
      by (rule bm_op4_count [OF 1(2,3), of b l "[]"])
    define bm2 where "bm2 = bm\<lparr>bm_pages := bm_pages bm1\<rparr>"
    have s2: "bm_shape bm2" "idx < bm_max_peers bm2" using 1(2,3) s1 by (simp_all add: bm2_def bm_shape_def)
    have "bm_view bm2 = bm_view bm1"
      using s1(2) by (intro bm_view_cong) (simp_all add: bm2_def bm_same_bits_def)
    then have sm: "bm_same_bits bm bm2" using s1(2) by (simp add: bm_same_bits_def) (simp add: bm2_def)
    have v2: "bm_view bm2 idx = bm_view bm idx" using sm 1(3) by (simp add: bm_same_bits_def)
    from 1(1) [OF True l_def op refl refl, folded bm2_def, OF s2] obtain bm3 where
      l3: "count_bits_loop idx (l + 1) (n + card ?A) bm2 =
         Some (n + card ?A + card {i. l + 1 \<le> i \<and> i < bm_bits bm \<and> bm_view bm idx i}, bm3)"
      and s3: "bm_shape bm3" "bm_same_bits bm2 bm3" "bm_set bm3 = bm_set bm2"
      unfolding v2 by (auto simp: bm2_def)
    have "{i. b \<le> i \<and> i < bm_bits bm \<and> bm_view bm idx i} =
        ?A \<union> {i. l + 1 \<le> i \<and> i < bm_bits bm \<and> bm_view bm idx i}" using bl by auto
    then have "card {i. b \<le> i \<and> i < bm_bits bm \<and> bm_view bm idx i} =
        card ?A + card {i. l + 1 \<le> i \<and> i < bm_bits bm \<and> bm_view bm idx i}"
      by (simp add: card_Un_disjoint disjoint_iff)
    moreover have "bm_same_bits bm bm3" using sm s3(2) by (rule bm_same_bits_trans)
    ultimately show ?thesis using True op l3 s3
      by (simp add: count_bits_loop.simps [of idx b n bm] Let_def bm2_def flip: l_def)
  next
    case False
    then have "{i. b \<le> i \<and> i < bm_bits bm \<and> bm_view bm idx i} = {}" by auto
    then show ?thesis using False 1(2)
      by (simp add: count_bits_loop.simps [of idx b n bm])
  qed
qed

lemma bm_weight_cong: "bm_same_bits bm bm' \<Longrightarrow> k < bm_max_peers bm \<Longrightarrow> bm_weight bm' k = bm_weight bm k"
  by (simp add: bm_weight_def bm_same_bits_def)

lemma count_slots_wf:
  assumes "bm_shape bm" and "\<forall>k \<in> set is. k < bm_max_peers bm"
    and "\<forall>k < bm_max_peers bm. k \<notin> set is \<longrightarrow> bm_set bm ! k = of_nat (bm_weight bm k)"
  shows "\<exists>bm'. count_slots is bm = Some bm' \<and> bm_wf bm' \<and> bm_same_bits bm bm'"
  using assms
proof (induction "is" arbitrary: bm)
  case Nil
  then show ?case by (auto simp: bm_wf_def)
next
  case (Cons k ks)
  have k: "k < bm_max_peers bm" using Cons.prems(2) by simp
  obtain bm1 where l: "count_bits_loop k 0 0 bm = Some (bm_weight bm k, bm1)" and
    s1: "bm_shape bm1" "bm_same_bits bm bm1" "bm_set bm1 = bm_set bm"
    using count_bits_loop_count [OF Cons.prems(1) k, of 0 0] by (auto simp: bm_weight_def)
  define bm2 where "bm2 = bm1\<lparr>bm_set := (bm_set bm)[k := of_nat (bm_weight bm k)]\<rparr>"
  have w2: "bm_weight bm2 j = bm_weight bm j" if "j < bm_max_peers bm" for j
    using bm_weight_cong [OF s1(2) that] by (simp add: bm2_def bm_weight_def bm_view_def)
  have mp: "bm_max_peers bm2 = bm_max_peers bm" using s1(2) by (simp add: bm2_def bm_same_bits_def)
  have s2: "bm_shape bm2" using s1 by (auto simp: bm2_def bm_shape_def)
  have len: "k < length (bm_set bm)" using k Cons.prems(1) by (simp add: bm_shape_def)
  have "\<forall>j < bm_max_peers bm2. j \<notin> set ks \<longrightarrow> bm_set bm2 ! j = of_nat (bm_weight bm2 j)"
  proof (intro allI impI)
    fix j assume j: "j < bm_max_peers bm2" "j \<notin> set ks"
    then show "bm_set bm2 ! j = of_nat (bm_weight bm2 j)"
      using Cons.prems(3) w2 [of j] mp len by (cases "j = k") (auto simp: bm2_def)
  qed
  with Cons.IH [OF s2] Cons.prems(2) mp obtain bm3 where
    r: "count_slots ks bm2 = Some bm3" "bm_wf bm3" "bm_same_bits bm2 bm3" by auto
  have "bm_view bm2 = bm_view bm1" by (intro bm_view_cong) (simp_all add: bm2_def)
  then have "bm_same_bits bm bm2" using s1(2) by (simp add: bm_same_bits_def) (simp add: bm2_def)
  from this r(3) have "bm_same_bits bm bm3" by (rule bm_same_bits_trans)
  then show ?case using l r s1(3) by (simp flip: bm2_def)
qed

section \<open>The exported operations\<close>

lemma bm_op_find:
  fixes s e :: nat
  assumes shape: "bm_shape bm" and idx: "idx < bm_max_peers bm" and s: "s < bm_bits bm" "s \<le> e"
    and op: "op = (if v then BM_OP_RANGE_FIND_BIT else BM_OP_RANGE_FIND_ZERO_BIT) \<and> miss = e + 1 \<or>
      op = (if v then BM_OP_FIND_BIT else BM_OP_FIND_ZERO_BIT) \<and> miss = BSR_END_OF_BITMAP"
  shows "bm_op idx s e op buf bm =
    Some (first_or (\<lambda>i. bm_view bm idx i = v) s (min (e + 1) (bm_bits bm)) miss, [], bm)"
proof -
  have bits: "0 < bm_bits bm" using s by simp
  have rng: "clip bm e + 1 = min (e + 1) (bm_bits bm)" using bits by (auto simp: clip_def)
  have seek: "bm_seek op" "sought op = v" using op by (auto simp: bm_seek_def sought_def split: if_splits)
  have m: "miss = (if op \<in> {BM_OP_RANGE_FIND_BIT, BM_OP_RANGE_FIND_ZERO_BIT} then e + 1 else BSR_END_OF_BITMAP)"
    using op by (auto split: if_splits)
  obtain n where n: "bm_op4 idx s e op buf bm = Some (n, [], bm)"
    "found_at (bm_view bm idx) v s (clip bm e) n \<or> missed (bm_view bm idx) v s (clip bm e + 1) \<and> n = miss"
    by (rule bm_op4_seek [OF shape idx seek(1) bits s, of buf, unfolded seek(2), folded m])
  from n(2) have "first_or (\<lambda>i. bm_view bm idx i = v) s (clip bm e + 1) miss = n"
  proof
    assume "found_at (bm_view bm idx) v s (clip bm e) n"
    then show ?thesis by (intro first_or_eqI) (auto simp: found_at_def missed_def)
  next
    assume "missed (bm_view bm idx) v s (clip bm e + 1) \<and> n = miss"
    then show ?thesis unfolding missed_def first_or_def by meson
  qed
  then show ?thesis using n(1) bm_op2_eq [OF shape bits] unfolding rng by (simp add: bm_op_def)
qed

text \<open>
  A one page bitmap for two peers, in which block 34 is out of sync for the second peer.
\<close>

definition ex_bm :: bsr_bitmap where
  "ex_bm = \<lparr>bm_pages = [\<lparr>page_private = 0, page_words = (replicate 1024 0)[3 := 4]\<rparr>], bm_set = [0, 1],
     bm_bits = 100, bm_words = 8, bm_dev_capacity = 800, bm_max_peers = 2\<rparr>"

lemma ex_bm_view: "idx < 2 \<Longrightarrow> i < 100 \<Longrightarrow> bm_view ex_bm idx i \<longleftrightarrow> idx = 1 \<and> i = 34"
proof -
  assume idx: "idx < 2" and i: "i < 100"
  have b4: "bit (4 :: u32) m \<longleftrightarrow> m = 2" for m
    using bit_exp_iff [where 'a = u32, of 2 m] by auto
  let ?w = "i div 32 * 2 + idx"
  have w: "?w < 1024" using i idx by linarith
  have a: "lin 2 idx i div BITS_PER_PAGE = 0" "lin 2 idx i mod BITS_PER_PAGE = 32 * ?w + i mod 32"
    using w mod_less_divisor [of 32 i] by (simp_all add: lin_def bpp)
  have "bm_view ex_bm idx i \<longleftrightarrow> bit ((replicate 1024 (0 :: u32))[3 := 4] ! ?w) (i mod 32)"
    unfolding bm_view_def page_bit_def ex_bm_def
    using div_mult_self4 [of 32 ?w "i mod 32"] mod_mult_self4 [of 32 ?w "i mod 32"]
    by (simp only: a test_bit_le_def bsr_bitmap.simps bm_page.simps nth_Cons_0) simp
  also have "(replicate 1024 (0 :: u32))[3 := 4] ! ?w = (if ?w = 3 then 4 else 0)" using w by (simp add: nth_list_update)
  also have "bit \<dots> (i mod 32) \<longleftrightarrow> ?w = 3 \<and> i mod 32 = 2" unfolding if_distrib [of bit] if_distribR b4 by simp
  also have "\<dots> \<longleftrightarrow> idx = 1 \<and> i = 34" 
  proof -
    have q: "q * 2 + idx = 3 \<longleftrightarrow> idx = 1 \<and> q = 1" for q :: nat using idx by presburger
    have "i = 34" if "i div 32 = 1" "i mod 32 = 2" using div_mult_mod_eq [of i 32, unfolded that] by simp
    then have "i div 32 = 1 \<and> i mod 32 = 2 \<longleftrightarrow> i = 34" by (intro iffI) simp_all
    then show ?thesis unfolding q by blast
  qed
  finally show ?thesis .
qed

lemma ex_bm_wf: "bm_wf ex_bm"
proof -
  have "bm_set ex_bm ! k = of_nat (bm_weight ex_bm k)" if "k < 2" for k
  proof -
    have "{i. i < bm_bits ex_bm \<and> bm_view ex_bm k i} = (if k = 1 then {34} else {})"
      using ex_bm_view [OF that] by (auto simp: ex_bm_def)
    then have "bm_weight ex_bm k = (if k = 1 then 1 else 0)" by (simp add: bm_weight_def)
    moreover have "k = 0 \<or> k = 1" "bm_set ex_bm = [0, 1]" using that by (linarith, simp add: ex_bm_def)
    ultimately show ?thesis by auto
  qed
  then show ?thesis unfolding bm_wf_def bm_shape_def pages_ok_def bpp by (simp add: ex_bm_def)
qed

text \<open>
  C5: On a well-formed bitmap, setting (or clearing) a range of a peer's bits succeeds, returns the number of bits
  that changed, gives exactly the bits of the range within the bitmap the new value, leaves the
  other bits of the peer and all bits of the other peers as they are, and keeps the per-peer
  counters equal to the number of set bits.
\<close>

theorem bm_set_clear_bits:
  fixes s e :: nat
  assumes "bm_wf bm" and "idx < bm_max_peers bm" and "0 < bm_bits bm"
  shows "\<exists>bm'. (if v then bsr_bm_set_bits idx s e bm else bsr_bm_clear_bits idx s e bm) =
      Some (card {i. s \<le> i \<and> i \<le> e \<and> i < bm_bits bm \<and> bm_view bm idx i \<noteq> v}, bm') \<and>
    bm_wf bm' \<and> bm_updated v idx s e bm bm'"
proof -
  obtain bm' where "bm_op4 idx s e (bm_upd_op v) [] bm =
      Some (card {i. s \<le> i \<and> i \<le> e \<and> i < bm_bits bm \<and> bm_view bm idx i \<noteq> v}, [], bm')"
    "bm_wf bm'" "bm_updated v idx s e bm bm'"
    by (rule bm_op4_update [OF assms])
  moreover have "bm_shape bm" using assms(1) by (simp add: bm_wf_def)
  ultimately show ?thesis
    using bm_op2_eq [OF _ assms(3)]
    by (cases v) (simp_all add: bsr_bm_set_bits_def bsr_bm_clear_bits_def bm_op_def bm_upd_op_def)
qed

theorem bm_set_clear_bits_witness:
  "\<exists>bm'. bsr_bm_set_bits 1 30 70 ex_bm = Some (40, bm') \<and> bm_wf bm' \<and> bm_updated True 1 30 70 ex_bm bm'"
proof -
  have "{i. 30 \<le> i \<and> i \<le> 70 \<and> i < bm_bits ex_bm \<and> bm_view ex_bm 1 i \<noteq> True} = {30..70} - {34}"
    using ex_bm_view [of 1] by (auto simp: ex_bm_def)
  then have "card {i. 30 \<le> i \<and> i \<le> 70 \<and> i < bm_bits ex_bm \<and> bm_view ex_bm 1 i \<noteq> True} = 40" by simp
  then show ?thesis
    using bm_set_clear_bits [OF ex_bm_wf, of 1 True 30 70] by (simp add: ex_bm_def)
qed

lemma bm_finds:
  fixes s e :: nat
  assumes "bm_shape bm" and "idx < bm_max_peers bm" and "s < bm_bits bm" and "s \<le> e" and "bm_bits bm \<le> BSR_END_OF_BITMAP"
  shows "bsr_bm_find_next idx s bm = Some (first_or (bm_view bm idx) s (bm_bits bm) BSR_END_OF_BITMAP) \<and>
    bsr_bm_range_find_next idx s e bm = Some (first_or (bm_view bm idx) s (min (e + 1) (bm_bits bm)) (e + 1)) \<and>
    bsr_bm_range_find_next_zero idx s e bm =
      Some (first_or (\<lambda>i. \<not> bm_view bm idx i) s (min (e + 1) (bm_bits bm)) (e + 1))"
proof (intro conjI)
  have s: "s \<le> BSR_END_OF_BITMAP" and m: "min (BSR_END_OF_BITMAP + 1) (bm_bits bm) = bm_bits bm"
    using assms(3,5) by simp_all
  note f = bm_op_find [OF assms(1,2,3)]
  show "bsr_bm_find_next idx s bm = Some (first_or (bm_view bm idx) s (bm_bits bm) BSR_END_OF_BITMAP)"
    using f [OF s, of BM_OP_FIND_BIT True BSR_END_OF_BITMAP "[]", unfolded m] by (simp add: bsr_bm_find_next_def)
  show "bsr_bm_range_find_next idx s e bm = Some (first_or (bm_view bm idx) s (min (e + 1) (bm_bits bm)) (e + 1))"
    using f [OF assms(4), of BM_OP_RANGE_FIND_BIT True "e + 1" "[]"] by (simp add: bsr_bm_range_find_next_def)
  show "bsr_bm_range_find_next_zero idx s e bm =
      Some (first_or (\<lambda>i. \<not> bm_view bm idx i) s (min (e + 1) (bm_bits bm)) (e + 1))"
    using f [OF assms(4), of BM_OP_RANGE_FIND_ZERO_BIT False "e + 1" "[]"] by (simp add: bsr_bm_range_find_next_zero_def)
qed



lemma bm_many_updates:
  fixes s e :: nat
  assumes "bm_wf bm" and "idx < bm_max_peers bm" and "0 < bm_bits bm"
  shows "\<exists>bm'. (if v then bsr_bm_set_many_bits idx s e bm else bsr_bm_clear_many_bits idx s e bm) = Some bm' \<and>
    bm_wf bm' \<and> bm_updated v idx s e bm bm'"
proof -
  obtain bm' where l: "many_bits_loop idx (clip bm e) (bm_upd_op v) s bm = Some bm'" "bm_wf bm'"
    "bm_updated v idx s (clip bm e) bm bm'"
    using many_bits_loop_update [OF assms, of "clip bm e" v s] by blast
  have "bm_updated v idx s e bm bm'" using l(3) by (auto simp: bm_updated_def clip_def split: if_splits)
  then show ?thesis using l(1,2)
    by (cases v) (simp_all add: bsr_bm_set_many_bits_def bsr_bm_clear_many_bits_def bm_many_bits_op0_def bm_upd_op_def
      clip_def Let_def)
qed

text \<open>
  C23: The operations on many bits, which work page by page so that the bitmap lock can be
  dropped in between, have the same effect on the bitmap as one operation on the whole range.
\<close>

theorem bm_many_bits:
  fixes s e :: nat
  assumes "bm_wf bm" and "idx < bm_max_peers bm" and "0 < bm_bits bm"
  shows "\<exists>bm'. (if v then bsr_bm_set_many_bits idx s e bm else bsr_bm_clear_many_bits idx s e bm) = Some bm' \<and>
    bm_wf bm' \<and> bm_updated v idx s e bm bm'"
  using assms by (rule bm_many_updates)

theorem bm_many_bits_witness:
  "\<exists>bm'. bsr_bm_clear_many_bits 1 0 BSR_END_OF_BITMAP ex_bm = Some bm' \<and> bm_wf bm' \<and> \<not> bm_view bm' 1 34"
proof -
  have "34 \<le> BSR_END_OF_BITMAP" by (simp add: BSR_END_OF_BITMAP_def)
  then show ?thesis
    using bm_many_bits [OF ex_bm_wf, of 1 False 0 BSR_END_OF_BITMAP] by (auto simp: bm_updated_def) (auto simp: ex_bm_def)
qed

text \<open>
  C24: Recounting a bitmap, whatever its counters were, makes each peer's counter the number of its set
  bits and changes no bit.
\<close>

theorem bm_count_bits_repairs:
  assumes "bm_shape bm"
  shows "\<exists>bm'. bm_count_bits bm = Some bm' \<and> bm_wf bm' \<and> bm_same_bits bm bm'"
  unfolding bm_count_bits_def by (rule count_slots_wf) (use assms in auto)

theorem bm_count_bits_repairs_witness:
  "\<exists>bm'. bm_count_bits (ex_bm\<lparr>bm_set := [7, 7]\<rparr>) = Some bm' \<and> bm_wf bm' \<and> bm_same_bits (ex_bm\<lparr>bm_set := [7, 7]\<rparr>) bm'"
proof -
  have "bm_shape (ex_bm\<lparr>bm_set := [7, 7]\<rparr>)"
    using ex_bm_wf by (simp add: bm_wf_def bm_shape_def) (simp add: ex_bm_def)
  then show ?thesis by (rule bm_count_bits_repairs)
qed

end
