(* ===== verification/State_Types.thy ===== *)
theory State_Types
  imports Bsr_Prelude
begin

text \<open>
  The state enumerations of \<^verbatim>\<open>bsr-headers/bsr.h\<close> with their numbers, and the names that
  \<^verbatim>\<open>bsr-headers/bsr_strings.c\<close> gives them.  The code compares states by their numbers, so each
  enumeration is an instance of \<open>linorder\<close> ordered by them.  \<^verbatim>\<open>L_NEGOTIATING\<close> and \<^verbatim>\<open>L_NEG_NO_RESULT\<close> are
  second names of \<^verbatim>\<open>L_OFF\<close> and \<^verbatim>\<open>L_BEHIND\<close>, as in the source.
\<close>

section \<open>Roles, connection, replication and disk states\<close>

datatype bsr_role = R_UNKNOWN | R_PRIMARY | R_SECONDARY | R_MASK

datatype bsr_conn_state =
    C_STANDALONE | C_DISCONNECTING | C_UNCONNECTED | C_TIMEOUT | C_BROKEN_PIPE | C_NETWORK_FAILURE
  | C_PROTOCOL_ERROR | C_TEAR_DOWN | C_CONNECTING | C_CONNECTED | C_MASK

datatype bsr_repl_state =
    L_OFF | L_ESTABLISHED | L_STARTING_SYNC_S | L_STARTING_SYNC_T | L_WF_BITMAP_S | L_WF_BITMAP_T | L_WF_SYNC_UUID
  | L_SYNC_SOURCE | L_SYNC_TARGET | L_VERIFY_S | L_VERIFY_T | L_PAUSED_SYNC_S | L_PAUSED_SYNC_T | L_AHEAD | L_BEHIND

abbreviation L_NEGOTIATING :: bsr_repl_state where "L_NEGOTIATING \<equiv> L_OFF"

abbreviation L_NEG_NO_RESULT :: bsr_repl_state where "L_NEG_NO_RESULT \<equiv> L_BEHIND"

datatype bsr_disk_state =
    D_DISKLESS | D_ATTACHING | D_DETACHING | D_FAILED | D_NEGOTIATING | D_INCONSISTENT | D_OUTDATED | D_UNKNOWN
  | D_CONSISTENT | D_UP_TO_DATE | D_MASK

fun role_nr :: "bsr_role \<Rightarrow> nat" where
  "role_nr R_UNKNOWN = 0" | "role_nr R_PRIMARY = 1" | "role_nr R_SECONDARY = 2" | "role_nr R_MASK = 3"

fun conn_nr :: "bsr_conn_state \<Rightarrow> nat" where
  "conn_nr C_STANDALONE = 0" | "conn_nr C_DISCONNECTING = 1" | "conn_nr C_UNCONNECTED = 2" | "conn_nr C_TIMEOUT = 3"
| "conn_nr C_BROKEN_PIPE = 4" | "conn_nr C_NETWORK_FAILURE = 5" | "conn_nr C_PROTOCOL_ERROR = 6"
| "conn_nr C_TEAR_DOWN = 7" | "conn_nr C_CONNECTING = 8" | "conn_nr C_CONNECTED = 9" | "conn_nr C_MASK = 31"

fun repl_nr :: "bsr_repl_state \<Rightarrow> nat" where
  "repl_nr L_OFF = 9" | "repl_nr L_ESTABLISHED = 10" | "repl_nr L_STARTING_SYNC_S = 11"
| "repl_nr L_STARTING_SYNC_T = 12" | "repl_nr L_WF_BITMAP_S = 13" | "repl_nr L_WF_BITMAP_T = 14"
| "repl_nr L_WF_SYNC_UUID = 15" | "repl_nr L_SYNC_SOURCE = 16" | "repl_nr L_SYNC_TARGET = 17"
| "repl_nr L_VERIFY_S = 18" | "repl_nr L_VERIFY_T = 19" | "repl_nr L_PAUSED_SYNC_S = 20"
| "repl_nr L_PAUSED_SYNC_T = 21" | "repl_nr L_AHEAD = 22" | "repl_nr L_BEHIND = 23"

fun disk_nr :: "bsr_disk_state \<Rightarrow> nat" where
  "disk_nr D_DISKLESS = 0" | "disk_nr D_ATTACHING = 1" | "disk_nr D_DETACHING = 2" | "disk_nr D_FAILED = 3"
| "disk_nr D_NEGOTIATING = 4" | "disk_nr D_INCONSISTENT = 5" | "disk_nr D_OUTDATED = 6" | "disk_nr D_UNKNOWN = 7"
| "disk_nr D_CONSISTENT = 8" | "disk_nr D_UP_TO_DATE = 9" | "disk_nr D_MASK = 15"

lemma conn_nr_eq: "conn_nr x = conn_nr y \<longleftrightarrow> x = y"
  by (cases x; cases y; simp)

lemma repl_nr_eq: "repl_nr x = repl_nr y \<longleftrightarrow> x = y"
  by (cases x; cases y; simp)

lemma disk_nr_eq: "disk_nr x = disk_nr y \<longleftrightarrow> x = y"
  by (cases x; cases y; simp)

lemma role_nr_eq: "role_nr x = role_nr y \<longleftrightarrow> x = y"
  by (cases x; cases y; simp)

instantiation bsr_conn_state :: linorder
begin

definition less_eq_bsr_conn_state :: "bsr_conn_state \<Rightarrow> bsr_conn_state \<Rightarrow> bool" where
  "less_eq_bsr_conn_state x y \<longleftrightarrow> conn_nr x \<le> conn_nr y"

definition less_bsr_conn_state :: "bsr_conn_state \<Rightarrow> bsr_conn_state \<Rightarrow> bool" where
  "less_bsr_conn_state x y \<longleftrightarrow> conn_nr x < conn_nr y"

instance
  by standard (auto simp: less_eq_bsr_conn_state_def less_bsr_conn_state_def conn_nr_eq)

end

instantiation bsr_repl_state :: linorder
begin

definition less_eq_bsr_repl_state :: "bsr_repl_state \<Rightarrow> bsr_repl_state \<Rightarrow> bool" where
  "less_eq_bsr_repl_state x y \<longleftrightarrow> repl_nr x \<le> repl_nr y"

definition less_bsr_repl_state :: "bsr_repl_state \<Rightarrow> bsr_repl_state \<Rightarrow> bool" where
  "less_bsr_repl_state x y \<longleftrightarrow> repl_nr x < repl_nr y"

instance
  by standard (auto simp: less_eq_bsr_repl_state_def less_bsr_repl_state_def repl_nr_eq)

end

instantiation bsr_disk_state :: linorder
begin

definition less_eq_bsr_disk_state :: "bsr_disk_state \<Rightarrow> bsr_disk_state \<Rightarrow> bool" where
  "less_eq_bsr_disk_state x y \<longleftrightarrow> disk_nr x \<le> disk_nr y"

definition less_bsr_disk_state :: "bsr_disk_state \<Rightarrow> bsr_disk_state \<Rightarrow> bool" where
  "less_bsr_disk_state x y \<longleftrightarrow> disk_nr x < disk_nr y"

instance
  by standard (auto simp: less_eq_bsr_disk_state_def less_bsr_disk_state_def disk_nr_eq)

end

lemmas state_order =
  less_eq_bsr_conn_state_def less_bsr_conn_state_def less_eq_bsr_repl_state_def less_bsr_repl_state_def
  less_eq_bsr_disk_state_def less_bsr_disk_state_def

section \<open>Results of a state change\<close>

type_synonym bsr_state_rv = int

abbreviation SS_CW_NO_NEED :: bsr_state_rv where "SS_CW_NO_NEED \<equiv> 4"

abbreviation SS_CW_SUCCESS :: bsr_state_rv where "SS_CW_SUCCESS \<equiv> 3"

abbreviation SS_NOTHING_TO_DO :: bsr_state_rv where "SS_NOTHING_TO_DO \<equiv> 2"

abbreviation SS_SUCCESS :: bsr_state_rv where "SS_SUCCESS \<equiv> 1"

abbreviation SS_UNKNOWN_ERROR :: bsr_state_rv where "SS_UNKNOWN_ERROR \<equiv> 0"

abbreviation SS_TWO_PRIMARIES :: bsr_state_rv where "SS_TWO_PRIMARIES \<equiv> -1"

abbreviation SS_NO_UP_TO_DATE_DISK :: bsr_state_rv where "SS_NO_UP_TO_DATE_DISK \<equiv> -2"

abbreviation SS_NO_LOCAL_DISK :: bsr_state_rv where "SS_NO_LOCAL_DISK \<equiv> -4"

abbreviation SS_NO_REMOTE_DISK :: bsr_state_rv where "SS_NO_REMOTE_DISK \<equiv> -5"

abbreviation SS_CONNECTED_OUTDATES :: bsr_state_rv where "SS_CONNECTED_OUTDATES \<equiv> -6"

abbreviation SS_PRIMARY_NOP :: bsr_state_rv where "SS_PRIMARY_NOP \<equiv> -7"

abbreviation SS_RESYNC_RUNNING :: bsr_state_rv where "SS_RESYNC_RUNNING \<equiv> -8"

abbreviation SS_ALREADY_STANDALONE :: bsr_state_rv where "SS_ALREADY_STANDALONE \<equiv> -9"

abbreviation SS_CW_FAILED_BY_PEER :: bsr_state_rv where "SS_CW_FAILED_BY_PEER \<equiv> -10"

abbreviation SS_IS_DISKLESS :: bsr_state_rv where "SS_IS_DISKLESS \<equiv> -11"

abbreviation SS_DEVICE_IN_USE :: bsr_state_rv where "SS_DEVICE_IN_USE \<equiv> -12"

abbreviation SS_NO_NET_CONFIG :: bsr_state_rv where "SS_NO_NET_CONFIG \<equiv> -13"

abbreviation SS_NO_VERIFY_ALG :: bsr_state_rv where "SS_NO_VERIFY_ALG \<equiv> -14"

abbreviation SS_NEED_CONNECTION :: bsr_state_rv where "SS_NEED_CONNECTION \<equiv> -15"

abbreviation SS_LOWER_THAN_OUTDATED :: bsr_state_rv where "SS_LOWER_THAN_OUTDATED \<equiv> -16"

abbreviation SS_NOT_SUPPORTED :: bsr_state_rv where "SS_NOT_SUPPORTED \<equiv> -17"

abbreviation SS_IN_TRANSIENT_STATE :: bsr_state_rv where "SS_IN_TRANSIENT_STATE \<equiv> -18"

abbreviation SS_CONCURRENT_ST_CHG :: bsr_state_rv where "SS_CONCURRENT_ST_CHG \<equiv> -19"

abbreviation SS_O_VOL_PEER_PRI :: bsr_state_rv where "SS_O_VOL_PEER_PRI \<equiv> -20"

abbreviation SS_INTERRUPTED :: bsr_state_rv where "SS_INTERRUPTED \<equiv> -21"

abbreviation SS_PRIMARY_READER :: bsr_state_rv where "SS_PRIMARY_READER \<equiv> -22"

abbreviation SS_TIMEOUT :: bsr_state_rv where "SS_TIMEOUT \<equiv> -23"

abbreviation SS_WEAKLY_CONNECTED :: bsr_state_rv where "SS_WEAKLY_CONNECTED \<equiv> -24"

abbreviation SS_NO_QUORUM :: bsr_state_rv where "SS_NO_QUORUM \<equiv> -25"

abbreviation SS_TARGET_DISK_TOO_SMALL :: bsr_state_rv where "SS_TARGET_DISK_TOO_SMALL \<equiv> -27"

abbreviation SS_CONNECTED_DISKLESS :: bsr_state_rv where "SS_CONNECTED_DISKLESS \<equiv> -28"

abbreviation SS_LOWER_THAN_OUTDATED_PEER :: bsr_state_rv where "SS_LOWER_THAN_OUTDATED_PEER \<equiv> -29"

abbreviation SS_BARRIER_ACK_PENDING_TIMEOUT :: bsr_state_rv where "SS_BARRIER_ACK_PENDING_TIMEOUT \<equiv> -30"

abbreviation SS_AFTER_LAST_ERROR :: bsr_state_rv where "SS_AFTER_LAST_ERROR \<equiv> -31"

abbreviation SS_RESYNC_REPLY_DATA_PENDING_TIMEOUT :: bsr_state_rv where "SS_RESYNC_REPLY_DATA_PENDING_TIMEOUT \<equiv> -32"

text \<open>\<^verbatim>\<open>rv >= SS_SUCCESS\<close>, the test for a successful state change.\<close>

definition ok_rv :: "bsr_state_rv \<Rightarrow> bool" where
  "ok_rv rv \<longleftrightarrow> SS_SUCCESS \<le> rv"

lemma ok_rv_simps [simp]:
  "ok_rv SS_SUCCESS" "ok_rv SS_NOTHING_TO_DO" "ok_rv SS_CW_SUCCESS" "ok_rv SS_CW_NO_NEED" "\<not> ok_rv SS_UNKNOWN_ERROR"
  by (simp_all add: ok_rv_def)

section \<open>Names\<close>

text \<open>A table with holes, indexed by the state; the functions answer \<open>''?''\<close> outside of it.\<close>

fun conn_state_names :: "nat \<Rightarrow> string option" where
  "conn_state_names n = (if n < 10 then Some ([''StandAlone'', ''Disconnecting'', ''Unconnected'', ''Timeout'',
     ''BrokenPipe'', ''NetworkFailure'', ''ProtocolError'', ''TearDown'', ''Connecting'', ''Connected''] ! n) else None)"

fun repl_state_names :: "nat \<Rightarrow> string option" where
  "repl_state_names n = (if 9 \<le> n \<and> n < 24 then Some ([''Off'', ''Established'', ''StartingSyncS'', ''StartingSyncT'',
     ''WFBitMapS'', ''WFBitMapT'', ''WFSyncUUID'', ''SyncSource'', ''SyncTarget'', ''VerifyS'', ''VerifyT'',
     ''PausedSyncS'', ''PausedSyncT'', ''Ahead'', ''Behind''] ! (n - 9)) else None)"

fun role_state_names :: "nat \<Rightarrow> string option" where
  "role_state_names n = (if n < 3 then Some ([''Unknown'', ''Primary'', ''Secondary''] ! n) else None)"

fun disk_state_names :: "nat \<Rightarrow> string option" where
  "disk_state_names n = (if n < 10 then Some ([''Diskless'', ''Attaching'', ''Detaching'', ''Failed'', ''Negotiating'',
     ''Inconsistent'', ''Outdated'', ''DUnknown'', ''Consistent'', ''UpToDate''] ! n) else None)"

definition name_or_unknown :: "string option \<Rightarrow> string" where
  "name_or_unknown s = (case s of None \<Rightarrow> ''?'' | Some n \<Rightarrow> n)"

definition bsr_repl_str :: "bsr_repl_state \<Rightarrow> string" where
  "bsr_repl_str s = name_or_unknown (repl_state_names (repl_nr s))"

definition bsr_conn_str :: "bsr_conn_state \<Rightarrow> string" where
  "bsr_conn_str s = name_or_unknown (conn_state_names (conn_nr s))"

definition bsr_role_str :: "bsr_role \<Rightarrow> string" where
  "bsr_role_str s = name_or_unknown (role_state_names (role_nr s))"

definition bsr_disk_str :: "bsr_disk_state \<Rightarrow> string" where
  "bsr_disk_str s = name_or_unknown (disk_state_names (disk_nr s))"

definition error_messages :: "(nat \<times> string) list" where
  "error_messages = [
     (nat (- SS_TWO_PRIMARIES), ''Multiple primaries not allowed by config''),
     (nat (- SS_NO_UP_TO_DATE_DISK), ''Need access to UpToDate data''),
     (nat (- SS_NO_LOCAL_DISK), ''Can not resync without local disk''),
     (nat (- SS_NO_REMOTE_DISK), ''Can not resync without remote disk''),
     (nat (- SS_CONNECTED_OUTDATES), ''Refusing to be Outdated while Connected''),
     (nat (- SS_PRIMARY_NOP), ''Refusing to be Primary while peer is not outdated''),
     (nat (- SS_RESYNC_RUNNING), ''Can not start OV/resync since it is already active''),
     (nat (- SS_ALREADY_STANDALONE), ''Can not disconnect a StandAlone device''),
     (nat (- SS_CW_FAILED_BY_PEER), ''State change was refused by peer node''),
     (nat (- SS_IS_DISKLESS), ''Device is diskless, the requested operation requires a disk''),
     (nat (- SS_DEVICE_IN_USE), ''Device is held open by someone''),
     (nat (- SS_NO_NET_CONFIG), ''Have no net/connection configuration''),
     (nat (- SS_NO_VERIFY_ALG), ''Need a verify algorithm to start online verify''),
     (nat (- SS_NEED_CONNECTION), ''Need a connection to start verify or resync''),
     (nat (- SS_NOT_SUPPORTED), ''Peer does not support protocol''),
     (nat (- SS_LOWER_THAN_OUTDATED), ''Disk state is lower than outdated''),
     (nat (- SS_IN_TRANSIENT_STATE), ''In transient state, retry after next state change''),
     (nat (- SS_CONCURRENT_ST_CHG), ''Concurrent state changes detected and aborted''),
     (nat (- SS_O_VOL_PEER_PRI), ''Other vol primary on peer not allowed by config''),
     (nat (- SS_PRIMARY_READER), ''Peer may not become primary while device is opened read-only''),
     (nat (- SS_INTERRUPTED), ''Interrupted state change''),
     (nat (- SS_TIMEOUT), ''Timeout in operation''),
     (nat (- SS_WEAKLY_CONNECTED), ''Primary nodes must be strongly connected among each other''),
     (nat (- SS_NO_QUORUM), ''No quorum''),
     (nat (- SS_TARGET_DISK_TOO_SMALL), ''Target disk is smaller than source.''),
     (nat (- SS_CONNECTED_DISKLESS), ''Refusing to be Diskless while Connected''),
     (nat (- SS_LOWER_THAN_OUTDATED_PEER), ''Peer disk state is lower than outdated''),
     (nat (- SS_BARRIER_ACK_PENDING_TIMEOUT), ''Failed to set secondary role due to barrier ack pending timeout(10s). Retry to demote first(bsradm secondary r0). if demote timeout continues, disconnect and demote forcibly.''),
     (nat (- SS_RESYNC_REPLY_DATA_PENDING_TIMEOUT), ''Failed to set secondary role due to resync reply data pending timeout(10s). Retry to demote first(drbdadm secondary r0). if demote timeout continues, disconnect and demote forcibly.'')]"

definition bsr_set_st_err_str :: "bsr_state_rv \<Rightarrow> string" where
  "bsr_set_st_err_str err = name_or_unknown (if - err < 0 then None else map_of error_messages (nat (- err)))"

end
