(* ===== verification/State.thy ===== *)
theory State
  imports State_Types
begin

text \<open>
  The states of a resource and the rules of \<^verbatim>\<open>bsr/bsr_state.c\<close> for changing them.

  Each state is kept twice (\<open>two\<close>): the value \<open>now\<close> in effect (\<^verbatim>\<open>[NOW]\<close>, also called \<^verbatim>\<open>[OLD]\<close>) and the value
  \<open>new\<close> that a state change prepares (\<^verbatim>\<open>[NEW]\<close>).  A resource has a list of connections and a list of
  devices; a device has its peer devices, each with the index of its connection.  Every device has
  a peer device for every connection.  Flag words of which only single bits are used are sets of
  flags; the flags of the on-disk meta-data keep their bit positions.

  Logging, RCU and lock calls are not modelled.
\<close>

section \<open>The objects\<close>

datatype 'a two = Two (now: 'a) (new: 'a)

datatype which_state = NOW | NEW

abbreviation OLD :: which_state where "OLD \<equiv> NOW"

fun at_state :: "which_state \<Rightarrow> 'a two \<Rightarrow> 'a" where
  "at_state NOW t = now t"
| "at_state NEW t = new t"

definition set_new :: "'a \<Rightarrow> 'a two \<Rightarrow> 'a two" where
  "set_new v t = Two (now t) v"

lemma now_set_new [simp]: "now (set_new v t) = now t"
  and new_set_new [simp]: "new (set_new v t) = v"
  by (simp_all add: set_new_def)

datatype fencing_policy = FP_DONT_CARE | FP_RESOURCE | FP_STONITH

datatype on_no_data = OND_IO_ERROR | OND_SUSPEND_IO

definition QOU_OFF :: nat where "QOU_OFF = 0"
definition QOU_MAJORITY :: nat where "QOU_MAJORITY = 1024"
definition QOU_ALL :: nat where "QOU_ALL = 1025"

datatype chg_state_flag =
    CS_HARD | CS_VERBOSE | CS_WAIT_COMPLETE | CS_SERIALIZE | CS_ALREADY_SERIALIZED | CS_LOCAL_ONLY | CS_PREPARE
  | CS_PREPARED | CS_ABORT | CS_TWOPC | CS_IGN_OUTD_FAIL | CS_DONT_RETRY

datatype peer_flag =
    INITIAL_STATE_SENT | INITIAL_STATE_RECEIVED | INITIAL_SIZE_RECEIVED | RECONCILIATION_RESYNC | RESYNC_ABORTED
  | UNSTABLE_TRIGGER_CP | RS_DONE | CONSIDER_RESYNC | SEND_STATE_AFTER_AHEAD | UNSTABLE_RESYNC

definition MDF_CONSISTENT :: nat where "MDF_CONSISTENT = 0"
definition MDF_PRIMARY_IND :: nat where "MDF_PRIMARY_IND = 1"
definition MDF_WAS_UP_TO_DATE :: nat where "MDF_WAS_UP_TO_DATE = 4"
definition MDF_CRASHED_PRIMARY :: nat where "MDF_CRASHED_PRIMARY = 6"
definition MDF_AL_CLEAN :: nat where "MDF_AL_CLEAN = 7"
definition MDF_PEER_CONNECTED :: nat where "MDF_PEER_CONNECTED = 0"
definition MDF_PEER_OUTDATED :: nat where "MDF_PEER_OUTDATED = 1"
definition MDF_PEER_FENCING :: nat where "MDF_PEER_FENCING = 2"
definition MDF_PEER_DEVICE_SEEN :: nat where "MDF_PEER_DEVICE_SEEN = 4"
definition MDF_NODE_EXISTS :: nat where "MDF_NODE_EXISTS = 16"

definition UUID_FLAG_STABLE :: nat where "UUID_FLAG_STABLE = 5"
definition UUID_FLAG_GOT_STABLE :: nat where "UUID_FLAG_GOT_STABLE = 6"

definition BSR_NODE_ID_MAX :: nat where "BSR_NODE_ID_MAX = 32"

record bsr_peer_md =
  pmd_bitmap_index :: int
  pmd_flags :: u32

record bsr_md =
  md_node_id :: nat
  md_flags :: u32
  md_peers :: "bsr_peer_md list"

record bsr_peer_device =
  pd_node_id :: nat
  pd_conn :: nat
  pd_bitmap_index :: int
  pd_bitmap_uuid :: u64
  pd_disk_state :: "bsr_disk_state two"
  pd_repl_state :: "bsr_repl_state two"
  resync_susp_user :: "bool two"
  resync_susp_peer :: "bool two"
  resync_susp_dependency :: "bool two"
  resync_susp_other_c :: "bool two"
  negotiation_result :: bsr_repl_state
  uuids_received :: bool
  uuid_flags :: u64
  uuid_authoritative_nodes :: u64
  resync_seq :: nat
  al_oos_cnt :: nat
  pd_flags :: "peer_flag set"

datatype device_flag = NEW_CUR_UUID_SCHEDULED | NEW_CUR_UUID | CRASHED_PRIMARY | UNREGISTERED | AL_SUSPENDED

record bsr_device =
  dev_disk_state :: "bsr_disk_state two"
  susp_quorum :: "bool two"
  open_ro_cnt :: nat
  open_rw_cnt :: nat
  dev_md :: bsr_md
  dev_flags :: "device_flag set"
  peer_devices :: "bsr_peer_device list"

record net_conf =
  two_primaries :: bool
  verify_alg :: string

datatype conn_flag = DISCONNECT_EXPECTED | SEND_STATE_AFTER_AHEAD_C | BARRIER_ACK_PENDING

record bsr_connection =
  cstate :: "bsr_conn_state two"
  peer_role :: "bsr_role two"
  susp_fen :: "bool two"
  conn_net_conf :: "net_conf option"
  fencing :: fencing_policy
  agreed_pro_version :: nat
  peer_node_id :: nat
  conn_flags :: "conn_flag set"

record bsr_resource =
  role :: "bsr_role two"
  susp :: "bool two"
  susp_nod :: "bool two"
  connections :: "bsr_connection list"
  devices :: "bsr_device list"
  res_node_id :: nat
  quorum :: nat
  on_no_data :: on_no_data
  state_change_flags :: "chg_state_flag set"
  negotiation_result_touched :: bool
  remote_state_change :: bool
  twopc_initiator_node_id :: int
  twopc_tid :: u32
  twopc_primary_nodes :: u64
  twopc_reachable_nodes :: u64

definition pd_connection :: "bsr_connection list \<Rightarrow> bsr_peer_device \<Rightarrow> bsr_connection" where
  "pd_connection conns p = conns ! pd_conn p"

text \<open>\<^verbatim>\<open>get_ldev_if_state\<close> succeeds when the current disk state is not below the minimum, and never when diskless.\<close>

definition get_ldev_if_state :: "bsr_disk_state \<Rightarrow> bsr_device \<Rightarrow> bool" where
  "get_ldev_if_state mins dev \<longleftrightarrow> now (dev_disk_state dev) \<noteq> D_DISKLESS \<and> mins \<le> now (dev_disk_state dev)"

definition get_ldev :: "bsr_device \<Rightarrow> bool" where
  "get_ldev dev = get_ldev_if_state D_INCONSISTENT dev"

definition peer_device_by_node_id :: "bsr_device \<Rightarrow> nat \<Rightarrow> bsr_peer_device option" where
  "peer_device_by_node_id dev node_id = find (\<lambda>p. pd_node_id p = node_id) (peer_devices dev)"

definition NODE_MASK :: "nat \<Rightarrow> u64" where
  "NODE_MASK n = push_bit n 1"

section \<open>Changing the new state\<close>

definition change_peer_role0 :: "bsr_role \<Rightarrow> bsr_connection \<Rightarrow> bsr_connection" where
  "change_peer_role0 v c = c\<lparr>peer_role := set_new v (peer_role c)\<rparr>"

definition change_cstate_state0 :: "bsr_conn_state \<Rightarrow> bsr_connection \<Rightarrow> bsr_connection" where
  "change_cstate_state0 v c = c\<lparr>cstate := set_new v (cstate c)\<rparr>"

definition change_io_susp_fencing0 :: "bool \<Rightarrow> bsr_connection \<Rightarrow> bsr_connection" where
  "change_io_susp_fencing0 v c = c\<lparr>susp_fen := set_new v (susp_fen c)\<rparr>"

definition change_disk_state0 :: "bsr_disk_state \<Rightarrow> bsr_device \<Rightarrow> bsr_device" where
  "change_disk_state0 v d = d\<lparr>dev_disk_state := set_new v (dev_disk_state d)\<rparr>"

definition change_io_susp_quorum0 :: "bool \<Rightarrow> bsr_device \<Rightarrow> bsr_device" where
  "change_io_susp_quorum0 v d = d\<lparr>susp_quorum := set_new v (susp_quorum d)\<rparr>"

definition change_repl_state0 :: "bsr_repl_state \<Rightarrow> bsr_peer_device \<Rightarrow> bsr_peer_device" where
  "change_repl_state0 v p = p\<lparr>pd_repl_state := set_new v (pd_repl_state p)\<rparr>"

definition change_peer_disk_state0 :: "bsr_disk_state \<Rightarrow> bsr_peer_device \<Rightarrow> bsr_peer_device" where
  "change_peer_disk_state0 v p = p\<lparr>pd_disk_state := set_new v (pd_disk_state p)\<rparr>"

definition change_resync_susp_user0 :: "bool \<Rightarrow> bsr_peer_device \<Rightarrow> bsr_peer_device" where
  "change_resync_susp_user0 v p = p\<lparr>resync_susp_user := set_new v (resync_susp_user p)\<rparr>"

definition change_resync_susp_peer0 :: "bool \<Rightarrow> bsr_peer_device \<Rightarrow> bsr_peer_device" where
  "change_resync_susp_peer0 v p = p\<lparr>resync_susp_peer := set_new v (resync_susp_peer p)\<rparr>"

definition change_resync_susp_dependency0 :: "bool \<Rightarrow> bsr_peer_device \<Rightarrow> bsr_peer_device" where
  "change_resync_susp_dependency0 v p = p\<lparr>resync_susp_dependency := set_new v (resync_susp_dependency p)\<rparr>"

definition change_resync_susp_other_c0 :: "bool \<Rightarrow> bsr_peer_device \<Rightarrow> bsr_peer_device" where
  "change_resync_susp_other_c0 v p = p\<lparr>resync_susp_other_c := set_new v (resync_susp_other_c p)\<rparr>"

definition change_io_susp_user0 :: "bool \<Rightarrow> bsr_resource \<Rightarrow> bsr_resource" where
  "change_io_susp_user0 v r = r\<lparr>susp := set_new v (susp r)\<rparr>"

definition change_io_susp_no_data0 :: "bool \<Rightarrow> bsr_resource \<Rightarrow> bsr_resource" where
  "change_io_susp_no_data0 v r = r\<lparr>susp_nod := set_new v (susp_nod r)\<rparr>"

lemmas change_defs =
  change_peer_role0_def change_cstate_state0_def change_io_susp_fencing0_def change_disk_state0_def
  change_io_susp_quorum0_def change_repl_state0_def change_peer_disk_state0_def change_resync_susp_user0_def
  change_resync_susp_peer0_def change_resync_susp_dependency0_def change_resync_susp_other_c0_def
  change_io_susp_user0_def change_io_susp_no_data0_def

section \<open>Questions about the state\<close>

definition may_be_up_to_date :: "bsr_device \<Rightarrow> bool" where
  "may_be_up_to_date dev =
     list_all (\<lambda>node_id.
       let peer_md = md_peers (dev_md dev) ! node_id;
           outdated = bit (pmd_flags peer_md) MDF_PEER_OUTDATED
       in node_id = md_node_id (dev_md dev) \<or>
          (pmd_bitmap_index peer_md = -1 \<and> \<not> bit (pmd_flags peer_md) MDF_NODE_EXISTS) \<or>
          \<not> bit (pmd_flags peer_md) MDF_PEER_FENCING \<or>
          (case (case peer_device_by_node_id dev node_id of Some p \<Rightarrow> new (pd_disk_state p) | None \<Rightarrow> D_UNKNOWN) of
             D_DISKLESS \<Rightarrow> \<not> bit (pmd_flags peer_md) MDF_PEER_DEVICE_SEEN \<or> outdated
           | D_ATTACHING \<Rightarrow> outdated
           | D_DETACHING \<Rightarrow> outdated
           | D_FAILED \<Rightarrow> outdated
           | D_NEGOTIATING \<Rightarrow> outdated
           | D_UNKNOWN \<Rightarrow> outdated
           | D_INCONSISTENT \<Rightarrow> True
           | D_OUTDATED \<Rightarrow> True
           | D_CONSISTENT \<Rightarrow> True
           | D_UP_TO_DATE \<Rightarrow> True
           | D_MASK \<Rightarrow> False))
     [0..<BSR_NODE_ID_MAX]"

definition disk_state_from_md :: "bsr_device \<Rightarrow> bsr_disk_state" where
  "disk_state_from_md dev =
     (if \<not> bit (md_flags (dev_md dev)) MDF_CONSISTENT then D_INCONSISTENT
      else if \<not> bit (md_flags (dev_md dev)) MDF_WAS_UP_TO_DATE then D_OUTDATED
      else if may_be_up_to_date dev then D_UP_TO_DATE else D_CONSISTENT)"

definition is_suspended_fen :: "which_state \<Rightarrow> bsr_resource \<Rightarrow> bool" where
  "is_suspended_fen w r = list_ex (\<lambda>c. at_state w (susp_fen c)) (connections r)"

definition is_suspended_quorum :: "which_state \<Rightarrow> bsr_resource \<Rightarrow> bool" where
  "is_suspended_quorum w r = list_ex (\<lambda>d. at_state w (susp_quorum d)) (devices r)"

definition resource_is_suspended :: "which_state \<Rightarrow> bsr_resource \<Rightarrow> bool" where
  "resource_is_suspended w r \<longleftrightarrow>
     at_state w (susp r) \<or> at_state w (susp_nod r) \<or> is_suspended_fen w r \<or> is_suspended_quorum w r"

definition resync_suspended :: "which_state \<Rightarrow> bsr_peer_device \<Rightarrow> bool" where
  "resync_suspended w p \<longleftrightarrow> at_state w (resync_susp_user p) \<or> at_state w (resync_susp_peer p) \<or>
     at_state w (resync_susp_dependency p) \<or> at_state w (resync_susp_other_c p)"

definition local_disk_may_be_outdated :: "which_state \<Rightarrow> bsr_resource \<Rightarrow> bsr_device \<Rightarrow> bool" where
  "local_disk_may_be_outdated w r dev \<longleftrightarrow>
     at_state w (role r) \<noteq> R_PRIMARY \<and>
     (\<not> list_ex (\<lambda>p. at_state w (peer_role (pd_connection (connections r) p)) = R_PRIMARY \<and>
          L_OFF < at_state w (pd_repl_state p)) (peer_devices dev) \<or>
      list_ex (\<lambda>p. at_state w (pd_repl_state p) \<in>
          {L_WF_SYNC_UUID, L_WF_BITMAP_T, L_STARTING_SYNC_T, L_SYNC_TARGET, L_PAUSED_SYNC_T, L_BEHIND}) (peer_devices dev))"

record quorum_info =
  voters :: nat
  votes :: nat
  quorum_at :: nat

definition count_vote :: "which_state \<Rightarrow> bsr_resource \<Rightarrow> bsr_device \<Rightarrow> nat \<Rightarrow> nat \<times> nat \<times> nat \<Rightarrow> nat \<times> nat \<times> nat" where
  "count_vote w r dev node_id c =
     (case c of (vs, outdated, unknown) \<Rightarrow>
        let peer_md = md_peers (dev_md dev) ! node_id;
            disk_state = (case peer_device_by_node_id dev node_id of Some p \<Rightarrow> at_state w (pd_disk_state p) | None \<Rightarrow> D_UNKNOWN)
        in if node_id = res_node_id r then (vs + 1, outdated, unknown)
           else if pmd_bitmap_index peer_md = -1 \<and> \<not> bit (pmd_flags peer_md) MDF_NODE_EXISTS then (vs, outdated, unknown)
           else if disk_state = D_OUTDATED then (vs, outdated + 1, unknown)
           else if disk_state = D_UNKNOWN \<or> disk_state \<le> D_FAILED then (vs, outdated, unknown + 1)
           else (vs + 1, outdated, unknown))"

definition calc_quorum :: "which_state \<Rightarrow> bsr_resource \<Rightarrow> bsr_device \<Rightarrow> bool \<times> quorum_info" where
  "calc_quorum w r dev =
     (case fold (count_vote w r dev) [0..<BSR_NODE_ID_MAX] (0, 0, 0) of (vs, outdated, unknown) \<Rightarrow>
        let total = (if unknown \<noteq> 0 then outdated + unknown + vs else vs);
            need = (if quorum r = QOU_MAJORITY then total div 2 + 1
                    else if quorum r = QOU_ALL then total
                    else quorum r)
        in (need \<le> vs, \<lparr>voters = total, votes = vs, quorum_at = need\<rparr>))"

definition all_neighbor_secondary_ex :: "which_state \<Rightarrow> bsr_resource \<Rightarrow> bool \<times> u64" where
  "all_neighbor_secondary_ex w r =
     (let ps = filter (\<lambda>c. C_CONNECTED \<le> at_state w (cstate c) \<and> at_state w (peer_role c) = R_PRIMARY) (connections r)
      in (ps = [], fold (\<lambda>c m. m OR NODE_MASK (peer_node_id c)) ps 0))"

definition conn_peer_devices :: "bsr_resource \<Rightarrow> bsr_device \<Rightarrow> bsr_peer_device list" where
  "conn_peer_devices r dev =
     concat (map (\<lambda>c. filter (\<lambda>p. pd_conn p = c) (peer_devices dev)) [0..<length (connections r)])"

definition bsr_device_stable_ex :: "which_state \<Rightarrow> bsr_resource \<Rightarrow> bsr_device \<Rightarrow> bool \<times> u64" where
  "bsr_device_stable_ex w r dev =
     (if at_state w (role r) = R_PRIMARY then (True, 0)
      else case all_neighbor_secondary_ex w r of
        (False, authoritative) \<Rightarrow> (False, authoritative)
      | (True, authoritative) \<Rightarrow>
          (case find (\<lambda>p. at_state w (pd_repl_state p) \<in> {L_BEHIND, L_WF_BITMAP_T, L_SYNC_TARGET, L_PAUSED_SYNC_T})
                  (conn_peer_devices r dev) of
             None \<Rightarrow> (True, authoritative)
           | Some p \<Rightarrow> (False, authoritative OR NODE_MASK (pd_node_id p))))"

definition bsr_inspect_resync_side ::
    "bsr_resource \<Rightarrow> bsr_device \<Rightarrow> bsr_peer_device \<Rightarrow> bsr_repl_state \<Rightarrow> which_state \<Rightarrow> bool" where
  "bsr_inspect_resync_side r dev p repl w \<longleftrightarrow>
     uuids_received p \<and>
     (case bsr_device_stable_ex w r dev of (is_stable, authoritative) \<Rightarrow>
        if repl \<in> {L_STARTING_SYNC_T, L_WF_BITMAP_T, L_SYNC_TARGET, L_PAUSED_SYNC_T, L_VERIFY_T} then
          bit (uuid_flags p) UUID_FLAG_STABLE \<and> (is_stable \<or> NODE_MASK (pd_node_id p) AND authoritative \<noteq> 0)
        else if repl \<in> {L_STARTING_SYNC_S, L_WF_BITMAP_S, L_SYNC_SOURCE, L_PAUSED_SYNC_S, L_VERIFY_S} then
          is_stable \<and> (bit (uuid_flags p) UUID_FLAG_STABLE \<or> NODE_MASK (res_node_id r) AND uuid_authoritative_nodes p \<noteq> 0)
        else False)"

definition lost_contact_to_peer_data :: "bsr_disk_state two \<Rightarrow> bool" where
  "lost_contact_to_peer_data t \<longleftrightarrow>
     (D_INCONSISTENT \<le> now t \<and> now t \<noteq> D_UNKNOWN \<and> now t \<noteq> D_OUTDATED) \<and>
     (new t < D_INCONSISTENT \<or> new t = D_UNKNOWN \<or> new t = D_OUTDATED)"

definition got_contact_to_peer_data :: "bsr_disk_state two \<Rightarrow> bool" where
  "got_contact_to_peer_data t \<longleftrightarrow>
     (D_INCONSISTENT \<le> new t \<and> new t \<noteq> D_UNKNOWN \<and> new t \<noteq> D_OUTDATED) \<and>
     (now t < D_INCONSISTENT \<or> now t = D_UNKNOWN \<or> now t = D_OUTDATED)"

definition is_sync_target_other_c :: "nat \<Rightarrow> bsr_device \<Rightarrow> bool" where
  "is_sync_target_other_c k dev =
     list_ex (\<lambda>i. i \<noteq> k \<and> new (pd_repl_state (peer_devices dev ! i)) \<in> {L_SYNC_TARGET, L_PAUSED_SYNC_T})
       [0..<length (peer_devices dev)]"

definition conn_highest_disk :: "nat \<Rightarrow> bsr_resource \<Rightarrow> bsr_disk_state" where
  "conn_highest_disk c r =
     fold (\<lambda>d s. if list_ex (\<lambda>p. pd_conn p = c) (peer_devices d) then max s (now (dev_disk_state d)) else s)
       (devices r) D_DISKLESS"

definition conn_lowest_disk :: "nat \<Rightarrow> bsr_resource \<Rightarrow> bsr_disk_state" where
  "conn_lowest_disk c r =
     fold (\<lambda>d s. if list_ex (\<lambda>p. pd_conn p = c) (peer_devices d) then min s (now (dev_disk_state d)) else s)
       (devices r) D_MASK"

definition conn_pds :: "nat \<Rightarrow> bsr_resource \<Rightarrow> bsr_peer_device list" where
  "conn_pds c r = concat (map (\<lambda>d. filter (\<lambda>p. pd_conn p = c) (peer_devices d)) (devices r))"

definition conn_highest_pdsk :: "nat \<Rightarrow> bsr_resource \<Rightarrow> bsr_disk_state" where
  "conn_highest_pdsk c r = fold (\<lambda>p s. max s (now (pd_disk_state p))) (conn_pds c r) D_DISKLESS"

definition conn_lowest_repl_state :: "nat \<Rightarrow> bsr_resource \<Rightarrow> bsr_repl_state" where
  "conn_lowest_repl_state c r =
     (case conn_pds c r of
        [] \<Rightarrow> L_OFF
      | p # ps \<Rightarrow> fold (\<lambda>p s. min s (now (pd_repl_state p))) ps (now (pd_repl_state p)))"

definition all_peer_devices_connected :: "nat \<Rightarrow> bsr_resource \<Rightarrow> bool" where
  "all_peer_devices_connected c r = list_all (\<lambda>p. \<not> now (pd_repl_state p) < L_ESTABLISHED) (conn_pds c r)"

end
