(* ===== verification/State_Rules.thy ===== *)
theory State_Rules
  imports State
begin

text \<open>
  The rules for state changes of \<^verbatim>\<open>bsr/bsr_state.c\<close>: which hard and soft transitions are allowed
  (\<^verbatim>\<open>is_valid_transition\<close>, \<^verbatim>\<open>__is_valid_soft_transition\<close>) and what a change implies for the rest of the
  state (\<^verbatim>\<open>sanitize_state\<close>).

  A chain of \<^verbatim>\<open>if (...) return SS_...;\<close> is \<open>first_of\<close> on the list of its conditions and results.  The body
  of the peer device loop of \<^verbatim>\<open>sanitize_state\<close> is cut into its blocks \<open>san_...\<close>, which \<open>san_peer_device\<close>
  puts together in the order of the source.
\<close>

section \<open>Hard transitions\<close>

fun first_of :: "(bool \<times> bsr_state_rv) list \<Rightarrow> bsr_state_rv option" where
  "first_of [] = None"
| "first_of ((b, e) # xs) = (if b then Some e else first_of xs)"

definition is_valid_conn_transition :: "bsr_conn_state \<Rightarrow> bsr_conn_state \<Rightarrow> bsr_state_rv" where
  "is_valid_conn_transition oc nc =
     (if oc = nc then SS_NOTHING_TO_DO
      else if oc = C_STANDALONE \<and> nc = C_DISCONNECTING then SS_ALREADY_STANDALONE
      else if oc = C_STANDALONE \<and> nc \<noteq> C_UNCONNECTED then SS_NEED_CONNECTION
      else if C_TIMEOUT \<le> oc \<and> oc \<le> C_TEAR_DOWN \<and> nc \<noteq> C_UNCONNECTED \<and> nc \<noteq> C_DISCONNECTING then SS_IN_TRANSIENT_STATE
      else if oc = C_DISCONNECTING \<and> nc \<noteq> C_STANDALONE then SS_IN_TRANSIENT_STATE
      else SS_SUCCESS)"

definition valid_conn :: "bsr_resource \<Rightarrow> nat \<Rightarrow> bsr_state_rv option" where
  "valid_conn r i =
     (let c = connections r ! i; rv = is_valid_conn_transition (now (cstate c)) (new (cstate c))
      in first_of [(\<not> ok_rv rv, rv),
           (list_ex (\<lambda>p. now (cstate c) < C_CONNECTED \<and> L_ESTABLISHED \<le> new (pd_repl_state p)) (conn_pds i r),
            SS_NEED_CONNECTION)])"

fun first_some :: "('a \<Rightarrow> 'b option) \<Rightarrow> 'a list \<Rightarrow> 'b option" where
  "first_some f [] = None"
| "first_some f (x # xs) = (case f x of None \<Rightarrow> first_some f xs | Some y \<Rightarrow> Some y)"

definition valid_device :: "bsr_device \<Rightarrow> bsr_state_rv option" where
  "valid_device d =
     first_of [((new (dev_disk_state d) = D_FAILED \<or> new (dev_disk_state d) = D_DETACHING) \<and>
                now (dev_disk_state d) = D_DISKLESS, SS_IS_DISKLESS)]"

definition is_valid_transition :: "bsr_resource \<Rightarrow> bsr_state_rv" where
  "is_valid_transition r =
     (case first_some (valid_conn r) [0..<length (connections r)] of
        Some rv \<Rightarrow> rv
      | None \<Rightarrow> (case first_some valid_device (devices r) of Some rv \<Rightarrow> rv | None \<Rightarrow> SS_SUCCESS))"

section \<open>Soft transitions\<close>

definition soft_promote :: "bsr_resource \<Rightarrow> bsr_state_rv option" where
  "soft_promote r =
     (if now (role r) \<noteq> R_PRIMARY \<and> new (role r) = R_PRIMARY then
        first_some (\<lambda>c. case conn_net_conf c of
            None \<Rightarrow> None
          | Some nc \<Rightarrow> first_of [(\<not> two_primaries nc \<and> new (peer_role c) = R_PRIMARY, SS_TWO_PRIMARIES)]) (connections r)
      else None)"

definition soft_conn :: "bsr_resource \<Rightarrow> nat \<Rightarrow> bsr_state_rv option" where
  "soft_conn r i =
     (let c = connections r ! i; oc = now (cstate c); nc = new (cstate c);
          two = (case conn_net_conf c of None \<Rightarrow> False | Some n \<Rightarrow> two_primaries n);
          peer_promotes = new (peer_role c) = R_PRIMARY \<and> now (peer_role c) \<noteq> R_PRIMARY \<and> \<not> two
      in first_of
          [(nc = C_DISCONNECTING \<and> oc = C_STANDALONE, SS_ALREADY_STANDALONE),
           (nc = C_CONNECTING \<and> oc < C_UNCONNECTED, SS_NO_NET_CONFIG),
           (nc = C_DISCONNECTING \<and> oc = C_UNCONNECTED, SS_IN_TRANSIENT_STATE),
           (\<not> (oc = C_CONNECTED \<or> nc = C_CONNECTED \<and> oc = C_CONNECTING) \<and>
            list_ex (\<lambda>p. INITIAL_STATE_SENT \<in> pd_flags p \<and> INITIAL_STATE_RECEIVED \<notin> pd_flags p) (conn_pds i r),
            SS_IN_TRANSIENT_STATE),
           (peer_promotes \<and> now (role r) = R_PRIMARY, SS_TWO_PRIMARIES),
           (peer_promotes \<and> list_ex (\<lambda>d. open_ro_cnt d \<noteq> 0) (devices r), SS_PRIMARY_READER)])"

definition any_disk_up_to_date :: "which_state \<Rightarrow> bsr_device \<Rightarrow> bool" where
  "any_disk_up_to_date w d \<longleftrightarrow> at_state w (dev_disk_state d) = D_UP_TO_DATE \<or>
     list_ex (\<lambda>p. at_state w (pd_disk_state p) = D_UP_TO_DATE) (peer_devices d)"

text \<open>
  Outdating a disk below \<open>D_OUTDATED\<close> is refused unless a resync just finished.  The loop that looks for
  that clears \<open>RECONCILIATION_RESYNC\<close> on the peer devices it passes.
\<close>

fun soft_outdate :: "bsr_peer_device list \<Rightarrow> bool \<times> bsr_peer_device list" where
  "soft_outdate [] = (False, [])"
| "soft_outdate (p # ps) =
     (if now (pd_repl_state p) = L_SYNC_TARGET \<and> new (pd_repl_state p) = L_ESTABLISHED then (True, p # ps)
      else let p' = (if RECONCILIATION_RESYNC \<in> pd_flags p \<and> new (pd_repl_state p) = L_WF_BITMAP_S
                     then p\<lparr>pd_flags := pd_flags p - {RECONCILIATION_RESYNC}\<rparr> else p)
           in case soft_outdate ps of (allow, ps') \<Rightarrow> (allow, p' # ps'))"

definition is_verify :: "bsr_repl_state \<Rightarrow> bool" where
  "is_verify s \<longleftrightarrow> s = L_VERIFY_S \<or> s = L_VERIFY_T"

definition soft_peer :: "bsr_resource \<Rightarrow> bsr_device \<Rightarrow> nat \<Rightarrow> bsr_peer_device \<Rightarrow> bsr_state_rv option" where
  "soft_peer r d nr_negotiating p =
     (let c = pd_connection (connections r) p;
          od = now (dev_disk_state d); nd = new (dev_disk_state d);
          op = now (pd_disk_state p); np = new (pd_disk_state p);
          ol = now (pd_repl_state p); nl = new (pd_repl_state p)
      in first_of
          [(1 < nr_negotiating, SS_IN_TRANSIENT_STATE),
           (nl = L_WF_BITMAP_T \<and> np = D_OUTDATED \<and> op < D_OUTDATED \<and> op \<noteq> D_ATTACHING, SS_LOWER_THAN_OUTDATED_PEER),
           (fencing c \<noteq> FP_DONT_CARE \<and>
            \<not> (now (role r) = R_PRIMARY \<and> ol < L_ESTABLISHED \<and> \<not> op \<le> D_OUTDATED) \<and>
            (new (role r) = R_PRIMARY \<and> nl < L_ESTABLISHED \<and> \<not> np \<le> D_OUTDATED), SS_PRIMARY_NOP),
           (\<not> (L_ESTABLISHED < ol \<and> od < D_INCONSISTENT) \<and> (L_ESTABLISHED < nl \<and> nd < D_INCONSISTENT), SS_NO_LOCAL_DISK),
           (\<not> (L_ESTABLISHED < ol \<and> op < D_INCONSISTENT) \<and> (L_ESTABLISHED < nl \<and> np < D_INCONSISTENT), SS_NO_REMOTE_DISK),
           (D_OUTDATED < od \<and> nd = D_OUTDATED \<and> \<not> local_disk_may_be_outdated NEW r d, SS_CONNECTED_OUTDATES),
           (\<not> is_verify ol \<and> is_verify nl \<and>
            (case conn_net_conf c of None \<Rightarrow> True | Some n \<Rightarrow> verify_alg n = []), SS_NO_VERIFY_ALG),
           (ol = L_SYNC_SOURCE \<and> nl = L_WF_BITMAP_S, SS_RESYNC_RUNNING),
           (ol = L_SYNC_TARGET \<and> nl = L_WF_BITMAP_T, SS_RESYNC_RUNNING),
           (nl \<noteq> ol \<and> (nl = L_STARTING_SYNC_T \<or> nl = L_STARTING_SYNC_S) \<and> L_ESTABLISHED < ol, SS_RESYNC_RUNNING),
           (is_verify nl \<and> ol < L_ESTABLISHED, SS_NEED_CONNECTION),
           (is_verify nl \<and> nl \<noteq> ol \<and> L_ESTABLISHED < ol, SS_RESYNC_RUNNING),
           ((nl = L_STARTING_SYNC_S \<or> nl = L_STARTING_SYNC_T) \<and> ol < L_ESTABLISHED, SS_NEED_CONNECTION),
           ((nl = L_SYNC_TARGET \<or> nl = L_SYNC_SOURCE) \<and> ol < L_OFF, SS_NEED_CONNECTION)])"

fun soft_peers :: "bsr_resource \<Rightarrow> bsr_device \<Rightarrow> nat \<Rightarrow> bsr_peer_device list \<Rightarrow> bsr_state_rv option" where
  "soft_peers r d n [] = None"
| "soft_peers r d n (p # ps) =
     (let n' = (if new (pd_disk_state p) = D_NEGOTIATING then n + 1 else n)
      in case soft_peer r d n' p of Some e \<Rightarrow> Some e | None \<Rightarrow> soft_peers r d n' ps)"

definition soft_no_quorum :: "bsr_resource \<Rightarrow> bsr_device \<Rightarrow> bool" where
  "soft_no_quorum r d \<longleftrightarrow> new (role r) = R_PRIMARY \<and> quorum r \<noteq> QOU_OFF \<and> get_ldev d \<and>
     (now (role r) = R_PRIMARY \<longrightarrow> fst (calc_quorum OLD r d)) \<and> \<not> fst (calc_quorum NEW r d)"

definition soft_device :: "bsr_resource \<Rightarrow> bsr_device \<Rightarrow> bsr_state_rv option \<times> bsr_device" where
  "soft_device r d =
     (let od = now (dev_disk_state d); nd = new (dev_disk_state d);
          head = first_of
            [(now (role r) \<noteq> R_SECONDARY \<and> new (role r) = R_SECONDARY \<and> open_rw_cnt d \<noteq> 0, SS_DEVICE_IN_USE),
             (D_ATTACHING < nd \<and> od = D_DISKLESS, SS_IS_DISKLESS)];
          (allow, pds) = (if nd = D_OUTDATED \<and> od < D_OUTDATED \<and> od \<noteq> D_ATTACHING
                          then soft_outdate (peer_devices d) else (True, peer_devices d));
          d' = d\<lparr>peer_devices := pds\<rparr>;
          tail = first_of
            [(\<not> (now (role r) = R_PRIMARY \<and> \<not> any_disk_up_to_date OLD d') \<and>
              (new (role r) = R_PRIMARY \<and> \<not> any_disk_up_to_date NEW d'), SS_NO_UP_TO_DATE_DISK),
             (\<not> (now (role r) = R_PRIMARY \<and> od \<le> D_OUTDATED) \<and> (new (role r) = R_PRIMARY \<and> nd \<le> D_OUTDATED),
              SS_NO_UP_TO_DATE_DISK),
             (open_ro_cnt d \<noteq> 0 \<and> any_disk_up_to_date OLD d' \<and> \<not> any_disk_up_to_date NEW d', SS_NO_UP_TO_DATE_DISK),
             (soft_no_quorum r d', SS_NO_QUORUM)]
      in case head of
           Some e \<Rightarrow> (Some e, d)
         | None \<Rightarrow>
             if \<not> allow then (Some SS_LOWER_THAN_OUTDATED, d')
             else case tail of
               Some e \<Rightarrow> (Some e, d')
             | None \<Rightarrow> (soft_peers r d' (if nd = D_NEGOTIATING then 1 else 0) pds, d'))"

fun soft_devices :: "bsr_resource \<Rightarrow> bsr_device list \<Rightarrow> bsr_state_rv option \<times> bsr_device list" where
  "soft_devices r [] = (None, [])"
| "soft_devices r (d # ds) =
     (case soft_device r d of
        (Some e, d') \<Rightarrow> (Some e, d' # ds)
      | (None, d') \<Rightarrow> (case soft_devices r ds of (rv, ds') \<Rightarrow> (rv, d' # ds')))"

definition is_valid_soft_transition :: "bsr_resource \<Rightarrow> bsr_state_rv \<times> bsr_resource" where
  "is_valid_soft_transition r =
     (case soft_promote r of
        Some e \<Rightarrow> (e, r)
      | None \<Rightarrow>
          (case first_some (soft_conn r) [0..<length (connections r)] of
             Some e \<Rightarrow> (e, r)
           | None \<Rightarrow>
               (case soft_devices r (devices r) of
                  (Some e, ds) \<Rightarrow> (e, r\<lparr>devices := ds\<rparr>)
                | (None, ds) \<Rightarrow> (SS_SUCCESS, r\<lparr>devices := ds\<rparr>))))"

section \<open>Suspending the resync with other peers\<close>

definition map_other :: "nat \<Rightarrow> (bsr_peer_device \<Rightarrow> bsr_peer_device) \<Rightarrow> bsr_device \<Rightarrow> bsr_device" where
  "map_other k f d =
     d\<lparr>peer_devices := map (\<lambda>i. if i = k then peer_devices d ! i else f (peer_devices d ! i)) [0..<length (peer_devices d)]\<rparr>"

definition on_pd :: "nat \<Rightarrow> (bsr_peer_device \<Rightarrow> bsr_peer_device) \<Rightarrow> bsr_device \<Rightarrow> bsr_device" where
  "on_pd k f d = d\<lparr>peer_devices := (peer_devices d)[k := f (peer_devices d ! k)]\<rparr>"

text \<open>The first loop of the clearing case: it stops at the first paused sync target that may go on.\<close>

fun resume_one :: "nat \<Rightarrow> nat list \<Rightarrow> bsr_device \<Rightarrow> bool \<times> bsr_device" where
  "resume_one k [] d = (False, d)"
| "resume_one k (i # is) d =
     (let repl = new (pd_repl_state (peer_devices d ! i))
      in if i = k \<or> repl = L_PAUSED_SYNC_S then resume_one k is d
         else let d = on_pd i (change_resync_susp_other_c0 False) d
              in if repl = L_PAUSED_SYNC_T \<and> \<not> resync_suspended NEW (peer_devices d ! i) then
                   (let d = on_pd i (change_repl_state0 L_SYNC_TARGET) d;
                        d = (if new (dev_disk_state d) \<noteq> D_INCONSISTENT then change_disk_state0 D_INCONSISTENT d else d);
                        d = (if new (pd_repl_state (peer_devices d ! k)) = L_BEHIND
                             then on_pd k (change_resync_susp_other_c0 True) d else d)
                    in (True, d))
                 else resume_one k is d)"

definition set_resync_susp_other_c :: "nat \<Rightarrow> bool \<Rightarrow> bool \<Rightarrow> bsr_device \<Rightarrow> bsr_device" where
  "set_resync_susp_other_c k val start d =
     (if val then
        map_other k (\<lambda>p.
          let p' = change_resync_susp_other_c0 True p
          in if start \<and> D_INCONSISTENT \<le> new (pd_disk_state p) \<and> new (pd_repl_state p) = L_ESTABLISHED
             then change_repl_state0 L_PAUSED_SYNC_T p' else p') d
      else
        case resume_one k [0..<length (peer_devices d)] d of
          (True, d) \<Rightarrow> d
        | (False, d) \<Rightarrow>
            map_other k (\<lambda>p.
              let p = change_resync_susp_other_c0 False p
              in if new (pd_repl_state p) = L_PAUSED_SYNC_S \<and> \<not> resync_suspended NEW p
                 then change_repl_state0 L_SYNC_SOURCE p else p) d)"

end
