(* ===== verification/State_Sanitize.thy ===== *)
theory State_Sanitize
  imports State_Rules
begin

text \<open>
  \<^verbatim>\<open>sanitize_state\<close> of \<^verbatim>\<open>bsr/bsr_state.c\<close>: what a state change implies for the other parts of the new state.
  The peer device loop works on \<open>san\<close>: the connections, the device, and the local variables
  \<^verbatim>\<open>lost_connection\<close> and \<^verbatim>\<open>good_data_count\<close>.
\<close>

section \<open>Connections and disk state negotiation\<close>

definition san_conn :: "bsr_connection \<Rightarrow> bsr_connection" where
  "san_conn c = (if new (cstate c) < C_CONNECTED then change_peer_role0 R_UNKNOWN c else c)"

definition maybe_crashed_primary :: "bsr_resource \<Rightarrow> bsr_connection \<Rightarrow> bool" where
  "maybe_crashed_primary r c \<longleftrightarrow>
     now (peer_role c) = R_PRIMARY \<and> now (cstate c) = C_CONNECTED \<and>
     (C_TIMEOUT \<le> new (cstate c) \<and> new (cstate c) \<le> C_PROTOCOL_ERROR \<or>
      new (cstate c) = C_DISCONNECTING \<and> CS_HARD \<in> state_change_flags r)"

definition san_early :: "bsr_resource \<Rightarrow> bsr_device \<Rightarrow> bsr_device" where
  "san_early r d =
     (let d = (if now (dev_disk_state d) = D_DISKLESS \<and> new (dev_disk_state d) = D_DETACHING
               then change_disk_state0 D_DISKLESS d else d)
      in if CS_IGN_OUTD_FAIL \<in> state_change_flags r \<and> now (dev_disk_state d) < D_OUTDATED \<and>
            new (dev_disk_state d) = D_OUTDATED
         then change_disk_state0 (now (dev_disk_state d)) d else d)"

definition negotiated_peers :: "bsr_device \<Rightarrow> bsr_peer_device list" where
  "negotiated_peers d =
     filter (\<lambda>p. \<not> (new (pd_disk_state p) = D_UNKNOWN \<or> new (pd_disk_state p) < D_NEGOTIATING)) (peer_devices d)"

definition negotiated_repl :: "bsr_connection list \<Rightarrow> bsr_device \<Rightarrow> bsr_peer_device \<Rightarrow> bsr_peer_device" where
  "negotiated_repl conns d p =
     (if new (cstate (pd_connection conns p)) < C_CONNECTED \<or> negotiation_result p = L_NEGOTIATING then p
      else let nr = (if negotiation_result p = L_NEG_NO_RESULT then L_ESTABLISHED else negotiation_result p)
           in if nr = L_WF_BITMAP_S \<and> new (dev_disk_state d) = D_INCONSISTENT
              then change_repl_state0 L_PAUSED_SYNC_S (change_resync_susp_other_c0 True p)
              else change_repl_state0 nr p)"

definition san_negotiate :: "bsr_connection list \<Rightarrow> bsr_device \<Rightarrow> bsr_device" where
  "san_negotiate conns d =
     (if now (dev_disk_state d) = D_NEGOTIATING \<and> new (dev_disk_state d) = D_NEGOTIATING \<and>
         \<not> list_ex (\<lambda>p. negotiation_result p = L_NEGOTIATING) (negotiated_peers d) then
        (let ps = negotiated_peers d;
             no_result = length (filter (\<lambda>p. negotiation_result p = L_NEG_NO_RESULT) ps);
             d = change_disk_state0
               (if 0 < no_result \<and> no_result = length ps then D_DETACHING
                else if list_ex (\<lambda>p. negotiation_result p = L_WF_BITMAP_T) ps then D_INCONSISTENT
                else if list_ex (\<lambda>p. new (pd_disk_state p) = D_UP_TO_DATE) ps then D_UP_TO_DATE
                else disk_state_from_md d) d
         in d\<lparr>peer_devices := map (negotiated_repl conns d) (peer_devices d)\<rparr>)
      else d)"

section \<open>A peer device\<close>

record san =
  s_conns :: "bsr_connection list"
  s_dev :: bsr_device
  s_lost :: bool
  s_good :: "nat two"

abbreviation s_pd :: "nat \<Rightarrow> san \<Rightarrow> bsr_peer_device" where
  "s_pd k s \<equiv> peer_devices (s_dev s) ! k"

abbreviation s_repl :: "nat \<Rightarrow> san \<Rightarrow> bsr_repl_state two" where
  "s_repl k s \<equiv> pd_repl_state (s_pd k s)"

abbreviation s_pdsk :: "nat \<Rightarrow> san \<Rightarrow> bsr_disk_state two" where
  "s_pdsk k s \<equiv> pd_disk_state (s_pd k s)"

abbreviation s_disk :: "san \<Rightarrow> bsr_disk_state two" where
  "s_disk s \<equiv> dev_disk_state (s_dev s)"

definition s_upd :: "nat \<Rightarrow> (bsr_peer_device \<Rightarrow> bsr_peer_device) \<Rightarrow> san \<Rightarrow> san" where
  "s_upd k f s = s\<lparr>s_dev := on_pd k f (s_dev s)\<rparr>"

definition s_upd_dev :: "(bsr_device \<Rightarrow> bsr_device) \<Rightarrow> san \<Rightarrow> san" where
  "s_upd_dev f s = s\<lparr>s_dev := f (s_dev s)\<rparr>"

definition san_disconnected :: "nat \<Rightarrow> san \<Rightarrow> san" where
  "san_disconnected k s =
     (let s = (if new (s_repl k s) < L_ESTABLISHED then
                 (let s = s_upd k (change_resync_susp_peer0 False) s
                  in if D_UNKNOWN < new (s_pdsk k s) \<or> new (s_pdsk k s) < D_OUTDATED
                     then s_upd k (change_peer_disk_state0 D_UNKNOWN) s else s)
               else s)
      in if L_ESTABLISHED \<le> now (s_repl k s) \<and> new (s_repl k s) < L_ESTABLISHED then s\<lparr>s_lost := True\<rparr> else s)"

definition san_unconfigured :: "bsr_resource \<Rightarrow> nat \<Rightarrow> san \<Rightarrow> san" where
  "san_unconfigured r k s =
     (if new (cstate (pd_connection (s_conns s) (s_pd k s))) = C_STANDALONE \<and> new (s_disk s) = D_DISKLESS \<and>
         new (role r) = R_SECONDARY
      then s_upd k (change_resync_susp_dependency0 False) s else s)"

definition san_failed_disk :: "nat \<Rightarrow> san \<Rightarrow> san" where
  "san_failed_disk k s =
     (if L_ESTABLISHED < new (s_repl k s) \<and> (new (s_disk s) \<le> D_FAILED \<or> new (s_pdsk k s) \<le> D_FAILED)
      then s_upd k (change_repl_state0 L_ESTABLISHED) s else s)"

definition san_unstable :: "bsr_resource \<Rightarrow> nat \<Rightarrow> san \<Rightarrow> san" where
  "san_unstable r k s =
     (let nl = new (s_repl k s)
      in if L_STARTING_SYNC_S \<le> nl \<and> nl \<le> L_PAUSED_SYNC_T \<and>
            ((nl \<noteq> L_STARTING_SYNC_S \<and> nl \<noteq> L_STARTING_SYNC_T) \<or> L_ESTABLISHED \<le> now (s_repl k s)) \<and>
            \<not> bsr_inspect_resync_side (r\<lparr>connections := s_conns s\<rparr>) (s_dev s) (s_pd k s) nl NOW
         then s_upd k (\<lambda>p. (change_repl_state0 L_ESTABLISHED p)\<lparr>pd_flags := insert UNSTABLE_TRIGGER_CP (pd_flags p)\<rparr>) s
         else s)"

definition san_unsyncable :: "nat \<Rightarrow> san \<Rightarrow> san" where
  "san_unsyncable k s =
     (if (new (s_repl k s) = L_SYNC_TARGET \<or> new (s_repl k s) = L_PAUSED_SYNC_T) \<and> new (s_pdsk k s) \<le> D_INCONSISTENT \<or>
         (new (s_repl k s) = L_SYNC_SOURCE \<or> new (s_repl k s) = L_PAUSED_SYNC_S) \<and> new (s_disk s) \<le> D_INCONSISTENT
      then s_upd k (\<lambda>p. (change_repl_state0 L_ESTABLISHED p)\<lparr>pd_flags := insert RESYNC_ABORTED (pd_flags p)\<rparr>) s
      else s)"

definition good_disk :: "bsr_disk_state \<Rightarrow> bool" where
  "good_disk d \<longleftrightarrow> d = D_OUTDATED \<or> d = D_CONSISTENT \<or> d = D_UP_TO_DATE"

definition resume_aborted :: "bsr_repl_state \<Rightarrow> bsr_peer_device \<Rightarrow> bsr_peer_device" where
  "resume_aborted repl p = (change_repl_state0 repl p)\<lparr>pd_flags := pd_flags p - {RESYNC_ABORTED}\<rparr>"

definition san_resume_aborted :: "nat \<Rightarrow> san \<Rightarrow> san" where
  "san_resume_aborted k s =
     (if (now (s_disk s) \<le> D_INCONSISTENT \<and> now (s_pdsk k s) \<le> D_INCONSISTENT) \<and>
         (new (s_disk s) \<le> D_INCONSISTENT \<or> new (s_pdsk k s) \<le> D_INCONSISTENT) \<and>
         RESYNC_ABORTED \<in> pd_flags (s_pd k s)
      then if good_disk (new (s_disk s)) then s_upd k (resume_aborted L_SYNC_SOURCE) s
           else if good_disk (new (s_pdsk k s)) then s_upd k (resume_aborted L_SYNC_TARGET) s
           else s
      else s)"

definition san_pre_110 :: "nat \<Rightarrow> san \<Rightarrow> san" where
  "san_pre_110 k s =
     (if agreed_pro_version (pd_connection (s_conns s) (s_pd k s)) < 110 \<and>
         L_ESTABLISHED \<le> new (s_repl k s) \<and> new (s_repl k s) < L_AHEAD
      then let s = (if new (s_disk s) = D_CONSISTENT then s_upd_dev (change_disk_state0 D_UP_TO_DATE) s else s)
           in if new (s_pdsk k s) = D_CONSISTENT then s_upd k (change_peer_disk_state0 D_UP_TO_DATE) s else s
      else s)"

text \<open>Least and greatest disk state and peer disk state for a replication state.\<close>

fun disk_bounds :: "bsr_repl_state \<Rightarrow> bsr_disk_state \<times> bsr_disk_state \<times> bsr_disk_state \<times> bsr_disk_state" where
  "disk_bounds L_OFF = (D_DISKLESS, D_UP_TO_DATE, D_INCONSISTENT, D_UNKNOWN)"
| "disk_bounds L_WF_BITMAP_T = (D_INCONSISTENT, D_OUTDATED, D_OUTDATED, D_UP_TO_DATE)"
| "disk_bounds L_PAUSED_SYNC_T = (D_INCONSISTENT, D_OUTDATED, D_OUTDATED, D_UP_TO_DATE)"
| "disk_bounds L_STARTING_SYNC_T = (D_INCONSISTENT, D_OUTDATED, D_OUTDATED, D_UP_TO_DATE)"
| "disk_bounds L_WF_SYNC_UUID = (D_INCONSISTENT, D_OUTDATED, D_OUTDATED, D_UP_TO_DATE)"
| "disk_bounds L_BEHIND = (D_INCONSISTENT, D_OUTDATED, D_OUTDATED, D_UP_TO_DATE)"
| "disk_bounds L_VERIFY_S = (D_UP_TO_DATE, D_UP_TO_DATE, D_UP_TO_DATE, D_UP_TO_DATE)"
| "disk_bounds L_VERIFY_T = (D_UP_TO_DATE, D_UP_TO_DATE, D_UP_TO_DATE, D_UP_TO_DATE)"
| "disk_bounds L_ESTABLISHED = (D_DISKLESS, D_UP_TO_DATE, D_DISKLESS, D_UP_TO_DATE)"
| "disk_bounds L_WF_BITMAP_S = (D_OUTDATED, D_UP_TO_DATE, D_INCONSISTENT, D_CONSISTENT)"
| "disk_bounds L_PAUSED_SYNC_S = (D_OUTDATED, D_UP_TO_DATE, D_INCONSISTENT, D_CONSISTENT)"
| "disk_bounds L_STARTING_SYNC_S = (D_OUTDATED, D_UP_TO_DATE, D_INCONSISTENT, D_CONSISTENT)"
| "disk_bounds L_AHEAD = (D_OUTDATED, D_UP_TO_DATE, D_INCONSISTENT, D_CONSISTENT)"
| "disk_bounds L_SYNC_TARGET = (D_INCONSISTENT, D_INCONSISTENT, D_OUTDATED, D_UP_TO_DATE)"
| "disk_bounds L_SYNC_SOURCE = (D_INCONSISTENT, D_UP_TO_DATE, D_INCONSISTENT, D_INCONSISTENT)"

definition san_bounds :: "nat \<Rightarrow> san \<Rightarrow> san" where
  "san_bounds k s =
     (case disk_bounds (new (s_repl k s)) of (min_disk_state, max_disk_state, min_peer_disk_state, max_peer_disk_state) \<Rightarrow>
        let s = (if max_disk_state < new (s_disk s) then s_upd_dev (change_disk_state0 max_disk_state) s else s);
            s = (if new (s_disk s) < min_disk_state then s_upd_dev (change_disk_state0 min_disk_state) s else s);
            s = (if max_peer_disk_state < new (s_pdsk k s)
                 then s_upd k (change_peer_disk_state0 max_peer_disk_state) s else s)
        in if new (s_pdsk k s) < min_peer_disk_state \<and> new (s_repl k s) \<noteq> L_STARTING_SYNC_T
           then s_upd k (change_peer_disk_state0 min_peer_disk_state) s else s)"

definition san_fencing :: "bsr_resource \<Rightarrow> nat \<Rightarrow> san \<Rightarrow> san" where
  "san_fencing r k s =
     (let i = pd_conn (s_pd k s); c = s_conns s ! i
      in if fencing c = FP_STONITH \<and>
            (new (role r) = R_PRIMARY \<and> new (s_repl k s) < L_ESTABLISHED \<and> new (s_pdsk k s) = D_UNKNOWN) \<and>
            (now (role r) \<noteq> R_PRIMARY \<or> now (s_pdsk k s) \<noteq> D_UNKNOWN)
         then s\<lparr>s_conns := (s_conns s)[i := change_io_susp_fencing0 True c]\<rparr> else s)"

definition count_good :: "bsr_disk_state two \<Rightarrow> nat two \<Rightarrow> nat two" where
  "count_good t g = Two (now g + of_bool (now t = D_UP_TO_DATE)) (new g + of_bool (new t = D_UP_TO_DATE))"

definition san_good :: "nat \<Rightarrow> san \<Rightarrow> san" where
  "san_good k s = s\<lparr>s_good := count_good (s_pdsk k s) (s_good s)\<rparr>"

definition san_pause :: "nat \<Rightarrow> san \<Rightarrow> san" where
  "san_pause k s =
     (let s = (if now (s_repl k s) \<noteq> L_SYNC_SOURCE \<and> new (s_repl k s) = L_SYNC_SOURCE \<and> is_sync_target_other_c k (s_dev s)
               then s_upd k (change_resync_susp_other_c0 True) s else s)
      in if resync_suspended NEW (s_pd k s) then
           (let s = (if new (s_repl k s) = L_SYNC_SOURCE then s_upd k (change_repl_state0 L_PAUSED_SYNC_S) s else s)
            in if new (s_repl k s) = L_SYNC_TARGET then s_upd k (change_repl_state0 L_PAUSED_SYNC_T) s else s)
         else
           (let s = (if new (s_repl k s) = L_PAUSED_SYNC_S then s_upd k (change_repl_state0 L_SYNC_SOURCE) s else s)
            in if new (s_repl k s) = L_PAUSED_SYNC_T then s_upd k (change_repl_state0 L_SYNC_TARGET) s else s))"

definition san_others :: "nat \<Rightarrow> san \<Rightarrow> san" where
  "san_others k s =
     (let s = (if now (s_repl k s) \<noteq> L_SYNC_TARGET \<and> new (s_repl k s) = L_SYNC_TARGET
               then s_upd_dev (set_resync_susp_other_c k True False) s else s);
          s = (if now (s_repl k s) = L_WF_BITMAP_T \<and> new (s_repl k s) \<noteq> L_SYNC_TARGET \<and> new (s_repl k s) \<noteq> L_WF_BITMAP_T \<or>
                  now (s_repl k s) = L_SYNC_TARGET \<and> new (s_repl k s) \<noteq> L_SYNC_TARGET
               then s_upd_dev (set_resync_susp_other_c k False False) s else s);
          s = (if now (s_repl k s) \<noteq> L_STARTING_SYNC_T \<and> new (s_repl k s) = L_STARTING_SYNC_T
               then s_upd_dev (set_resync_susp_other_c k True False) s else s)
      in if now (s_repl k s) = L_STARTING_SYNC_T \<and> new (s_repl k s) \<noteq> L_STARTING_SYNC_T \<and> new (s_repl k s) \<noteq> L_WF_BITMAP_T
         then s_upd_dev (set_resync_susp_other_c k False False) s else s)"

definition san_peer_diskless :: "nat \<Rightarrow> san \<Rightarrow> san" where
  "san_peer_diskless k s =
     (if now (s_pdsk k s) = D_DISKLESS \<and> (new (s_pdsk k s) = D_FAILED \<or> new (s_pdsk k s) = D_DETACHING)
      then s_upd k (change_peer_disk_state0 D_DISKLESS) s else s)"

definition san_upgrade :: "nat \<Rightarrow> san \<Rightarrow> san" where
  "san_upgrade k s =
     (let p = s_pd k s;
          s = (if new (s_repl k s) = L_ESTABLISHED \<and> new (s_disk s) = D_OUTDATED \<and> D_CONSISTENT \<le> new (s_pdsk k s) \<and>
                  uuids_received p \<and> bit (uuid_flags p) UUID_FLAG_STABLE \<and>
                  (now (s_repl k s) < L_ESTABLISHED \<or> bit (uuid_flags p) UUID_FLAG_GOT_STABLE \<or> now (s_pdsk k s) = D_OUTDATED)
               then s_upd_dev (change_disk_state0 (new (s_pdsk k s))) s else s);
          s = (if now (s_repl k s) < L_ESTABLISHED \<and> L_ESTABLISHED \<le> new (s_repl k s) \<and>
                  new (s_disk s) = D_CONSISTENT \<and> may_be_up_to_date (s_dev s)
               then s_upd_dev (change_disk_state0 D_UP_TO_DATE) s else s)
      in s_upd k (\<lambda>p. p\<lparr>uuid_flags := unset_bit UUID_FLAG_GOT_STABLE (uuid_flags p)\<rparr>) s)"

definition san_quorum :: "bsr_resource \<Rightarrow> nat \<Rightarrow> san \<Rightarrow> san" where
  "san_quorum r k s =
     (if quorum r \<noteq> QOU_OFF \<and> new (role r) = R_PRIMARY \<and> get_ldev (s_dev s) \<and> lost_contact_to_peer_data (s_pdsk k s) \<and>
         fst (calc_quorum OLD r (s_dev s)) \<and> \<not> fst (calc_quorum NEW r (s_dev s))
      then s_upd_dev (change_io_susp_quorum0 True) s else s)"

definition san_peer_device :: "bsr_resource \<Rightarrow> nat \<Rightarrow> san \<Rightarrow> san" where
  "san_peer_device r k s =
     (let s = san_disconnected k s;
          s = san_unconfigured r k s;
          s = san_failed_disk k s;
          s = san_unstable r k s;
          s = san_unsyncable k s;
          s = san_resume_aborted k s;
          s = san_pre_110 k s;
          s = san_bounds k s;
          s = san_fencing r k s;
          s = san_good k s;
          s = san_pause k s;
          s = san_others k s;
          s = san_peer_diskless k s;
          s = san_upgrade k s
      in san_quorum r k s)"

section \<open>The whole state\<close>

definition san_device :: "bool \<Rightarrow> nat \<Rightarrow> nat \<Rightarrow> bsr_resource \<Rightarrow> bsr_resource" where
  "san_device crashed connected_primaries i r =
     (let d = san_negotiate (connections r) (san_early r (devices r ! i));
          s = fold (san_peer_device r) [0..<length (peer_devices d)]
            \<lparr>s_conns = connections r, s_dev = d, s_lost = False, s_good = Two 0 0\<rparr>;
          good = count_good (s_disk s) (s_good s);
          r = (if on_no_data r = OND_SUSPEND_IO \<and> (new (role r) = R_PRIMARY \<and> new good = 0) \<and>
                  \<not> (now (role r) = R_PRIMARY \<and> now good = 0)
               then change_io_susp_no_data0 True r else r);
          d = s_dev s;
          d = (if s_lost s \<and> new (dev_disk_state d) = D_NEGOTIATING then change_disk_state0 (disk_state_from_md d) d else d);
          d = (if crashed \<and> connected_primaries = 0 \<and> new (dev_disk_state d) = D_UP_TO_DATE \<and> now (role r) = R_SECONDARY
               then change_disk_state0 D_CONSISTENT d else d)
      in r\<lparr>connections := s_conns s, devices := (devices r)[i := d]\<rparr>)"

definition sanitize_state :: "bsr_resource \<Rightarrow> bsr_resource" where
  "sanitize_state r =
     (let conns = map san_conn (connections r);
          crashed = list_ex (maybe_crashed_primary r) (connections r);
          primaries = length (filter (\<lambda>c. new (peer_role c) = R_PRIMARY) conns)
      in fold (san_device crashed primaries) [0..<length (devices r)] (r\<lparr>connections := conns\<rparr>))"

end
