(* ===== verification/State_Change.thy ===== *)
theory State_Change
  imports State_Sanitize
begin

text \<open>
  The life of a state change in \<^verbatim>\<open>bsr/bsr_state.c\<close>: \<^verbatim>\<open>___begin_state_change\<close> copies the current state to the new
  one, the \<^verbatim>\<open>__change_*\<close> functions edit the new state, and \<^verbatim>\<open>___end_state_change\<close> sanitizes and checks it,
  carries out what follows from it (\<^verbatim>\<open>finish_state_change\<close>) and makes it current.

  Of \<^verbatim>\<open>finish_state_change\<close> the model has all effects on the state, the flags and the meta-data.  It does not
  have the effects on other components: starting a new transfer log epoch, the peer ack queue, stopping and
  restarting receiver threads, timers and time stamps, the resync and verify statistics, the reference
  counts of the backing device, and the work queued for \<^verbatim>\<open>w_after_state_change\<close>.
\<close>

section \<open>Beginning a state change\<close>

definition begin_pd :: "bsr_peer_device \<Rightarrow> bsr_peer_device" where
  "begin_pd p =
     (let p = change_peer_disk_state0 (now (pd_disk_state p)) p;
          p = change_repl_state0 (now (pd_repl_state p)) p;
          p = change_resync_susp_user0 (now (resync_susp_user p)) p;
          p = change_resync_susp_peer0 (now (resync_susp_peer p)) p;
          p = change_resync_susp_dependency0 (now (resync_susp_dependency p)) p
      in change_resync_susp_other_c0 (now (resync_susp_other_c p)) p)"

definition begin_dev :: "bsr_device \<Rightarrow> bsr_device" where
  "begin_dev d =
     (let d = change_disk_state0 (now (dev_disk_state d)) d;
          d = change_io_susp_quorum0 (now (susp_quorum d)) d
      in d\<lparr>peer_devices := map begin_pd (peer_devices d)\<rparr>)"

definition begin_conn :: "bsr_connection \<Rightarrow> bsr_connection" where
  "begin_conn c =
     (let c = change_cstate_state0 (now (cstate c)) c;
          c = change_peer_role0 (now (peer_role c)) c
      in change_io_susp_fencing0 (now (susp_fen c)) c)"

definition begin_state_change0 :: "bsr_resource \<Rightarrow> bsr_resource" where
  "begin_state_change0 r =
     (let r = r\<lparr>role := set_new (now (role r)) (role r)\<rparr>;
          r = change_io_susp_user0 (now (susp r)) r;
          r = change_io_susp_no_data0 (now (susp_nod r)) r
      in r\<lparr>connections := map begin_conn (connections r), devices := map begin_dev (devices r)\<rparr>)"

section \<open>Trying a state change\<close>

definition changed :: "'a two \<Rightarrow> bool" where
  "changed t \<longleftrightarrow> now t \<noteq> new t"

definition conn_changed :: "bsr_connection \<Rightarrow> bool" where
  "conn_changed c \<longleftrightarrow> changed (cstate c) \<or> changed (peer_role c) \<or> changed (susp_fen c)"

definition pd_changed :: "bsr_peer_device \<Rightarrow> bool" where
  "pd_changed p \<longleftrightarrow> changed (pd_disk_state p) \<or> changed (pd_repl_state p) \<or> changed (resync_susp_user p) \<or>
     changed (resync_susp_peer p) \<or> changed (resync_susp_dependency p) \<or> changed (resync_susp_other_c p)"

definition dev_changed :: "bsr_device \<Rightarrow> bool" where
  "dev_changed d \<longleftrightarrow> changed (dev_disk_state d) \<or> changed (susp_quorum d) \<or> list_ex pd_changed (peer_devices d)"

definition clear_got_stable :: "bsr_resource \<Rightarrow> bsr_resource" where
  "clear_got_stable r =
     r\<lparr>devices := map (\<lambda>d. d\<lparr>peer_devices :=
         map (\<lambda>p. p\<lparr>uuid_flags := unset_bit UUID_FLAG_GOT_STABLE (uuid_flags p)\<rparr>) (peer_devices d)\<rparr>) (devices r)\<rparr>"

definition state_has_changed :: "bsr_resource \<Rightarrow> bool \<times> bsr_resource" where
  "state_has_changed r =
     (let r = clear_got_stable r
      in if negotiation_result_touched r then (True, r\<lparr>negotiation_result_touched := False\<rparr>)
         else (changed (role r) \<or> changed (susp r) \<or> changed (susp_nod r) \<or> list_ex conn_changed (connections r) \<or>
               list_ex dev_changed (devices r), r))"

definition try_state_change :: "bsr_resource \<Rightarrow> bsr_state_rv \<times> bsr_resource" where
  "try_state_change r =
     (case state_has_changed r of
        (False, r) \<Rightarrow> (SS_NOTHING_TO_DO, r)
      | (True, r) \<Rightarrow>
          let r = sanitize_state r; rv = is_valid_transition r
          in if ok_rv rv \<and> CS_HARD \<notin> state_change_flags r then is_valid_soft_transition r else (rv, r))"

section \<open>Finishing a state change\<close>

definition set_bit_if :: "bool \<Rightarrow> nat \<Rightarrow> u32 \<Rightarrow> u32" where
  "set_bit_if b n w = (if b then set_bit n w else w)"

definition is_sync :: "bsr_repl_state \<Rightarrow> bool" where
  "is_sync s \<longleftrightarrow> s = L_SYNC_SOURCE \<or> s = L_PAUSED_SYNC_S \<or> s = L_SYNC_TARGET \<or> s = L_PAUSED_SYNC_T"

definition bsr_should_do_remote :: "which_state \<Rightarrow> bsr_peer_device \<Rightarrow> bool" where
  "bsr_should_do_remote w p \<longleftrightarrow>
     at_state w (pd_disk_state p) = D_UP_TO_DATE \<or> at_state w (pd_repl_state p) = L_STARTING_SYNC_S \<or>
     at_state w (pd_repl_state p) = L_WF_BITMAP_S \<or>
     at_state w (pd_disk_state p) = D_INCONSISTENT \<and>
       (at_state w (pd_repl_state p) = L_ESTABLISHED \<or>
        L_WF_BITMAP_T \<le> at_state w (pd_repl_state p) \<and> at_state w (pd_repl_state p) < L_AHEAD)"

definition start_new_epoch :: "bsr_resource \<Rightarrow> bool" where
  "start_new_epoch r =
     list_ex (\<lambda>d. list_ex (\<lambda>p. bsr_should_do_remote NOW p \<noteq> bsr_should_do_remote NEW p) (peer_devices d)) (devices r)"

definition fin_rs_done :: "bsr_peer_device \<Rightarrow> bsr_peer_device" where
  "fin_rs_done p =
     (if \<not> is_sync (now (pd_repl_state p)) \<and> is_sync (new (pd_repl_state p)) then p\<lparr>pd_flags := pd_flags p - {RS_DONE}\<rparr> else p)"

definition peer_returns_diskless :: "bsr_device \<Rightarrow> bsr_peer_device \<Rightarrow> bool" where
  "peer_returns_diskless d p \<longleftrightarrow> get_ldev d \<and> now (pd_disk_state p) = D_UNKNOWN \<and>
     new (pd_disk_state p) \<in> {D_DISKLESS, D_FAILED, D_OUTDATED} \<and> pd_bitmap_uuid p = 0"

definition primary_and_data_present :: "bsr_resource \<Rightarrow> bsr_device \<Rightarrow> bool" where
  "primary_and_data_present r d \<longleftrightarrow>
     (now (role r) = R_PRIMARY \<or> list_ex (\<lambda>p. now (peer_role (pd_connection (connections r) p)) = R_PRIMARY) (peer_devices d)) \<and>
     (now (dev_disk_state d) = D_UP_TO_DATE \<or> list_ex (\<lambda>p. now (pd_disk_state p) = D_UP_TO_DATE) (peer_devices d))"

text \<open>The new flags of a peer and of the device in the meta-data.\<close>

definition peer_mdf :: "bsr_resource \<Rightarrow> bsr_peer_device \<Rightarrow> u32 \<Rightarrow> u32" where
  "peer_mdf r p mdf =
     (let pdsk = new (pd_disk_state p);
          mdf = unset_bit MDF_PEER_CONNECTED (unset_bit MDF_PEER_OUTDATED (unset_bit MDF_PEER_FENCING mdf));
          mdf = set_bit_if (L_OFF < new (pd_repl_state p)) MDF_PEER_CONNECTED mdf;
          mdf = set_bit_if (D_INCONSISTENT \<le> pdsk \<and> pdsk \<le> D_OUTDATED) MDF_PEER_OUTDATED mdf;
          mdf = set_bit_if (D_INCONSISTENT \<le> pdsk \<and> pdsk \<noteq> D_UNKNOWN) MDF_PEER_DEVICE_SEEN mdf
      in set_bit_if (fencing (pd_connection (connections r) p) \<noteq> FP_DONT_CARE) MDF_PEER_FENCING mdf)"

definition device_mdf :: "bsr_resource \<Rightarrow> bsr_device \<Rightarrow> u32 \<Rightarrow> u32" where
  "device_mdf r d mdf =
     (let nd = new (dev_disk_state d);
          mdf = unset_bit MDF_PRIMARY_IND (unset_bit MDF_CRASHED_PRIMARY mdf);
          mdf = unset_bit MDF_AL_CLEAN mdf;
          mdf = set_bit_if (CRASHED_PRIMARY \<in> dev_flags d) MDF_CRASHED_PRIMARY mdf;
          mdf = set_bit_if (new (role r) = R_PRIMARY \<and> nd \<noteq> D_DETACHING) MDF_PRIMARY_IND mdf
      in if D_INCONSISTENT \<le> nd then
           (let mdf = unset_bit MDF_CONSISTENT (unset_bit MDF_WAS_UP_TO_DATE mdf);
                mdf = set_bit_if (D_INCONSISTENT < nd) MDF_CONSISTENT mdf
            in set_bit_if (D_OUTDATED < nd) MDF_WAS_UP_TO_DATE mdf)
         else if (nd = D_FAILED \<or> nd = D_DETACHING) \<and> bit mdf MDF_WAS_UP_TO_DATE \<and> primary_and_data_present r d
         then unset_bit MDF_WAS_UP_TO_DATE mdf
         else mdf)"

definition md_updatable :: "bsr_device \<Rightarrow> bool" where
  "md_updatable d \<longleftrightarrow> new (dev_disk_state d) \<noteq> D_NEGOTIATING \<and> get_ldev d"

definition fin_peer_md :: "bsr_resource \<Rightarrow> nat \<Rightarrow> bsr_device \<Rightarrow> bsr_device" where
  "fin_peer_md r k d =
     (let p = peer_devices d ! k; md = dev_md d; n = pd_node_id p; pmd = md_peers md ! n
      in if md_updatable d \<and> pd_bitmap_index p \<noteq> -1
         then d\<lparr>dev_md := md\<lparr>md_peers := (md_peers md)[n := pmd\<lparr>pmd_flags := peer_mdf r p (pmd_flags pmd)\<rparr>]\<rparr>\<rparr>
         else d)"

definition fin_peer_flags :: "bsr_resource \<Rightarrow> bsr_device \<Rightarrow> bsr_peer_device \<Rightarrow> bsr_peer_device" where
  "fin_peer_flags r d p =
     (let ol = now (pd_repl_state p); nl = new (pd_repl_state p);
          c = pd_connection (connections r) p;
          p = (if (L_STARTING_SYNC_S \<le> nl \<and> nl \<le> L_WF_BITMAP_T \<or> L_SYNC_SOURCE \<le> nl \<and> nl \<le> L_PAUSED_SYNC_T) \<and>
                  L_ESTABLISHED \<le> ol \<and> \<not> bsr_inspect_resync_side r d p nl NEW
               then p\<lparr>pd_flags := insert RESYNC_ABORTED (pd_flags p)\<rparr> else p);
          p = (if L_ESTABLISHED < ol \<and> nl \<le> L_ESTABLISHED
               then p\<lparr>pd_flags := pd_flags p - {RECONCILIATION_RESYNC}\<rparr> else p);
          p = (if md_updatable d \<and> now (dev_disk_state d) = D_INCONSISTENT \<and> now (pd_disk_state p) = D_INCONSISTENT \<and>
                  new (pd_disk_state p) = D_UP_TO_DATE \<and> now (peer_role c) = R_SECONDARY \<and> new (peer_role c) = R_PRIMARY
               then p\<lparr>pd_flags := insert CONSIDER_RESYNC (pd_flags p)\<rparr> else p)
      in if ol = L_AHEAD \<and> nl = L_SYNC_SOURCE then p\<lparr>pd_flags := insert SEND_STATE_AFTER_AHEAD (pd_flags p)\<rparr> else p)"

definition fin_new_uuid :: "bsr_resource \<Rightarrow> bsr_device \<Rightarrow> bsr_peer_device \<Rightarrow> bool" where
  "fin_new_uuid r d p \<longleftrightarrow>
     (let c = pd_connection (connections r) p; nd = new (dev_disk_state d);
          peer_up = list_ex (\<lambda>p. new (pd_disk_state p) = D_UP_TO_DATE) (peer_devices d)
      in (lost_contact_to_peer_data (pd_disk_state p) \<or> new (pd_disk_state p) = D_INCONSISTENT) \<and>
           (new (role r) = R_PRIMARY \<and> UNREGISTERED \<notin> dev_flags d \<and>
              (new (pd_repl_state p) \<noteq> L_AHEAD \<and> new (cstate c) < C_CONNECTED) \<and> (nd = D_UP_TO_DATE \<or> peer_up) \<or>
            agreed_pro_version c < 110 \<and> new (peer_role c) = R_PRIMARY \<and> D_UP_TO_DATE \<le> nd) \<or>
         peer_returns_diskless d p \<and> new (role r) = R_PRIMARY \<and> UNREGISTERED \<notin> dev_flags d \<and> nd = D_UP_TO_DATE)"

definition fin_state_sent :: "bsr_resource \<Rightarrow> bsr_peer_device \<Rightarrow> bsr_peer_device" where
  "fin_state_sent r p =
     (if now (pd_repl_state p) = L_OFF \<and> new (pd_repl_state p) \<noteq> L_OFF \<and> all_peer_devices_connected (pd_conn p) r
      then p\<lparr>pd_flags := pd_flags p - {INITIAL_STATE_SENT}\<rparr> else p)"

definition fin_device :: "bsr_resource \<Rightarrow> bsr_device \<Rightarrow> bsr_device" where
  "fin_device r d =
     (let d = (if now (dev_disk_state d) \<noteq> D_NEGOTIATING \<and> new (dev_disk_state d) = D_NEGOTIATING
               then d\<lparr>peer_devices := map (\<lambda>p. p\<lparr>negotiation_result := L_NEGOTIATING\<rparr>) (peer_devices d)\<rparr> else d);
          d = d\<lparr>peer_devices := map (fin_state_sent r) (peer_devices d)\<rparr>;
          create_new_uuid =
            list_ex (fin_new_uuid r d) (peer_devices d) \<or>
            D_INCONSISTENT \<le> now (dev_disk_state d) \<and> new (dev_disk_state d) < D_INCONSISTENT \<and> new (role r) = R_PRIMARY \<and>
              list_ex (\<lambda>p. new (pd_disk_state p) = D_UP_TO_DATE) (peer_devices d);
          resume_al = md_updatable d \<and>
            list_ex (\<lambda>p. now (pd_repl_state p) < L_ESTABLISHED \<and> L_ESTABLISHED \<le> new (pd_repl_state p)) (peer_devices d);
          d = fold (fin_peer_md r) [0..<length (peer_devices d)] d;
          d = d\<lparr>peer_devices := map (fin_peer_flags r d) (peer_devices d)\<rparr>;
          d = (if resume_al then d\<lparr>dev_flags := dev_flags d - {AL_SUSPENDED}\<rparr> else d);
          d = (if create_new_uuid then d\<lparr>dev_flags := insert NEW_CUR_UUID_SCHEDULED (dev_flags d)\<rparr> else d)
      in if md_updatable d then d\<lparr>dev_md := (dev_md d)\<lparr>md_flags := device_mdf r d (md_flags (dev_md d))\<rparr>\<rparr> else d)"

definition fin_conn :: "bsr_resource \<Rightarrow> nat \<Rightarrow> bsr_connection \<Rightarrow> bsr_connection" where
  "fin_conn r i c =
     (let c = (if list_ex (\<lambda>p. now (pd_repl_state p) = L_AHEAD \<and> new (pd_repl_state p) = L_SYNC_SOURCE) (conn_pds i r)
               then c\<lparr>conn_flags := insert SEND_STATE_AFTER_AHEAD_C (conn_flags c)\<rparr> else c)
      in if now (cstate c) = C_CONNECTED \<and> new (cstate c) < C_CONNECTED
         then c\<lparr>conn_flags := conn_flags c - {BARRIER_ACK_PENDING}\<rparr> else c)"

definition fin_initial_flags :: "bsr_resource \<Rightarrow> bsr_peer_device \<Rightarrow> bsr_peer_device" where
  "fin_initial_flags r p =
     (if new (cstate (pd_connection (connections r) p)) < C_CONNECTED
      then p\<lparr>pd_flags := pd_flags p - {INITIAL_STATE_SENT, INITIAL_STATE_RECEIVED, INITIAL_SIZE_RECEIVED}\<rparr> else p)"

definition bsr_stable_sync_source_present :: "which_state \<Rightarrow> bsr_resource \<Rightarrow> bsr_device \<Rightarrow> nat \<Rightarrow> bool" where
  "bsr_stable_sync_source_present w r d k \<longleftrightarrow>
     (let authoritative_nodes = uuid_authoritative_nodes (peer_devices d ! k)
      in authoritative_nodes AND NODE_MASK (res_node_id r) \<noteq> 0 \<or>
         list_ex (\<lambda>i. let p = peer_devices d ! i; c = pd_connection (connections r) p; repl = at_state w (pd_repl_state p)
             in i \<noteq> k \<and> L_ESTABLISHED \<le> repl \<and> repl < L_AHEAD \<and>
                (authoritative_nodes AND NODE_MASK (pd_node_id p) \<noteq> 0 \<or>
                 (case conn_net_conf c of None \<Rightarrow> False | Some nc \<Rightarrow> \<not> two_primaries nc) \<and> at_state w (peer_role c) = R_PRIMARY \<or>
                 (repl = L_SYNC_TARGET \<or> repl = L_PAUSED_SYNC_T) \<and> bit (uuid_flags p) UUID_FLAG_STABLE))
           [0..<length (peer_devices d)])"

definition fin_unstable :: "bsr_resource \<Rightarrow> bsr_device \<Rightarrow> bsr_device" where
  "fin_unstable r d =
     d\<lparr>peer_devices := map (\<lambda>k. let p = peer_devices d ! k
         in if UNSTABLE_RESYNC \<notin> pd_flags p \<and> new (pd_repl_state p) \<in> {L_SYNC_TARGET, L_PAUSED_SYNC_T} \<and>
               \<not> bit (uuid_flags p) UUID_FLAG_STABLE \<and> \<not> bsr_stable_sync_source_present NEW r d k
            then p\<lparr>pd_flags := insert UNSTABLE_RESYNC (pd_flags p)\<rparr> else p) [0..<length (peer_devices d)]\<rparr>"

definition map_pds :: "(bsr_peer_device \<Rightarrow> bsr_peer_device) \<Rightarrow> bsr_resource \<Rightarrow> bsr_resource" where
  "map_pds f r = r\<lparr>devices := map (\<lambda>d. d\<lparr>peer_devices := map f (peer_devices d)\<rparr>) (devices r)\<rparr>"

definition map_conns :: "(nat \<Rightarrow> bsr_connection \<Rightarrow> bsr_connection) \<Rightarrow> bsr_resource \<Rightarrow> bsr_resource" where
  "map_conns f r = r\<lparr>connections := map (\<lambda>i. f i (connections r ! i)) [0..<length (connections r)]\<rparr>"

definition queue_after_state_change_work :: "bool \<Rightarrow> bsr_resource \<Rightarrow> bsr_resource" where
  "queue_after_state_change_work mem r =
     (if mem then
        r\<lparr>devices := map (\<lambda>d.
          let d = (if new (dev_disk_state d) = D_DETACHING \<and> now (dev_disk_state d) \<noteq> D_DETACHING
                   then d\<lparr>dev_disk_state := Two (new (dev_disk_state d)) (new (dev_disk_state d))\<rparr> else d)
          in d\<lparr>peer_devices := map (\<lambda>p.
               if new (pd_repl_state p) = L_WF_BITMAP_S \<or> new (pd_repl_state p) = L_WF_BITMAP_T
               then p\<lparr>pd_repl_state := Two (new (pd_repl_state p)) (new (pd_repl_state p))\<rparr> else p) (peer_devices d)\<rparr>)
        (devices r)\<rparr>
      else r)"

definition finish_state_change :: "bool \<Rightarrow> bsr_resource \<Rightarrow> bsr_resource" where
  "finish_state_change mem r =
     (let lost_a_primary_peer = list_ex (\<lambda>c. now (peer_role c) = R_PRIMARY \<and> new (peer_role c) = R_UNKNOWN) (connections r);
          r = map_pds fin_rs_done r;
          r = r\<lparr>devices := map (fin_device r) (devices r)\<rparr>;
          r = map_conns (fin_conn r) r;
          r = map_pds (fin_initial_flags r) r;
          r = (if lost_a_primary_peer then r\<lparr>devices := map (fin_unstable r) (devices r)\<rparr> else r)
      in queue_after_state_change_work mem r)"

section \<open>Ending a state change\<close>

definition take_new :: "'a two \<Rightarrow> 'a two" where
  "take_new t = Two (new t) (new t)"

definition commit_pd :: "bsr_peer_device \<Rightarrow> bsr_peer_device" where
  "commit_pd p =
     (let p = (if now (pd_repl_state p) \<noteq> L_AHEAD \<and> new (pd_repl_state p) = L_AHEAD
               then p\<lparr>resync_seq := (if 2 ^ 31 - 1 \<le> resync_seq p then 1 else resync_seq p + 1)\<rparr>
               else if now (pd_repl_state p) = L_AHEAD \<and> new (pd_repl_state p) \<noteq> L_AHEAD
               then p\<lparr>al_oos_cnt := 0\<rparr> else p)
      in p\<lparr>pd_disk_state := take_new (pd_disk_state p), pd_repl_state := take_new (pd_repl_state p),
           resync_susp_user := take_new (resync_susp_user p), resync_susp_peer := take_new (resync_susp_peer p),
           resync_susp_dependency := take_new (resync_susp_dependency p),
           resync_susp_other_c := take_new (resync_susp_other_c p)\<rparr>)"

definition commit_dev :: "bsr_device \<Rightarrow> bsr_device" where
  "commit_dev d =
     d\<lparr>dev_disk_state := take_new (dev_disk_state d), susp_quorum := take_new (susp_quorum d),
       peer_devices := map commit_pd (peer_devices d),
       dev_flags := (if NEW_CUR_UUID_SCHEDULED \<in> dev_flags d
                     then insert NEW_CUR_UUID (dev_flags d - {NEW_CUR_UUID_SCHEDULED}) else dev_flags d)\<rparr>"

definition commit_conn :: "bsr_connection \<Rightarrow> bsr_connection" where
  "commit_conn c = c\<lparr>cstate := take_new (cstate c), peer_role := take_new (peer_role c), susp_fen := take_new (susp_fen c)\<rparr>"

definition commit_state :: "bsr_resource \<Rightarrow> bsr_resource" where
  "commit_state r =
     r\<lparr>role := take_new (role r), susp := take_new (susp r), susp_nod := take_new (susp_nod r),
       connections := map commit_conn (connections r), devices := map commit_dev (devices r)\<rparr>"

definition clear_remote_state_change0 :: "bsr_resource \<Rightarrow> bsr_resource" where
  "clear_remote_state_change0 r = r\<lparr>remote_state_change := False, twopc_initiator_node_id := -1, twopc_tid := 0\<rparr>"

definition end_state_change0 :: "bool \<Rightarrow> bsr_state_rv \<Rightarrow> bsr_resource \<Rightarrow> bsr_state_rv \<times> bsr_resource" where
  "end_state_change0 mem rv r =
     (let flags = state_change_flags r;
          (rv, r) =
            (if CS_ABORT \<in> flags then (rv, r)
             else let (rv, r) = (if ok_rv rv then try_state_change r else (rv, r))
                  in if \<not> ok_rv rv \<or> CS_PREPARE \<in> flags then (rv, r)
                     else (rv, commit_state (finish_state_change mem r)));
          r = (if CS_TWOPC \<in> flags \<and> CS_PREPARE \<notin> flags then clear_remote_state_change0 r else r)
      in (rv, r))"

definition begin_state_change :: "chg_state_flag set \<Rightarrow> bsr_resource \<Rightarrow> bsr_resource" where
  "begin_state_change flags r = begin_state_change0 (r\<lparr>state_change_flags := flags\<rparr>)"

definition end_state_change :: "bool \<Rightarrow> bsr_resource \<Rightarrow> bsr_state_rv \<times> bsr_resource" where
  "end_state_change mem r =
     (case end_state_change0 mem SS_SUCCESS r of (rv, r) \<Rightarrow> (rv, r\<lparr>state_change_flags := {}\<rparr>))"

definition abort_state_change :: "bool \<Rightarrow> bsr_resource \<Rightarrow> bsr_resource" where
  "abort_state_change mem r =
     (case end_state_change0 mem SS_UNKNOWN_ERROR (r\<lparr>state_change_flags := state_change_flags r - {CS_VERBOSE}\<rparr>) of
        (rv, r) \<Rightarrow> r\<lparr>state_change_flags := {}\<rparr>)"

end
