(* ===== verification/State_Lemmas.thy ===== *)
theory State_Lemmas
  imports State_Change
begin

text \<open>
  What \<open>sanitize_state\<close> guarantees: it never touches the state in effect (\<open>now_sanitize_state\<close>), it forgets
  the role of a peer that is not connected (\<open>sanitize_peer_role\<close>), and a peer device without connection
  has an outdated or unknown disk (\<open>sanitize_pds_ok\<close>).  Each block of the peer device loop is shown to keep
  what the blocks before it established.
\<close>

section \<open>The state in effect\<close>

definition now_pd :: "bsr_peer_device \<Rightarrow> bsr_disk_state \<times> bsr_repl_state \<times> bool \<times> bool \<times> bool \<times> bool" where
  "now_pd p = (now (pd_disk_state p), now (pd_repl_state p), now (resync_susp_user p), now (resync_susp_peer p),
     now (resync_susp_dependency p), now (resync_susp_other_c p))"

definition new_pd :: "bsr_peer_device \<Rightarrow> bsr_disk_state \<times> bsr_repl_state \<times> bool \<times> bool \<times> bool \<times> bool" where
  "new_pd p = (new (pd_disk_state p), new (pd_repl_state p), new (resync_susp_user p), new (resync_susp_peer p),
     new (resync_susp_dependency p), new (resync_susp_other_c p))"

definition now_dev where
  "now_dev d = (now (dev_disk_state d), now (susp_quorum d), map now_pd (peer_devices d))"

definition new_dev where
  "new_dev d = (new (dev_disk_state d), new (susp_quorum d), map new_pd (peer_devices d))"

definition now_conn where
  "now_conn c = (now (cstate c), now (peer_role c), now (susp_fen c))"

definition new_conn where
  "new_conn c = (new (cstate c), new (peer_role c), new (susp_fen c))"

definition now_view where
  "now_view r = (now (role r), now (susp r), now (susp_nod r), map now_conn (connections r), map now_dev (devices r))"

definition new_view where
  "new_view r = (new (role r), new (susp r), new (susp_nod r), map new_conn (connections r), map new_dev (devices r))"

lemmas now_defs = now_pd_def now_dev_def now_conn_def now_view_def

lemma now_pd_change [simp]:
  "now_pd (change_repl_state0 a p) = now_pd p" "now_pd (change_peer_disk_state0 b p) = now_pd p"
  "now_pd (change_resync_susp_user0 c p) = now_pd p" "now_pd (change_resync_susp_peer0 c p) = now_pd p"
  "now_pd (change_resync_susp_dependency0 c p) = now_pd p" "now_pd (change_resync_susp_other_c0 c p) = now_pd p"
  "now_pd (p\<lparr>pd_flags := f\<rparr>) = now_pd p" "now_pd (p\<lparr>uuid_flags := u\<rparr>) = now_pd p"
  "now_pd (resume_aborted a p) = now_pd p"
  by (simp_all add: now_pd_def change_defs resume_aborted_def)

lemma now_conn_change [simp]:
  "now_conn (change_peer_role0 a c) = now_conn c" "now_conn (change_io_susp_fencing0 b c) = now_conn c"
  "now_conn (change_cstate_state0 x c) = now_conn c" "now_conn (san_conn c) = now_conn c"
  by (simp_all add: now_conn_def change_defs san_conn_def)

lemma now_dev_change [simp]:
  "now_dev (change_disk_state0 a d) = now_dev d" "now_dev (change_io_susp_quorum0 b d) = now_dev d"
  by (simp_all add: now_dev_def change_defs)

lemma map_list_update_same: "f y = f (xs ! k) \<Longrightarrow> map f (xs[k := y]) = map f xs"
proof (cases "k < length xs")
  case True
  assume "f y = f (xs ! k)"
  then have "map f (xs[k := y]) = (map f xs)[k := map f xs ! k]" using True by (simp add: map_update)
  then show ?thesis by simp
qed (simp add: list_update_beyond)

lemma now_dev_on_pd [simp]: "now_pd (f (peer_devices d ! k)) = now_pd (peer_devices d ! k) \<Longrightarrow> now_dev (on_pd k f d) = now_dev d"
  by (simp add: now_dev_def on_pd_def map_list_update_same)

lemma map_index_same: "(\<And>i. i < length xs \<Longrightarrow> f (g i) = f (xs ! i)) \<Longrightarrow> map f (map g [0..<length xs]) = map f xs"
  by (rule nth_equalityI) simp_all

lemma now_dev_map_other [simp]: "(\<And>p. now_pd (f p) = now_pd p) \<Longrightarrow> now_dev (map_other k f d) = now_dev d"
  by (simp add: now_dev_def map_other_def map_index_same del: map_map)

lemma now_dev_resume_one [simp]: "now_dev (snd (resume_one k is d)) = now_dev d"
  by (induction k "is" d rule: resume_one.induct) (simp_all add: Let_def)

lemma now_dev_set_resync_susp_other_c [simp]: "now_dev (set_resync_susp_other_c k v b d) = now_dev d"
proof -
  have "now_dev d' = now_dev d" if "resume_one k [0..<length (peer_devices d)] d = (b', d')" for b' d'
    using now_dev_resume_one [of k "[0..<length (peer_devices d)]" d] that by simp
  then show ?thesis
    by (auto simp: set_resync_susp_other_c_def Let_def split: prod.split bool.split)
qed

definition now_s where
  "now_s s = (map now_conn (s_conns s), now_dev (s_dev s))"

lemma now_s_upd [simp]:
  "now_pd (f (s_pd k s)) = now_pd (s_pd k s) \<Longrightarrow> now_s (s_upd k f s) = now_s s"
  "now_dev (g (s_dev s)) = now_dev (s_dev s) \<Longrightarrow> now_s (s_upd_dev g s) = now_s s"
  "now_s (s\<lparr>s_lost := l\<rparr>) = now_s s" "now_s (s\<lparr>s_good := n\<rparr>) = now_s s"
  by (simp_all add: now_s_def s_upd_def s_upd_dev_def)

lemma now_san_peer_device [simp]: "now_s (san_peer_device r k s) = now_s s"
proof -
  have "now_s (san_disconnected k s) = now_s s" for s by (simp add: san_disconnected_def Let_def)
  moreover have "now_s (san_unconfigured r k s) = now_s s" for s by (simp add: san_unconfigured_def)
  moreover have "now_s (san_failed_disk k s) = now_s s" for s by (simp add: san_failed_disk_def)
  moreover have "now_s (san_unstable r k s) = now_s s" for s by (simp add: san_unstable_def Let_def)
  moreover have "now_s (san_unsyncable k s) = now_s s" for s by (simp add: san_unsyncable_def)
  moreover have "now_s (san_resume_aborted k s) = now_s s" for s by (simp add: san_resume_aborted_def)
  moreover have "now_s (san_pre_110 k s) = now_s s" for s by (simp add: san_pre_110_def Let_def)
  moreover have "now_s (san_bounds k s) = now_s s" for s
    by (cases "disk_bounds (new (s_repl k s))") (simp add: san_bounds_def Let_def)
  moreover have "now_s (san_fencing r k s) = now_s s" for s
    by (simp add: san_fencing_def Let_def now_s_def map_list_update_same)
  moreover have "now_s (san_good k s) = now_s s" for s by (simp add: san_good_def)
  moreover have "now_s (san_pause k s) = now_s s" for s by (simp add: san_pause_def Let_def)
  moreover have "now_s (san_others k s) = now_s s" for s by (simp add: san_others_def Let_def)
  moreover have "now_s (san_peer_diskless k s) = now_s s" for s by (simp add: san_peer_diskless_def)
  moreover have "now_s (san_upgrade k s) = now_s s" for s by (simp add: san_upgrade_def Let_def)
  moreover have "now_s (san_quorum r k s) = now_s s" for s by (simp add: san_quorum_def)
  ultimately show ?thesis unfolding san_peer_device_def Let_def by simp
qed

lemma fold_same: "(\<And>x s. f (g x s) = f s) \<Longrightarrow> f (fold g xs s) = f s"
  by (induction xs arbitrary: s) simp_all

lemma now_dev_negotiate [simp]: "now_dev (san_negotiate cs d) = now_dev d"
proof -
  have p: "now_pd (negotiated_repl cs d' p) = now_pd p" for d' p by (simp add: negotiated_repl_def Let_def)
  have "now_dev (e\<lparr>peer_devices := map (negotiated_repl cs d') (peer_devices e)\<rparr>) = now_dev e" for e d'
    by (simp add: now_dev_def p)
  note * = this [of "change_disk_state0 x d" for x, unfolded now_dev_change]
  show ?thesis unfolding san_negotiate_def Let_def by (simp only: * now_dev_change if_distrib [of now_dev] if_cancel)
qed

lemma now_dev_early [simp]: "now_dev (san_early r d) = now_dev d"
  by (simp add: san_early_def Let_def)

lemma now_san_device [simp]: "now_view (san_device b n i r) = now_view r"
proof -
  define d where "d = san_negotiate (connections r) (san_early r (devices r ! i))"
  define s where "s = fold (san_peer_device r) [0..<length (peer_devices d)]
     \<lparr>s_conns = connections r, s_dev = d, s_lost = False, s_good = Two 0 0\<rparr>"
  have "now_s s = now_s \<lparr>s_conns = connections r, s_dev = d, s_lost = False, s_good = Two 0 0\<rparr>"
    unfolding s_def by (rule fold_same) simp
  then have "now_s s = (map now_conn (connections r), now_dev (devices r ! i))" by (simp add: now_s_def d_def)
  then have s: "map now_conn (s_conns s) = map now_conn (connections r)" "now_dev (s_dev s) = now_dev (devices r ! i)"
    by (simp_all add: now_s_def)
  have v: "now_view (r'\<lparr>connections := s_conns s, devices := (devices r)[i := d']\<rparr>) = now_view r"
    if "now_dev d' = now_dev (s_dev s)" "now (role r') = now (role r)" "now (susp r') = now (susp r)"
      "now (susp_nod r') = now (susp_nod r)" for r' d'
    using that s by (simp add: now_view_def map_list_update_same)
  show ?thesis
    unfolding san_device_def d_def [symmetric] Let_def s_def [symmetric]
    by (auto intro!: v simp: change_io_susp_no_data0_def)
qed

lemma now_sanitize_state [simp]: "now_view (sanitize_state r) = now_view r"
proof -
  have "now_view (r\<lparr>connections := map san_conn (connections r)\<rparr>) = now_view r" by (simp add: now_view_def)
  then show ?thesis unfolding sanitize_state_def Let_def by (subst fold_same [where f = now_view]) simp_all
qed

section \<open>What sanitizing keeps\<close>

text \<open>The parts of the connections and of the resource that \<open>sanitize_state\<close> does not touch.\<close>

definition conn_frame where
  "conn_frame c = (cstate c, peer_role c, conn_net_conf c, fencing c, agreed_pro_version c, peer_node_id c, conn_flags c)"

definition res_frame where
  "res_frame r = (role r, susp r, map conn_frame (connections r), length (devices r), res_node_id r, quorum r,
     on_no_data r, state_change_flags r, remote_state_change r)"

lemma map_conn_frame_fencing [simp]:
  "map conn_frame (cs[i := change_io_susp_fencing0 b (cs ! i)]) = map conn_frame cs"
  by (rule map_list_update_same) (simp add: conn_frame_def change_io_susp_fencing0_def)

lemma s_upd_conns [simp]: "s_conns (s_upd k f s) = s_conns s" "s_conns (s_upd_dev g s) = s_conns s"
  by (simp_all add: s_upd_def s_upd_dev_def)

lemma conns_san_peer_device [simp]: "map conn_frame (s_conns (san_peer_device r k s)) = map conn_frame (s_conns s)"
proof -
  have "s_conns (san_disconnected k s) = s_conns s" for s by (simp add: san_disconnected_def Let_def)
  moreover have "s_conns (san_unconfigured r k s) = s_conns s" for s by (simp add: san_unconfigured_def)
  moreover have "s_conns (san_failed_disk k s) = s_conns s" for s by (simp add: san_failed_disk_def)
  moreover have "s_conns (san_unstable r k s) = s_conns s" for s by (simp add: san_unstable_def Let_def)
  moreover have "s_conns (san_unsyncable k s) = s_conns s" for s by (simp add: san_unsyncable_def)
  moreover have "s_conns (san_resume_aborted k s) = s_conns s" for s by (simp add: san_resume_aborted_def)
  moreover have "s_conns (san_pre_110 k s) = s_conns s" for s by (simp add: san_pre_110_def Let_def)
  moreover have "s_conns (san_bounds k s) = s_conns s" for s
    by (cases "disk_bounds (new (s_repl k s))") (simp add: san_bounds_def Let_def)
  moreover have "map conn_frame (s_conns (san_fencing r k s)) = map conn_frame (s_conns s)" for s
    by (simp add: san_fencing_def Let_def)
  moreover have "s_conns (san_good k s) = s_conns s" for s by (simp add: san_good_def)
  moreover have "s_conns (san_pause k s) = s_conns s" for s by (simp add: san_pause_def Let_def)
  moreover have "s_conns (san_others k s) = s_conns s" for s by (simp add: san_others_def Let_def)
  moreover have "s_conns (san_peer_diskless k s) = s_conns s" for s by (simp add: san_peer_diskless_def)
  moreover have "s_conns (san_upgrade k s) = s_conns s" for s by (simp add: san_upgrade_def Let_def)
  moreover have "s_conns (san_quorum r k s) = s_conns s" for s by (simp add: san_quorum_def)
  ultimately show ?thesis unfolding san_peer_device_def Let_def by simp
qed

lemma frame_san_device [simp]: "res_frame (san_device b n i r) = res_frame r"
proof -
  define d where "d = san_negotiate (connections r) (san_early r (devices r ! i))"
  define s where "s = fold (san_peer_device r) [0..<length (peer_devices d)]
     \<lparr>s_conns = connections r, s_dev = d, s_lost = False, s_good = Two 0 0\<rparr>"
  have "map conn_frame (s_conns s) = map conn_frame (s_conns \<lparr>s_conns = connections r, s_dev = d, s_lost = False, s_good = Two 0 0\<rparr>)"
    unfolding s_def by (rule fold_same [where f = "\<lambda>s. map conn_frame (s_conns s)"]) simp
  then have "map conn_frame (s_conns s) = map conn_frame (connections r)" by simp
  then show ?thesis
    unfolding san_device_def d_def [symmetric] Let_def s_def [symmetric]
    by (simp add: res_frame_def change_io_susp_no_data0_def)
qed

lemma frame_sanitize_state:
  "res_frame (sanitize_state r) = res_frame (r\<lparr>connections := map san_conn (connections r)\<rparr>)"
  unfolding sanitize_state_def Let_def by (rule fold_same) simp

lemma san_conn_role: "c \<in> set (map san_conn cs) \<Longrightarrow> new (cstate c) < C_CONNECTED \<Longrightarrow> new (peer_role c) = R_UNKNOWN"
  by (auto simp: san_conn_def change_defs split: if_splits)

lemma sanitize_peer_role:
  assumes "c \<in> set (connections (sanitize_state r))" and "new (cstate c) < C_CONNECTED"
  shows "new (peer_role c) = R_UNKNOWN"
proof -
  have "map conn_frame (connections (sanitize_state r)) = map conn_frame (map san_conn (connections r))"
    using frame_sanitize_state [of r] by (simp add: res_frame_def)
  then obtain c' where "c' \<in> set (map san_conn (connections r))" "conn_frame c' = conn_frame c"
    using assms(1) by (metis (no_types, lifting) imageE imageI list.set_map)
  then show ?thesis using san_conn_role [of c'] assms(2) by (simp add: conn_frame_def)
qed

section \<open>Disconnected peers\<close>

definition pd_ok :: "bsr_peer_device \<Rightarrow> bool" where
  "pd_ok p \<longleftrightarrow> (new (pd_repl_state p) < L_ESTABLISHED \<longrightarrow>
     (new (pd_disk_state p) = D_OUTDATED \<or> new (pd_disk_state p) = D_UNKNOWN) \<and> \<not> new (resync_susp_peer p))"

text \<open>A step keeps the number of peer devices and every peer device that is \<open>pd_ok\<close>.\<close>

definition dev_keeps_ok :: "bsr_device \<Rightarrow> bsr_device \<Rightarrow> bool" where
  "dev_keeps_ok d d' \<longleftrightarrow> length (peer_devices d') = length (peer_devices d) \<and>
     (\<forall>j < length (peer_devices d). pd_ok (peer_devices d ! j) \<longrightarrow> pd_ok (peer_devices d' ! j))"

lemma dev_keeps_ok_refl [simp]: "dev_keeps_ok d d"
  and dev_keeps_ok_trans: "dev_keeps_ok d d' \<Longrightarrow> dev_keeps_ok d' d'' \<Longrightarrow> dev_keeps_ok d d''"
  by (auto simp: dev_keeps_ok_def)

lemma dev_keeps_ok_disk [simp]: "dev_keeps_ok d (change_disk_state0 x d') = dev_keeps_ok d d'"
  "dev_keeps_ok d (change_io_susp_quorum0 b d') = dev_keeps_ok d d'"
  by (simp_all add: dev_keeps_ok_def change_defs)

lemma dev_keeps_ok_on_pd:
  "dev_keeps_ok d d' \<Longrightarrow> (k < length (peer_devices d) \<Longrightarrow> pd_ok (peer_devices d' ! k) \<Longrightarrow> pd_ok (f (peer_devices d' ! k))) \<Longrightarrow>
    dev_keeps_ok d (on_pd k f d')"
proof -
  assume d: "dev_keeps_ok d d'" and f: "k < length (peer_devices d) \<Longrightarrow> pd_ok (peer_devices d' ! k) \<Longrightarrow> pd_ok (f (peer_devices d' ! k))"
  have "pd_ok ((peer_devices d')[k := f (peer_devices d' ! k)] ! j)" if "j < length (peer_devices d)" "pd_ok (peer_devices d ! j)" for j
    using d f that by (cases "j = k") (auto simp: dev_keeps_ok_def)
  then show ?thesis using d by (simp add: dev_keeps_ok_def on_pd_def)
qed

lemma dev_keeps_ok_map_other: "(\<And>p. pd_ok p \<Longrightarrow> pd_ok (f p)) \<Longrightarrow> dev_keeps_ok d (map_other k f d)"
  by (auto simp: dev_keeps_ok_def map_other_def)

lemma pd_ok_other_c [simp]: "pd_ok (change_resync_susp_other_c0 b p) = pd_ok p"
  by (simp add: pd_ok_def change_defs)

lemma pd_ok_repl: "L_ESTABLISHED \<le> x \<Longrightarrow> pd_ok (change_repl_state0 x p)"
  by (auto simp: pd_ok_def change_defs)

lemma dev_keeps_ok_resume_one: "dev_keeps_ok d (snd (resume_one k is d))"
proof (induction k "is" d rule: resume_one.induct)
  case (2 k i "is" d)
  let ?d1 = "on_pd i (change_resync_susp_other_c0 False) d"
  have d1: "dev_keeps_ok d ?d1" by (rule dev_keeps_ok_on_pd) simp_all
  have d2: "dev_keeps_ok d (on_pd i (change_repl_state0 L_SYNC_TARGET) ?d1)"
    by (rule dev_keeps_ok_on_pd [OF d1]) (simp add: pd_ok_repl state_order)
  have d3: "dev_keeps_ok d (on_pd k (change_resync_susp_other_c0 True) d')" if "dev_keeps_ok d d'" for d'
    by (rule dev_keeps_ok_on_pd [OF that]) simp
  show ?case using 2 d1 d2 d3 by (auto simp: Let_def intro: dev_keeps_ok_trans)
qed simp

lemma dev_keeps_ok_set_resync: "dev_keeps_ok d (set_resync_susp_other_c k v b d)"
proof -
  have t: "dev_keeps_ok d (map_other k (\<lambda>p. let p' = change_resync_susp_other_c0 True p
          in if b \<and> D_INCONSISTENT \<le> new (pd_disk_state p) \<and> new (pd_repl_state p) = L_ESTABLISHED
             then change_repl_state0 L_PAUSED_SYNC_T p' else p') d)"
    by (rule dev_keeps_ok_map_other) (simp add: Let_def pd_ok_repl state_order)
  obtain v' d' where r: "resume_one k [0..<length (peer_devices d)] d = (v', d')" by fastforce
  then have d': "dev_keeps_ok d d'" using dev_keeps_ok_resume_one [of d k "[0..<length (peer_devices d)]"] by simp
  have "dev_keeps_ok d' (map_other k (\<lambda>p. let p = change_resync_susp_other_c0 False p
              in if new (pd_repl_state p) = L_PAUSED_SYNC_S \<and> \<not> resync_suspended NEW p
                 then change_repl_state0 L_SYNC_SOURCE p else p) d')"
    by (rule dev_keeps_ok_map_other) (simp add: Let_def pd_ok_repl state_order)
  then show ?thesis
    using t d' r unfolding set_resync_susp_other_c_def by (auto split: bool.split intro: dev_keeps_ok_trans)
qed

lemma pd_ok_simps [simp]:
  "pd_ok (p\<lparr>pd_flags := f\<rparr>) = pd_ok p" "pd_ok (p\<lparr>uuid_flags := u\<rparr>) = pd_ok p"
  "pd_ok (change_resync_susp_dependency0 b p) = pd_ok p"
  by (simp_all add: pd_ok_def change_defs)

lemma pd_ok_resume_aborted: "L_ESTABLISHED \<le> x \<Longrightarrow> pd_ok (resume_aborted x p)"
  by (simp add: resume_aborted_def pd_ok_repl)

lemma s_dev_upd [simp]: "s_dev (s_upd k f s) = on_pd k f (s_dev s)" "s_dev (s_upd_dev g s) = g (s_dev s)"
  by (simp_all add: s_upd_def s_upd_dev_def)

lemma on_pd_self [simp]: "k < length (peer_devices d) \<Longrightarrow> peer_devices (on_pd k f d) ! k = f (peer_devices d ! k)"
  and dev_disk_on_pd [simp]: "dev_disk_state (on_pd k f d) = dev_disk_state d"
  and len_on_pd [simp]: "length (peer_devices (on_pd k f d)) = length (peer_devices d)"
  and pds_change_disk [simp]: "peer_devices (change_disk_state0 x d) = peer_devices d"
  by (simp_all add: on_pd_def change_defs)

lemma pd_ok_pdsk: "L_ESTABLISHED \<le> new (pd_repl_state p) \<Longrightarrow> pd_ok (change_peer_disk_state0 x p)"
  by (auto simp: pd_ok_def change_defs)

lemma ok_unconfigured: "dev_keeps_ok (s_dev s) (s_dev (san_unconfigured r k s))"
  by (auto simp: san_unconfigured_def intro: dev_keeps_ok_on_pd)

lemma ok_failed_disk: "dev_keeps_ok (s_dev s) (s_dev (san_failed_disk k s))"
  by (auto simp: san_failed_disk_def intro!: dev_keeps_ok_on_pd pd_ok_repl)

lemma ok_unstable: "dev_keeps_ok (s_dev s) (s_dev (san_unstable r k s))"
  by (auto simp: san_unstable_def Let_def intro!: dev_keeps_ok_on_pd pd_ok_repl)

lemma ok_unsyncable: "dev_keeps_ok (s_dev s) (s_dev (san_unsyncable k s))"
  by (auto simp: san_unsyncable_def intro!: dev_keeps_ok_on_pd pd_ok_repl)

lemma ok_resume_aborted: "dev_keeps_ok (s_dev s) (s_dev (san_resume_aborted k s))"
  by (auto simp: san_resume_aborted_def state_order intro!: dev_keeps_ok_on_pd pd_ok_resume_aborted)

lemma ok_pre_110: "dev_keeps_ok (s_dev s) (s_dev (san_pre_110 k s))"
  by (auto simp: san_pre_110_def Let_def intro!: dev_keeps_ok_on_pd pd_ok_pdsk)

lemma below_established: "x < L_ESTABLISHED \<longleftrightarrow> x = L_OFF"
  by (cases x) (simp_all add: state_order)

lemma on_pd_comp: "k < length (peer_devices d) \<Longrightarrow> on_pd k g (on_pd k f d) = on_pd k (\<lambda>p. g (f p)) d"
  by (simp add: on_pd_def)

lemma on_pd_id [simp]: "on_pd k (\<lambda>p. p) d = d"
  by (simp add: on_pd_def)

definition bound_pd :: "bsr_peer_device \<Rightarrow> bsr_peer_device" where
  "bound_pd p =
     (case disk_bounds (new (pd_repl_state p)) of (a, b, c, e) \<Rightarrow>
        let p = (if e < new (pd_disk_state p) then change_peer_disk_state0 e p else p)
        in if new (pd_disk_state p) < c \<and> new (pd_repl_state p) \<noteq> L_STARTING_SYNC_T then change_peer_disk_state0 c p else p)"

definition bound_disk :: "bsr_repl_state \<Rightarrow> bsr_device \<Rightarrow> bsr_device" where
  "bound_disk l d =
     (case disk_bounds l of (a, b, c, e) \<Rightarrow>
        let d = (if b < new (dev_disk_state d) then change_disk_state0 b d else d)
        in if new (dev_disk_state d) < a then change_disk_state0 a d else d)"

lemma san_bounds_eq:
  assumes "k < length (peer_devices (s_dev s))"
  shows "s_dev (san_bounds k s) = on_pd k bound_pd (bound_disk (new (s_repl k s)) (s_dev s))"
proof -
  obtain a b c e where bd: "disk_bounds (new (s_repl k s)) = (a, b, c, e)" by (metis prod.exhaust)
  have ps: "peer_devices (bound_disk l d) = peer_devices d" for l d
    by (cases "disk_bounds l") (simp add: bound_disk_def Let_def)
  have on: "on_pd k f d = on_pd k g d" if "f (peer_devices d ! k) = g (peer_devices d ! k)" for f g d
    using that by (simp add: on_pd_def)
  define s1 where "s1 = (if b < new (s_disk s) then s_upd_dev (change_disk_state0 b) s else s)"
  define s2 where "s2 = (if new (s_disk s1) < a then s_upd_dev (change_disk_state0 a) s1 else s1)"
  define s3 where "s3 = (if e < new (s_pdsk k s2) then s_upd k (change_peer_disk_state0 e) s2 else s2)"
  have s2: "s_dev s2 = bound_disk (new (s_repl k s)) (s_dev s)"
    by (simp add: s2_def s1_def bound_disk_def bd Let_def)
  have p2: "peer_devices (s_dev s2) = peer_devices (s_dev s)" by (simp add: s2 ps)
  have s3: "s_dev s3 = on_pd k (\<lambda>p. if e < new (pd_disk_state p) then change_peer_disk_state0 e p else p) (s_dev s2)"
    by (auto simp: s3_def on_pd_def)
  have "s_dev (san_bounds k s) =
      on_pd k (\<lambda>p. if new (pd_disk_state p) < c \<and> new (pd_repl_state p) \<noteq> L_STARTING_SYNC_T
        then change_peer_disk_state0 c p else p) (s_dev s3)"
    unfolding san_bounds_def bd Let_def prod.case s1_def [symmetric] s2_def [symmetric] s3_def [symmetric]
    by (auto simp: on_pd_def)
  also have "\<dots> = on_pd k bound_pd (s_dev s2)"
    unfolding s3 using assms p2 by (subst on_pd_comp) (auto intro!: on simp: bound_pd_def bd Let_def)
  finally show ?thesis by (simp add: s2)
qed

lemma bound_pd_ok: "pd_ok p \<Longrightarrow> pd_ok (bound_pd p)"
  by (cases "new (pd_repl_state p)")
    (auto simp: bound_pd_def Let_def pd_ok_def change_defs state_order)

lemma ok_bounds: "k < length (peer_devices (s_dev s)) \<Longrightarrow> dev_keeps_ok (s_dev s) (s_dev (san_bounds k s))"
  unfolding san_bounds_eq
  by (rule dev_keeps_ok_on_pd) (auto simp: bound_pd_ok bound_disk_def Let_def split: prod.split)

lemma ok_fencing [simp]: "s_dev (san_fencing r k s) = s_dev s"
  and ok_good [simp]: "s_dev (san_good k s) = s_dev s"
  by (simp_all add: san_fencing_def san_good_def Let_def)

lemma ok_pause: "dev_keeps_ok (s_dev s) (s_dev (san_pause k s))"
proof -
  have 1: "dev_keeps_ok (s_dev s) (s_dev (if b then s_upd k (change_repl_state0 x) s else s))"
    if "L_ESTABLISHED \<le> x" for b x s
    using that by (auto intro!: dev_keeps_ok_on_pd pd_ok_repl)
  have 2: "dev_keeps_ok (s_dev s) (s_dev (if b then s_upd k (change_resync_susp_other_c0 v) s else s))" for b v s
    by (auto intro!: dev_keeps_ok_on_pd)
  define s1 where "s1 = (if now (s_repl k s) \<noteq> L_SYNC_SOURCE \<and> new (s_repl k s) = L_SYNC_SOURCE \<and> is_sync_target_other_c k (s_dev s)
    then s_upd k (change_resync_susp_other_c0 True) s else s)"
  have s1: "dev_keeps_ok (s_dev s) (s_dev s1)" unfolding s1_def by (rule 2)
  have "dev_keeps_ok (s_dev s1) (s_dev (san_pause k s))"
    unfolding san_pause_def Let_def s1_def [symmetric]
    by (cases "resync_suspended NEW (s_pd k s1)")
      (simp_all only: if_True if_False, (rule dev_keeps_ok_trans [OF 1 1]; simp add: state_order)+)
  then show ?thesis by (rule dev_keeps_ok_trans [OF s1])
qed

lemma ok_others: "dev_keeps_ok (s_dev s) (s_dev (san_others k s))"
proof -
  have 1: "dev_keeps_ok (s_dev s) (s_dev (if b then s_upd_dev (set_resync_susp_other_c k v w) s else s))" for b v w s
    by (simp add: dev_keeps_ok_set_resync)
  note t = dev_keeps_ok_trans [OF 1]
  show ?thesis unfolding san_others_def Let_def by (rule t, rule t, rule t, rule 1)
qed

lemma ok_peer_diskless: "dev_keeps_ok (s_dev s) (s_dev (san_peer_diskless k s))"
  by (auto simp: san_peer_diskless_def pd_ok_def change_defs intro!: dev_keeps_ok_on_pd)

lemma ok_upgrade: "dev_keeps_ok (s_dev s) (s_dev (san_upgrade k s))"
  by (auto simp: san_upgrade_def Let_def intro!: dev_keeps_ok_on_pd)

lemma ok_quorum: "dev_keeps_ok (s_dev s) (s_dev (san_quorum r k s))"
  by (auto simp: san_quorum_def)

lemma disconnected_ok:
  assumes k: "k < length (peer_devices (s_dev s))"
  shows "pd_ok (s_pd k (san_disconnected k s))" and "dev_keeps_ok (s_dev s) (s_dev (san_disconnected k s))"
proof -
  let ?f = "\<lambda>p. if new (pd_repl_state p) < L_ESTABLISHED then
      (let p = change_resync_susp_peer0 False p
       in if D_UNKNOWN < new (pd_disk_state p) \<or> new (pd_disk_state p) < D_OUTDATED then change_peer_disk_state0 D_UNKNOWN p else p)
      else p"
  have eq: "s_dev (san_disconnected k s) = on_pd k ?f (s_dev s)"
    using k by (auto simp: san_disconnected_def Let_def on_pd_comp) (simp_all add: on_pd_def)
  have f: "pd_ok (?f p)" for p
    by (cases "new (pd_disk_state p)") (auto simp: pd_ok_def change_defs Let_def state_order)
  show "pd_ok (s_pd k (san_disconnected k s))" unfolding eq using k f by simp
  show "dev_keeps_ok (s_dev s) (s_dev (san_disconnected k s))" unfolding eq by (rule dev_keeps_ok_on_pd) (simp_all add: f)
qed

lemma san_peer_device_ok:
  assumes k: "k < length (peer_devices (s_dev s))"
  shows "pd_ok (s_pd k (san_peer_device r k s))" and "dev_keeps_ok (s_dev s) (s_dev (san_peer_device r k s))"
proof -
  define s1 where "s1 = san_disconnected k s"
  define s7 where "s7 = san_pre_110 k (san_resume_aborted k (san_unsyncable k (san_unstable r k (san_failed_disk k (san_unconfigured r k s1)))))"
  note t = dev_keeps_ok_trans
  have 1: "dev_keeps_ok (s_dev s) (s_dev s1)" "pd_ok (s_pd k s1)" using disconnected_ok [OF k] by (simp_all add: s1_def)
  have 7: "dev_keeps_ok (s_dev s1) (s_dev s7)"
    unfolding s7_def
    by (rule t [OF ok_unconfigured], rule t [OF ok_failed_disk], rule t [OF ok_unstable], rule t [OF ok_unsyncable],
      rule t [OF ok_resume_aborted], rule ok_pre_110)
  then have k7: "k < length (peer_devices (s_dev s7))" using 1 k by (simp add: dev_keeps_ok_def)
  have eq: "san_peer_device r k s = san_quorum r k (san_upgrade k (san_peer_diskless k (san_others k (san_pause k
      (san_good k (san_fencing r k (san_bounds k s7)))))))"
    by (simp add: san_peer_device_def Let_def s7_def s1_def)
  have "dev_keeps_ok (s_dev (san_good k (san_fencing r k (san_bounds k s7)))) (s_dev (san_peer_device r k s))"
    unfolding eq
    by (rule t [OF ok_pause], rule t [OF ok_others], rule t [OF ok_peer_diskless], rule t [OF ok_upgrade], rule ok_quorum)
  then have 8: "dev_keeps_ok (s_dev s1) (s_dev (san_peer_device r k s))" using t [OF t [OF 7 ok_bounds [OF k7]]] by simp
  show "pd_ok (s_pd k (san_peer_device r k s))" using 8 1 k by (simp add: dev_keeps_ok_def)
  show "dev_keeps_ok (s_dev s) (s_dev (san_peer_device r k s))" by (rule t [OF 1(1) 8])
qed

lemma fold_san_ok:
  "n \<le> length (peer_devices (s_dev s)) \<Longrightarrow>
    (let s' = fold (san_peer_device r) [0..<n] s
     in length (peer_devices (s_dev s')) = length (peer_devices (s_dev s)) \<and> (\<forall>j < n. pd_ok (s_pd j s')))"
proof (induction n)
  case (Suc n)
  define s' where "s' = fold (san_peer_device r) [0..<n] s"
  have IH: "length (peer_devices (s_dev s')) = length (peer_devices (s_dev s))" "\<forall>j < n. pd_ok (s_pd j s')"
    using Suc by (simp_all add: Let_def s'_def)
  have n: "n < length (peer_devices (s_dev s'))" using Suc(2) IH by simp
  have "fold (san_peer_device r) [0..<Suc n] s = san_peer_device r n s'" by (simp add: s'_def)
  then show ?case
    using san_peer_device_ok [OF n, of r] IH n by (auto simp: Let_def less_Suc_eq dev_keeps_ok_def)
qed simp

lemma san_device_ok:
  assumes "i < length (devices r)"
  shows "list_all pd_ok (peer_devices (devices (san_device b n i r) ! i))"
    and "j \<noteq> i \<Longrightarrow> devices (san_device b n i r) ! j = devices r ! j"
    and "length (devices (san_device b n i r)) = length (devices r)"
proof -
  define d where "d = san_negotiate (connections r) (san_early r (devices r ! i))"
  define s where "s = fold (san_peer_device r) [0..<length (peer_devices d)]
     \<lparr>s_conns = connections r, s_dev = d, s_lost = False, s_good = Two 0 0\<rparr>"
  have ok: "list_all pd_ok (peer_devices (s_dev s))"
    using fold_san_ok [of "length (peer_devices d)" "\<lparr>s_conns = connections r, s_dev = d, s_lost = False, s_good = Two 0 0\<rparr>" r]
    by (simp add: Let_def s_def list_all_length)
  note def = san_device_def [of b n i r, folded d_def, unfolded Let_def, folded s_def]
  show "list_all pd_ok (peer_devices (devices (san_device b n i r) ! i))"
    unfolding def using ok assms by (simp add: change_io_susp_no_data0_def)
  show "j \<noteq> i \<Longrightarrow> devices (san_device b n i r) ! j = devices r ! j"
    unfolding def by (simp add: change_io_susp_no_data0_def)
  show "length (devices (san_device b n i r)) = length (devices r)"
    unfolding def by (simp add: change_io_susp_no_data0_def)
qed

lemma sanitize_pds_ok:
  assumes "d \<in> set (devices (sanitize_state r))" and "p \<in> set (peer_devices d)"
  shows "pd_ok p"
proof -
  have "n \<le> length (devices r) \<Longrightarrow>
    (let r' = fold (san_device b m) [0..<n] r
     in length (devices r') = length (devices r) \<and> (\<forall>j < n. list_all pd_ok (peer_devices (devices r' ! j))))" for n r b m
  proof (induction n)
    case (Suc n)
    define r' where "r' = fold (san_device b m) [0..<n] r"
    have IH: "length (devices r') = length (devices r)" "\<forall>j < n. list_all pd_ok (peer_devices (devices r' ! j))"
      using Suc by (simp_all add: Let_def r'_def)
    have n: "n < length (devices r')" using Suc(2) IH by simp
    have "fold (san_device b m) [0..<Suc n] r = san_device b m n r'" by (simp add: r'_def)
    then show ?case using san_device_ok [OF n, where b = b and n = m] IH by (auto simp: Let_def less_Suc_eq)
  qed simp
  then have "\<forall>j < length (devices (sanitize_state r)). list_all pd_ok (peer_devices (devices (sanitize_state r) ! j))"
    by (simp add: sanitize_state_def Let_def)
  then show ?thesis using assms by (auto simp: in_set_conv_nth list_all_length)
qed

end
