(* ===== verification/State_Safety.thy ===== *)
theory State_Safety
  imports State_Lemmas
begin

text \<open>
  The guarantees of the state engine as a whole: a state change is all or nothing, the invariants of the
  current state hold after any sequence of changes, soft changes keep a single primary, the disk state is
  recorded in the meta-data, and a majority quorum excludes a second one.
\<close>

section \<open>Checking does not change the state\<close>

definition pd_views where
  "pd_views p = (now_pd p, new_pd p, pd_conn p)"

definition dev_views where
  "dev_views d = (dev_disk_state d, susp_quorum d, map pd_views (peer_devices d))"

definition views where
  "views r = (role r, susp r, susp_nod r, map (\<lambda>c. (cstate c, peer_role c, susp_fen c, conn_net_conf c)) (connections r),
     map dev_views (devices r), state_change_flags r)"

lemma views_now: "views r' = views r \<Longrightarrow> now_view r' = now_view r"
proof -
  assume v: "views r' = views r"
  have c: "map now_conn (connections x) = map (\<lambda>(c, p, s, n). (now c, now p, now s))
      (map (\<lambda>c. (cstate c, peer_role c, susp_fen c, conn_net_conf c)) (connections x))" for x
    by (simp add: now_conn_def comp_def)
  have d: "map now_dev (devices x) = map (\<lambda>(k, q, ps). (now k, now q, map fst ps)) (map dev_views (devices x))" for x
    by (simp add: now_dev_def dev_views_def pd_views_def comp_def)
  show ?thesis using v unfolding views_def now_view_def by (simp only: c d prod.inject)
qed

lemma views_new: "views r' = views r \<Longrightarrow> new_view r' = new_view r"
proof -
  assume v: "views r' = views r"
  have c: "map new_conn (connections x) = map (\<lambda>(c, p, s, n). (new c, new p, new s))
      (map (\<lambda>c. (cstate c, peer_role c, susp_fen c, conn_net_conf c)) (connections x))" for x
    by (simp add: new_conn_def comp_def)
  have d: "map new_dev (devices x) = map (\<lambda>(k, q, ps). (new k, new q, map (fst \<circ> snd) ps)) (map dev_views (devices x))" for x
    by (simp add: new_dev_def dev_views_def pd_views_def comp_def)
  show ?thesis using v unfolding views_def new_view_def by (simp only: c d prod.inject)
qed

lemma soft_outdate_views: "map pd_views (snd (soft_outdate ps)) = map pd_views ps"
  by (induction ps) (auto simp: pd_views_def now_pd_def new_pd_def Let_def split: prod.split)

lemma soft_device_views: "dev_views (snd (soft_device r d)) = dev_views d"
proof -
  obtain a ps where o: "soft_outdate (peer_devices d) = (a, ps)" by fastforce
  then have "map pd_views ps = map pd_views (peer_devices d)" using soft_outdate_views [of "peer_devices d"] by simp
  then show ?thesis by (auto simp: soft_device_def Let_def o dev_views_def split: option.split)
qed

lemma soft_devices_views: "map dev_views (snd (soft_devices r ds)) = map dev_views ds"
proof (induction ds)
  case (Cons d ds)
  then show ?case
    using soft_device_views [of r d] by (auto split: prod.split option.split)
qed simp

lemma soft_transition_views: "views (snd (is_valid_soft_transition r)) = views r"
  using soft_devices_views [of r "devices r"]
  by (auto simp: is_valid_soft_transition_def views_def split: option.split prod.split)

lemma clear_got_stable_views: "views (clear_got_stable r) = views r"
  by (simp add: views_def clear_got_stable_def dev_views_def pd_views_def now_pd_def new_pd_def)

lemma state_has_changed_views: "views (snd (state_has_changed r)) = views r"
  using clear_got_stable_views [of r] by (simp add: state_has_changed_def Let_def) (simp add: views_def)

lemma no_change: "\<not> fst (state_has_changed r) \<Longrightarrow> new_view r = now_view r"
proof -
  assume n: "\<not> fst (state_has_changed r)"
  let ?r = "clear_got_stable r"
  have c: "\<not> changed (role ?r)" "\<not> changed (susp ?r)" "\<not> changed (susp_nod ?r)" "\<not> list_ex conn_changed (connections ?r)"
      "\<not> list_ex dev_changed (devices ?r)"
    using n by (simp_all add: state_has_changed_def Let_def split: if_splits)
  have "new_conn x = now_conn x" if "\<not> conn_changed x" for x
    using that by (simp add: conn_changed_def changed_def new_conn_def now_conn_def)
  moreover have pd: "new_pd p = now_pd p" if "\<not> pd_changed p" for p
    using that by (simp add: pd_changed_def changed_def new_pd_def now_pd_def)
  moreover have "new_dev x = now_dev x" if "\<not> dev_changed x" for x
    using that pd by (auto simp: dev_changed_def changed_def new_dev_def now_dev_def list_ex_iff)
  ultimately have "new_view ?r = now_view ?r"
    using c by (simp add: new_view_def now_view_def changed_def list_ex_iff)
  then show ?thesis
    using views_now [OF clear_got_stable_views [of r]] views_new [OF clear_got_stable_views [of r]] by simp
qed

section \<open>Committing\<close>

lemma new_pd_simps [simp]:
  "new_pd (p\<lparr>pd_flags := f\<rparr>) = new_pd p" "new_pd (p\<lparr>negotiation_result := x\<rparr>) = new_pd p"
  by (simp_all add: new_pd_def)

lemma new_fin_pd [simp]:
  "new_pd (fin_rs_done p) = new_pd p" "new_pd (fin_state_sent r p) = new_pd p"
  "new_pd (fin_peer_flags r d p) = new_pd p" "new_pd (fin_initial_flags r p) = new_pd p"
  by (simp_all add: fin_rs_done_def fin_state_sent_def fin_peer_flags_def fin_initial_flags_def Let_def)

lemma fin_peer_md_pds [simp]:
  "peer_devices (fin_peer_md r k d) = peer_devices d" "dev_disk_state (fin_peer_md r k d) = dev_disk_state d"
  "susp_quorum (fin_peer_md r k d) = susp_quorum d"
  by (simp_all add: fin_peer_md_def Let_def)

lemma fold_fin_peer_md [simp]:
  "peer_devices (fold (fin_peer_md r) ks d) = peer_devices d" "dev_disk_state (fold (fin_peer_md r) ks d) = dev_disk_state d"
  "susp_quorum (fold (fin_peer_md r) ks d) = susp_quorum d"
  by (rule fold_same, simp)+

lemma new_fin_device [simp]: "new_dev (fin_device r d) = new_dev d"
proof -
  have c: "new_dev (d'\<lparr>peer_devices := ps, dev_flags := f\<rparr>) = new_dev d'" if "map new_pd ps = map new_pd (peer_devices d')" for d' ps f
    using that by (simp add: new_dev_def)
  show ?thesis by (simp add: fin_device_def Let_def new_dev_def comp_def)
qed

lemma new_fin_unstable [simp]: "new_dev (fin_unstable r d) = new_dev d"
  unfolding fin_unstable_def new_dev_def
  by (simp add: Let_def comp_def) (rule nth_equalityI; simp)

lemma new_conn_fin [simp]: "new_conn (fin_conn r i c) = new_conn c" "conn_net_conf (fin_conn r i c) = conn_net_conf c"
  by (simp_all add: fin_conn_def Let_def new_conn_def)

lemma new_map_pds: "(\<And>p. new_pd (f p) = new_pd p) \<Longrightarrow> new_view (map_pds f r) = new_view r"
  by (simp add: map_pds_def new_view_def new_dev_def comp_def)

lemma map_conns_map: "(\<And>i c. g (f i c) = g c) \<Longrightarrow> map g (connections (map_conns f r)) = map g (connections r)"
  by (simp add: map_conns_def comp_def) (rule nth_equalityI; simp)

lemma new_map_conns: "(\<And>i c. new_conn (f i c) = new_conn c) \<Longrightarrow> new_view (map_conns f r) = new_view r"
  using map_conns_map [of new_conn f r] by (simp add: new_view_def) (simp add: map_conns_def)

lemma new_queue: "new_view (queue_after_state_change_work m r) = new_view r"
  by (auto simp: queue_after_state_change_work_def new_view_def new_dev_def new_pd_def Let_def comp_def)

lemma new_finish: "new_view (finish_state_change m r) = new_view r"
proof -
  have d: "new_view (x\<lparr>devices := map f (devices x)\<rparr>) = new_view x" if "\<And>d. new_dev (f d) = new_dev d" for x f
    using that by (simp add: new_view_def comp_def)
  show ?thesis
    unfolding finish_state_change_def Let_def
    by (simp add: new_queue d new_map_pds new_map_conns)
qed

lemma finish_net_conf: "map conn_net_conf (connections (finish_state_change m r)) = map conn_net_conf (connections r)"
proof -
  have p: "connections (map_pds f x) = connections x" for f x by (simp add: map_pds_def)
  have q: "connections (queue_after_state_change_work m x) = connections x" for x
    by (simp add: queue_after_state_change_work_def)
  show ?thesis
    unfolding finish_state_change_def Let_def
    by (simp add: p q map_conns_map)
qed

lemma take_new_simps [simp]: "now (take_new t) = new t" "new (take_new t) = new t"
  by (simp_all add: take_new_def)

lemma commit_views: "now_view (commit_state r) = new_view r" "new_view (commit_state r) = new_view r"
proof -
  have p: "now_pd (commit_pd p) = new_pd p" "new_pd (commit_pd p) = new_pd p" for p
    by (simp_all add: commit_pd_def Let_def now_pd_def new_pd_def)
  have d: "now_dev (commit_dev d) = new_dev d" "new_dev (commit_dev d) = new_dev d" for d
    by (simp_all add: commit_dev_def now_dev_def new_dev_def p comp_def)
  have c: "now_conn (commit_conn c) = new_conn c" "new_conn (commit_conn c) = new_conn c" for c
    by (simp_all add: commit_conn_def now_conn_def new_conn_def)
  show "now_view (commit_state r) = new_view r" "new_view (commit_state r) = new_view r"
    by (simp_all add: commit_state_def now_view_def new_view_def d c comp_def)
qed

section \<open>A whole state change\<close>

lemma try_now: "now_view (snd (try_state_change r)) = now_view r"
proof -
  obtain b r1 where h: "state_has_changed r = (b, r1)" by fastforce
  have r1: "now_view r1 = now_view r" using views_now [OF state_has_changed_views [of r]] h by simp
  then show ?thesis
    using h views_now [OF soft_transition_views [of "sanitize_state r1"]]
    by (cases b) (simp_all add: try_state_change_def Let_def)
qed

lemma clear_remote_views: "now_view (clear_remote_state_change0 r) = now_view r" "new_view (clear_remote_state_change0 r) = new_view r"
    "connections (clear_remote_state_change0 r) = connections r"
  by (simp_all add: clear_remote_state_change0_def now_view_def new_view_def)

lemma views_net_conf: "views y = views x \<Longrightarrow> map conn_net_conf (connections y) = map conn_net_conf (connections x)"
proof -
  assume v: "views y = views x"
  have c: "map conn_net_conf (connections z) = map (\<lambda>(c, p, s, n). n)
      (map (\<lambda>c. (cstate c, peer_role c, susp_fen c, conn_net_conf c)) (connections z))" for z by (simp add: comp_def)
  show ?thesis using v unfolding views_def by (simp only: c prod.inject)
qed

lemma try_net_conf: "map conn_net_conf (connections (snd (try_state_change r))) = map conn_net_conf (connections r)"
proof -
  have f: "map conn_net_conf (connections (sanitize_state x)) = map conn_net_conf (connections x)" for x
  proof -
    have c: "map conn_net_conf cs = map (\<lambda>(c, p, n, k). n) (map conn_frame cs)" for cs by (simp add: conn_frame_def comp_def)
    have fr: "map conn_frame (connections (sanitize_state x)) = map conn_frame (map san_conn (connections x))"
      using frame_sanitize_state [of x] by (simp add: res_frame_def)
    have "map conn_net_conf (connections (sanitize_state x)) = map conn_net_conf (map san_conn (connections x))"
      unfolding c fr ..
    also have "\<dots> = map conn_net_conf (connections x)" by (simp add: san_conn_def change_defs)
    finally show ?thesis .
  qed
  obtain b r1 where h: "state_has_changed r = (b, r1)" by fastforce
  have r1: "map conn_net_conf (connections r1) = map conn_net_conf (connections r)" using views_net_conf [OF state_has_changed_views [of r]] h by simp
  then show ?thesis
    using h views_net_conf [OF soft_transition_views [of "sanitize_state r1"]] f [of r1]
    by (cases b) (simp_all add: try_state_change_def Let_def)
qed

lemma end_state_change0_cases:
  assumes e: "end_state_change0 mem rv0 r = (rv, r')"
  shows "map conn_net_conf (connections r') = map conn_net_conf (connections r) \<and>
    (now_view r' = now_view r \<and> (CS_ABORT \<in> state_change_flags r \<or> \<not> ok_rv rv \<or> CS_PREPARE \<in> state_change_flags r) \<or>
     ok_rv rv \<and> ok_rv rv0 \<and> CS_ABORT \<notin> state_change_flags r \<and> CS_PREPARE \<notin> state_change_flags r \<and>
       (\<exists>r1. try_state_change r = (rv, r1) \<and> now_view r' = new_view r1 \<and> new_view r' = new_view r1))"
proof -
  obtain rv1 r1 where t: "try_state_change r = (rv1, r1)" by fastforce
  have n1: "now_view r1 = now_view r" "map conn_net_conf (connections r1) = map conn_net_conf (connections r)"
    using try_now [of r] try_net_conf [of r] t by simp_all
  have c: "now_view (commit_state (finish_state_change mem r1)) = new_view r1"
      "new_view (commit_state (finish_state_change mem r1)) = new_view r1"
      "map conn_net_conf (connections (commit_state (finish_state_change mem r1))) = map conn_net_conf (connections r1)"
    using commit_views [of "finish_state_change mem r1"] new_finish [of mem r1] finish_net_conf [of mem r1]
    by (simp_all add: commit_state_def commit_conn_def comp_def)
  show ?thesis
    using e n1 c by (auto simp: end_state_change0_def t clear_remote_views Let_def split: if_splits)
qed

section \<open>Sequences of state changes\<close>

fun ok_conn_view :: "bsr_conn_state \<times> bsr_role \<times> bool \<Rightarrow> bool" where
  "ok_conn_view (c, pr, sf) \<longleftrightarrow> (c < C_CONNECTED \<longrightarrow> pr = R_UNKNOWN)"

fun ok_pd_view :: "bsr_disk_state \<times> bsr_repl_state \<times> bool \<times> bool \<times> bool \<times> bool \<Rightarrow> bool" where
  "ok_pd_view (pdsk, repl, su, sp, sd, so) \<longleftrightarrow>
     (repl < L_ESTABLISHED \<longrightarrow> (pdsk = D_OUTDATED \<or> pdsk = D_UNKNOWN) \<and> \<not> sp)"

definition view_ok where
  "view_ok v \<longleftrightarrow> (case v of (ro, su, sn, cs, ds) \<Rightarrow>
     list_all ok_conn_view cs \<and> list_all (\<lambda>(k, q, ps). list_all ok_pd_view ps) ds)"

definition state_ok :: "bsr_resource \<Rightarrow> bool" where
  "state_ok r \<longleftrightarrow>
     (\<forall>c \<in> set (connections r). now (cstate c) < C_CONNECTED \<longrightarrow> now (peer_role c) = R_UNKNOWN) \<and>
     (\<forall>d \<in> set (devices r). \<forall>p \<in> set (peer_devices d). now (pd_repl_state p) < L_ESTABLISHED \<longrightarrow>
        (now (pd_disk_state p) = D_OUTDATED \<or> now (pd_disk_state p) = D_UNKNOWN) \<and> \<not> now (resync_susp_peer p))"

lemma state_ok_view: "state_ok r \<longleftrightarrow> view_ok (now_view r)"
  by (auto simp: state_ok_def view_ok_def now_view_def now_dev_def now_conn_def now_pd_def list_all_iff)

lemma sanitize_view_ok: "view_ok (new_view (sanitize_state r))"
  using sanitize_peer_role [of _ r] sanitize_pds_ok [of _ r]
  by (auto simp: view_ok_def new_view_def new_dev_def new_conn_def new_pd_def list_all_iff pd_ok_def)

text \<open>
  A caller edits the new state between \<open>begin_state_change\<close> and \<open>end_state_change\<close>; whatever it does, it does
  not touch the state in effect, the flags of the change, and the configuration.
\<close>

definition edits :: "bsr_resource \<Rightarrow> bsr_resource \<Rightarrow> bool" where
  "edits r r' \<longleftrightarrow> now_view r' = now_view r \<and> state_change_flags r' = state_change_flags r \<and>
     map conn_net_conf (connections r') = map conn_net_conf (connections r)"

inductive state_reach :: "(chg_state_flag set \<Rightarrow> bool) \<Rightarrow> bsr_resource \<Rightarrow> bsr_resource \<Rightarrow> bool" for P r0 where
  reach_init: "state_reach P r0 r0"
| reach_step: "state_reach P r0 r \<Longrightarrow> P flags \<Longrightarrow> edits (begin_state_change flags r) r1 \<Longrightarrow>
    end_state_change mem r1 = (rv, r2) \<Longrightarrow> state_reach P r0 r2"

lemma begin_views: "now_view (begin_state_change f r) = now_view r" "new_view (begin_state_change f r) = now_view r"
    "map conn_net_conf (connections (begin_state_change f r)) = map conn_net_conf (connections r)"
    "state_change_flags (begin_state_change f r) = f"
proof -
  have p: "now_pd (begin_pd p) = now_pd p" "new_pd (begin_pd p) = now_pd p" for p
    by (simp_all add: begin_pd_def Let_def change_defs now_pd_def new_pd_def)
  have d: "now_dev (begin_dev d) = now_dev d" "new_dev (begin_dev d) = now_dev d" for d
    by (simp_all add: begin_dev_def Let_def change_defs now_dev_def new_dev_def p comp_def)
  have c: "now_conn (begin_conn c) = now_conn c" "new_conn (begin_conn c) = now_conn c" "conn_net_conf (begin_conn c) = conn_net_conf c" for c
    by (simp_all add: begin_conn_def Let_def change_defs now_conn_def new_conn_def)
  show "now_view (begin_state_change f r) = now_view r" "new_view (begin_state_change f r) = now_view r"
    "map conn_net_conf (connections (begin_state_change f r)) = map conn_net_conf (connections r)"
    "state_change_flags (begin_state_change f r) = f"
    by (simp_all add: begin_state_change_def begin_state_change0_def Let_def change_defs now_view_def new_view_def c d comp_def)
qed

lemma end_state_change_step:
  assumes "edits (begin_state_change flags r) r1" and "end_state_change mem r1 = (rv, r2)"
  shows "map conn_net_conf (connections r2) = map conn_net_conf (connections r)"
    and "now_view r2 = now_view r \<or>
      ok_rv rv \<and> (\<exists>r3. try_state_change r1 = (rv, r3) \<and> now_view r2 = new_view r3)"
proof -
  obtain r2' where e: "end_state_change0 mem SS_SUCCESS r1 = (rv, r2')" and r2: "r2 = r2'\<lparr>state_change_flags := {}\<rparr>"
    using assms(2) by (auto simp: end_state_change_def split: prod.splits)
  have v: "now_view r2 = now_view r2'" "map conn_net_conf (connections r2) = map conn_net_conf (connections r2')"
    by (simp_all add: r2 now_view_def)
  note b = begin_views [of flags r] and c = end_state_change0_cases [OF e]
  show "map conn_net_conf (connections r2) = map conn_net_conf (connections r)"
    using assms(1) b c v by (simp add: edits_def)
  show "now_view r2 = now_view r \<or> ok_rv rv \<and> (\<exists>r3. try_state_change r1 = (rv, r3) \<and> now_view r2 = new_view r3)"
    using assms(1) b c v by (auto simp: edits_def)
qed

lemma try_view_ok:
  assumes "try_state_change r = (rv, r')" and "view_ok (now_view r)"
  shows "view_ok (new_view r')"
proof -
  obtain b r1 where h: "state_has_changed r = (b, r1)" by fastforce
  have v: "new_view r1 = new_view r" using views_new [OF state_has_changed_views [of r]] h by simp
  show ?thesis
  proof (cases b)
    case True
    have "r' = sanitize_state r1 \<or> r' = snd (is_valid_soft_transition (sanitize_state r1))"
      using assms(1) h True by (auto simp: try_state_change_def Let_def split: if_splits)
    then have "new_view r' = new_view (sanitize_state r1)" using views_new [OF soft_transition_views] by auto
    then show ?thesis using sanitize_view_ok by simp
  next
    case False
    then have "new_view r' = now_view r" using assms(1) h v no_change [of r] by (simp add: try_state_change_def)
    then show ?thesis using assms(2) by simp
  qed
qed

text \<open>
  C3: Whatever sequence of state changes is carried out, hard or soft, and whatever their callers put
  into the new state, a connection that is not established has no known peer role, and a peer device
  that is not established has an unknown or outdated disk and no resync pause requested by the peer.
\<close>

theorem state_reach_ok:
  assumes "state_reach (\<lambda>_. True) r0 r" and "state_ok r0"
  shows "state_ok r"
  using assms
proof (induction rule: state_reach.induct)
  case (reach_step r flags r1 mem rv r2)
  have ok: "view_ok (now_view r)" using reach_step by (simp add: state_ok_view)
  then have ok1: "view_ok (now_view r1)" using reach_step(3) begin_views(1) [of flags r] by (simp add: edits_def)
  from end_state_change_step(2) [OF reach_step(3,4)] show ?case
    using ok try_view_ok [OF _ ok1] by (auto simp: state_ok_view)
qed

section \<open>At most one primary\<close>

definition one_primary :: "bsr_resource \<Rightarrow> bool" where
  "one_primary r \<longleftrightarrow> (now (role r) = R_PRIMARY \<longrightarrow>
     (\<forall>c \<in> set (connections r). \<forall>nc. conn_net_conf c = Some nc \<and> \<not> two_primaries nc \<longrightarrow> now (peer_role c) \<noteq> R_PRIMARY))"

fun one_primary_view where
  "one_primary_view (ro, su, sn, cs, ds) ncs \<longleftrightarrow> (ro = R_PRIMARY \<longrightarrow>
     list_all (\<lambda>((c, pr, sf), nc). case nc of None \<Rightarrow> True | Some n \<Rightarrow> two_primaries n \<or> pr \<noteq> R_PRIMARY) (zip cs ncs))"

lemma one_primary_iff: "one_primary r \<longleftrightarrow> one_primary_view (now_view r) (map conn_net_conf (connections r))"
proof -
  have z: "zip (map now_conn cs) (map conn_net_conf cs) = map (\<lambda>c. (now_conn c, conn_net_conf c)) cs" for cs
    by (simp add: map2_map_map [of Pair, simplified])
  show ?thesis
    by (auto simp: one_primary_def now_view_def z list_all_iff now_conn_def split: option.split)
qed

lemma first_some_None: "first_some f xs = None \<longleftrightarrow> (\<forall>x \<in> set xs. f x = None)"
  by (induction xs) (auto split: option.splits)

lemma first_some_Some: "first_some f xs = Some y \<Longrightarrow> \<exists>x \<in> set xs. f x = Some y"
  by (induction xs) (auto split: option.splits)

lemma soft_promote_error: "soft_promote r = Some e \<Longrightarrow> \<not> ok_rv e"
  by (auto simp: soft_promote_def ok_rv_def dest!: first_some_Some split: if_splits option.splits)

lemma soft_conn_error: "soft_conn r i = Some e \<Longrightarrow> \<not> ok_rv e"
  by (auto simp: soft_conn_def Let_def ok_rv_def split: if_splits)

lemma soft_transition_checks:
  assumes "is_valid_soft_transition r = (rv, r')" and "ok_rv rv"
  shows "soft_promote r = None" and "i < length (connections r) \<Longrightarrow> soft_conn r i = None"
proof -
  show p: "soft_promote r = None"
    using assms soft_promote_error [of r] by (cases "soft_promote r") (auto simp: is_valid_soft_transition_def)
  have "first_some (soft_conn r) [0..<length (connections r)] = None"
  proof (cases "first_some (soft_conn r) [0..<length (connections r)]")
    case (Some e)
    then have "\<not> ok_rv e" using soft_conn_error by (metis first_some_Some)
    then show ?thesis using assms p Some by (simp add: is_valid_soft_transition_def)
  qed
  then show "i < length (connections r) \<Longrightarrow> soft_conn r i = None" by (simp add: first_some_None)
qed

lemma soft_one_primary:
  assumes s: "is_valid_soft_transition r = (rv, r')" "ok_rv rv" and one: "one_primary r"
  shows "one_primary_view (new_view r) (map conn_net_conf (connections r))"
proof -
  have "new (peer_role c) \<noteq> R_PRIMARY"
    if ro: "new (role r) = R_PRIMARY" and c: "c \<in> set (connections r)" and nc: "conn_net_conf c = Some nc" "\<not> two_primaries nc" for c nc
  proof
    assume pr: "new (peer_role c) = R_PRIMARY"
    obtain i where i: "i < length (connections r)" "c = connections r ! i" using c by (auto simp: in_set_conv_nth)
    show False
    proof (cases "now (role r) = R_PRIMARY")
      case True
      then have "now (peer_role c) \<noteq> R_PRIMARY" using one c nc by (auto simp: one_primary_def)
      then have "soft_conn r i \<noteq> None" using True pr nc i by (auto simp: soft_conn_def Let_def)
      then show False using soft_transition_checks(2) [OF s i(1)] by simp
    next
      case False
      then have "soft_promote r \<noteq> None"
        using ro c nc pr by (auto simp: soft_promote_def first_some_None split: option.split intro!: bexI [of _ c])
      then show False using soft_transition_checks(1) [OF s] by simp
    qed
  qed
  moreover have z: "zip (map new_conn cs) (map conn_net_conf cs) = map (\<lambda>c. (new_conn c, conn_net_conf c)) cs" for cs
    by (simp add: map2_map_map [of Pair, simplified])
  ultimately show ?thesis by (auto simp: new_view_def z list_all_iff new_conn_def split: option.split)
qed

lemma try_one_primary:
  assumes t: "try_state_change r = (rv, r')" "ok_rv rv" and soft: "CS_HARD \<notin> state_change_flags r" and one: "one_primary r"
  shows "one_primary_view (new_view r') (map conn_net_conf (connections r))"
proof -
  obtain b r1 where h: "state_has_changed r = (b, r1)" by fastforce
  show ?thesis
  proof (cases b)
    case True
    let ?r2 = "sanitize_state r1"
    have fl: "state_change_flags ?r2 = state_change_flags r"
      using frame_sanitize_state [of r1] state_has_changed_views [of r] h by (simp add: res_frame_def views_def)
    have s: "is_valid_soft_transition ?r2 = (rv, r')"
      using t h True soft fl by (auto simp: try_state_change_def Let_def split: if_splits)
    have v: "now_view ?r2 = now_view r" "new_view r' = new_view ?r2" "map conn_net_conf (connections ?r2) = map conn_net_conf (connections r)"
    proof -
      show "now_view ?r2 = now_view r" using views_now [OF state_has_changed_views [of r]] h by simp
      show "new_view r' = new_view ?r2" using views_new [OF soft_transition_views [of ?r2]] s by simp
      show "map conn_net_conf (connections ?r2) = map conn_net_conf (connections r)"
        using try_net_conf [of r] t(1) views_net_conf [OF soft_transition_views [of ?r2]] s by simp
    qed
    have "one_primary ?r2" using one unfolding one_primary_iff v(1,3) .
    from soft_one_primary [OF s t(2) this] show ?thesis unfolding v .
  next
    case False
    have "new_view r1 = new_view r" using views_new [OF state_has_changed_views [of r]] h by simp
    then have "new_view r' = now_view r" using t h False no_change [of r] by (simp add: try_state_change_def)
    then show ?thesis using one by (simp add: one_primary_iff)
  qed
qed

text \<open>
  C1: No sequence of soft state changes makes this node and a peer primary at the same time on a
  connection whose configuration does not allow two primaries, whatever the callers put into the new state.
\<close>

theorem soft_changes_one_primary:
  assumes "state_reach (\<lambda>flags. CS_HARD \<notin> flags) r0 r" and "one_primary r0"
  shows "one_primary r"
  using assms
proof (induction rule: state_reach.induct)
  case (reach_step r flags r1 mem rv r2)
  note b = begin_views [of flags r]
  have ed: "now_view r1 = now_view r" "state_change_flags r1 = flags" "map conn_net_conf (connections r1) = map conn_net_conf (connections r)"
    using reach_step(3) b by (simp_all add: edits_def)
  have one: "one_primary r1" using reach_step by (simp add: one_primary_iff ed)
  note nc = end_state_change_step(1) [OF reach_step(3,4)]
  from end_state_change_step(2) [OF reach_step(3,4)] show ?case
  proof
    assume "now_view r2 = now_view r"
    then show ?thesis using reach_step by (simp add: one_primary_iff nc)
  next
    assume "ok_rv rv \<and> (\<exists>r3. try_state_change r1 = (rv, r3) \<and> now_view r2 = new_view r3)"
    then obtain r3 where t: "try_state_change r1 = (rv, r3)" "ok_rv rv" "now_view r2 = new_view r3" by blast
    from try_one_primary [OF t(1,2) _ one] reach_step(2) ed show ?thesis by (simp add: one_primary_iff nc t(3))
  qed
qed

text \<open>
  C2: Ending a state change either makes the whole new state current, after it was sanitized and
  checked, or leaves every current state as it was: when the change is refused, aborted or only prepared.
\<close>

theorem end_state_change_atomic:
  "case end_state_change mem r of (rv, r') \<Rightarrow>
     if CS_ABORT \<in> state_change_flags r \<or> CS_PREPARE \<in> state_change_flags r \<or> rv < SS_SUCCESS
     then now_view r' = now_view r
     else now_view r' = new_view (snd (try_state_change r)) \<and> rv = fst (try_state_change r)"
proof -
  obtain rv r' where e: "end_state_change0 mem SS_SUCCESS r = (rv, r')" by fastforce
  have "now_view (r'\<lparr>state_change_flags := {}\<rparr>) = now_view r'" by (simp add: now_view_def)
  then show ?thesis using end_state_change0_cases [OF e] by (auto simp: end_state_change_def e ok_rv_def)
qed

section \<open>The disk state in the meta-data\<close>

lemma bit_set_bit_if: "n < 32 \<Longrightarrow> bit (set_bit_if b n w) m \<longleftrightarrow> (if b \<and> m = n then True else bit w m)"
  by (auto simp: set_bit_if_def bit_set_bit_iff)

lemma device_mdf_flags:
  assumes "D_INCONSISTENT \<le> new (dev_disk_state d)"
  shows "bit (device_mdf r d w) MDF_CONSISTENT \<longleftrightarrow> D_INCONSISTENT < new (dev_disk_state d)"
    and "bit (device_mdf r d w) MDF_WAS_UP_TO_DATE \<longleftrightarrow> D_OUTDATED < new (dev_disk_state d)"
  using assms
  by (auto simp: device_mdf_def Let_def bit_set_bit_if bit_unset_bit_iff MDF_CONSISTENT_def MDF_WAS_UP_TO_DATE_def)

lemma fin_device_md:
  assumes "md_updatable d" and "D_INCONSISTENT \<le> new (dev_disk_state d)"
  shows "bit (md_flags (dev_md (fin_device r d))) MDF_CONSISTENT \<longleftrightarrow> D_INCONSISTENT < new (dev_disk_state d)"
    and "bit (md_flags (dev_md (fin_device r d))) MDF_WAS_UP_TO_DATE \<longleftrightarrow> D_OUTDATED < new (dev_disk_state d)"
proof -
  have "\<exists>e. fin_device r d = (if md_updatable e
        then e\<lparr>dev_md := (dev_md e)\<lparr>md_flags := device_mdf r e (md_flags (dev_md e))\<rparr>\<rparr> else e) \<and>
      dev_disk_state e = dev_disk_state d"
    unfolding fin_device_def Let_def by (rule exI, rule conjI, rule refl) simp
  then obtain e where e: "fin_device r d = (if md_updatable e
        then e\<lparr>dev_md := (dev_md e)\<lparr>md_flags := device_mdf r e (md_flags (dev_md e))\<rparr>\<rparr> else e)"
      "dev_disk_state e = dev_disk_state d" by blast
  then have "md_updatable e" using assms(1) by (simp add: md_updatable_def get_ldev_def get_ldev_if_state_def)
  then show "bit (md_flags (dev_md (fin_device r d))) MDF_CONSISTENT \<longleftrightarrow> D_INCONSISTENT < new (dev_disk_state d)"
    "bit (md_flags (dev_md (fin_device r d))) MDF_WAS_UP_TO_DATE \<longleftrightarrow> D_OUTDATED < new (dev_disk_state d)"
    using assms e by (simp_all add: device_mdf_flags)
qed

lemma finish_dev_md:
  assumes "i < length (devices r)"
  shows "\<exists>r' d'. dev_md (devices (finish_state_change mem r) ! i) = dev_md (fin_device r' d') \<and>
    dev_disk_state d' = dev_disk_state (devices r ! i)"
proof -
  define r1 where "r1 = map_pds fin_rs_done r"
  define r2 where "r2 = r1\<lparr>devices := map (fin_device r1) (devices r1)\<rparr>"
  have "dev_md (devices (finish_state_change mem r) ! i) = dev_md (devices r2 ! i)"
    using assms unfolding finish_state_change_def Let_def r1_def [symmetric] r2_def [symmetric]
    by (simp add: queue_after_state_change_work_def map_pds_def map_conns_def fin_unstable_def r2_def r1_def Let_def)
  moreover have "devices r2 ! i = fin_device r1 (devices r1 ! i)" "dev_disk_state (devices r1 ! i) = dev_disk_state (devices r ! i)"
    using assms by (simp_all add: r2_def r1_def map_pds_def)
  ultimately show ?thesis by metis
qed


section \<open>Quorum\<close>

definition vote_of :: "which_state \<Rightarrow> bsr_resource \<Rightarrow> bsr_device \<Rightarrow> nat \<Rightarrow> bsr_disk_state" where
  "vote_of w r dev n = (case peer_device_by_node_id dev n of Some p \<Rightarrow> at_state w (pd_disk_state p) | None \<Rightarrow> D_UNKNOWN)"

text \<open>The nodes of the cluster according to the meta-data, and those whose data this node can see.\<close>

definition configured_nodes :: "bsr_resource \<Rightarrow> bsr_device \<Rightarrow> nat set" where
  "configured_nodes r dev = {n \<in> {0..<BSR_NODE_ID_MAX}. n = res_node_id r \<or>
     \<not> (pmd_bitmap_index (md_peers (dev_md dev) ! n) = -1 \<and> \<not> bit (pmd_flags (md_peers (dev_md dev) ! n)) MDF_NODE_EXISTS)}"

definition outdated_nodes :: "which_state \<Rightarrow> bsr_resource \<Rightarrow> bsr_device \<Rightarrow> nat set" where
  "outdated_nodes w r dev = {n \<in> configured_nodes r dev. n \<noteq> res_node_id r \<and> vote_of w r dev n = D_OUTDATED}"

definition unknown_nodes :: "which_state \<Rightarrow> bsr_resource \<Rightarrow> bsr_device \<Rightarrow> nat set" where
  "unknown_nodes w r dev = {n \<in> configured_nodes r dev. n \<noteq> res_node_id r \<and> vote_of w r dev n \<noteq> D_OUTDATED \<and>
     (vote_of w r dev n = D_UNKNOWN \<or> vote_of w r dev n \<le> D_FAILED)}"

definition voting_nodes :: "which_state \<Rightarrow> bsr_resource \<Rightarrow> bsr_device \<Rightarrow> nat set" where
  "voting_nodes w r dev = configured_nodes r dev - outdated_nodes w r dev - unknown_nodes w r dev"

lemma card_insert_upto: "card ({n. n < Suc m \<and> P n}) = card {n. n < m \<and> P n} + of_bool (P m)"
proof -
  have "{n. n < Suc m \<and> P n} = (if P m then insert m {n. n < m \<and> P n} else {n. n < m \<and> P n})"
    by (auto simp: less_Suc_eq)
  then show ?thesis by simp
qed

lemma count_votes:
  "fold (count_vote w r dev) [0..<m] (0, 0, 0) =
    (card {n. n < m \<and> n \<in> voting_nodes w r dev}, card {n. n < m \<and> n \<in> outdated_nodes w r dev}, card {n. n < m \<and> n \<in> unknown_nodes w r dev})"
  if "m \<le> BSR_NODE_ID_MAX"
  using that
proof (induction m)
  case (Suc m)
  then show ?case
    by (simp add: card_insert_upto count_vote_def Let_def voting_nodes_def outdated_nodes_def unknown_nodes_def
      configured_nodes_def vote_of_def)
qed simp

lemma calc_quorum_sets:
  "fst (calc_quorum w r dev) \<longleftrightarrow>
    (let vs = card (voting_nodes w r dev);
         total = (if unknown_nodes w r dev \<noteq> {} then card (configured_nodes r dev) else vs)
     in (if quorum r = QOU_MAJORITY then total div 2 + 1 else if quorum r = QOU_ALL then total else quorum r) \<le> vs)"
proof -
  have sub: "voting_nodes w r dev \<subseteq> {n. n < BSR_NODE_ID_MAX}" "outdated_nodes w r dev \<subseteq> {n. n < BSR_NODE_ID_MAX}"
    "unknown_nodes w r dev \<subseteq> {n. n < BSR_NODE_ID_MAX}"
    by (auto simp: voting_nodes_def outdated_nodes_def unknown_nodes_def configured_nodes_def)
  have fin: "finite (configured_nodes r dev)" by (simp add: configured_nodes_def)
  have fin': "finite (unknown_nodes w r dev)" "finite (outdated_nodes w r dev)" "finite (voting_nodes w r dev)"
    using sub by (auto intro: finite_subset)
  have eq: "{n. n < BSR_NODE_ID_MAX \<and> n \<in> A} = A" if "A \<subseteq> {n. n < BSR_NODE_ID_MAX}" for A using that by auto
  have u: "configured_nodes r dev = voting_nodes w r dev \<union> (outdated_nodes w r dev \<union> unknown_nodes w r dev)"
    by (auto simp: voting_nodes_def outdated_nodes_def unknown_nodes_def)
  have "card (configured_nodes r dev) = card (voting_nodes w r dev) + (card (outdated_nodes w r dev) + card (unknown_nodes w r dev))"
    unfolding u using fin' by (subst card_Un_disjoint; simp add: card_Un_disjoint voting_nodes_def outdated_nodes_def unknown_nodes_def disjoint_iff; blast?)
  then show ?thesis
    using fin' by (simp add: calc_quorum_def count_votes eq [OF sub(1)] eq [OF sub(2)] eq [OF sub(3)] Let_def add.commute add.left_commute)
qed

text \<open>
  C4: Two partitions of a cluster cannot both have a majority quorum: if two nodes know the same cluster, each
  misses a node of which it knows nothing, and no node is visible to both, then at most one has quorum.
\<close>

theorem quorum_excludes_split:
  assumes "quorum ra = QOU_MAJORITY" and "quorum rb = QOU_MAJORITY"
    and "configured_nodes ra da = configured_nodes rb db"
    and "unknown_nodes w ra da \<noteq> {}" and "unknown_nodes w rb db \<noteq> {}"
    and "voting_nodes w ra da \<inter> voting_nodes w rb db = {}"
  shows "\<not> (fst (calc_quorum w ra da) \<and> fst (calc_quorum w rb db))"
proof
  let ?C = "configured_nodes rb db" and ?A = "voting_nodes w ra da" and ?B = "voting_nodes w rb db"
  assume "fst (calc_quorum w ra da) \<and> fst (calc_quorum w rb db)"
  then have q: "card ?C div 2 + 1 \<le> card ?A" "card ?C div 2 + 1 \<le> card ?B"
    using assms by (simp_all add: calc_quorum_sets Let_def)
  have fin: "finite ?C" by (simp add: configured_nodes_def)
  have sub: "?A \<subseteq> ?C" "?B \<subseteq> ?C" using assms(3) by (auto simp: voting_nodes_def)
  then have "card (?A \<union> ?B) \<le> card ?C" using fin by (intro card_mono) auto
  moreover have "card (?A \<union> ?B) = card ?A + card ?B"
    using assms(6) sub fin by (intro card_Un_disjoint) (auto intro: finite_subset)
  ultimately show False using q by linarith
qed

section \<open>An example cluster\<close>

definition ex_pd :: "nat \<Rightarrow> nat \<Rightarrow> bsr_disk_state \<Rightarrow> bsr_repl_state \<Rightarrow> bsr_peer_device" where
  "ex_pd node conn dk repl = \<lparr>pd_node_id = node, pd_conn = conn, pd_bitmap_index = int conn, pd_bitmap_uuid = 0,
     pd_disk_state = Two dk dk, pd_repl_state = Two repl repl, resync_susp_user = Two False False,
     resync_susp_peer = Two False False, resync_susp_dependency = Two False False, resync_susp_other_c = Two False False,
     negotiation_result = L_OFF, uuids_received = True, uuid_flags = 32, uuid_authoritative_nodes = 0,
     resync_seq = 0, al_oos_cnt = 0, pd_flags = {}\<rparr>"

definition ex_conn :: "nat \<Rightarrow> bsr_conn_state \<Rightarrow> bsr_role \<Rightarrow> bsr_connection" where
  "ex_conn node cs ro = \<lparr>cstate = Two cs cs, peer_role = Two ro ro, susp_fen = Two False False,
     conn_net_conf = Some \<lparr>two_primaries = False, verify_alg = []\<rparr>, fencing = FP_DONT_CARE, agreed_pro_version = 115,
     peer_node_id = node, conn_flags = {}\<rparr>"

text \<open>A cluster of the nodes 0, 1 and 2, as \<open>me\<close> sees it; \<open>up\<close> are the other nodes it is connected to.\<close>

definition ex_res :: "nat \<Rightarrow> nat \<Rightarrow> nat \<Rightarrow> nat list \<Rightarrow> bsr_resource" where
  "ex_res me p1 p2 up =
     (let cs = (\<lambda>n. if n \<in> set up then C_CONNECTED else C_CONNECTING);
          ro = (\<lambda>n. if n \<in> set up then R_SECONDARY else R_UNKNOWN);
          dk = (\<lambda>n. if n \<in> set up then D_UP_TO_DATE else D_UNKNOWN);
          repl = (\<lambda>n. if n \<in> set up then L_ESTABLISHED else L_OFF);
          peer = (\<lambda>i. \<lparr>pmd_bitmap_index = i, pmd_flags = 65536\<rparr>)
      in \<lparr>role = Two R_SECONDARY R_SECONDARY, susp = Two False False, susp_nod = Two False False,
          connections = [ex_conn p1 (cs p1) (ro p1), ex_conn p2 (cs p2) (ro p2)],
          devices = [\<lparr>dev_disk_state = Two D_UP_TO_DATE D_UP_TO_DATE, susp_quorum = Two False False, open_ro_cnt = 0,
            open_rw_cnt = 0,
            dev_md = \<lparr>md_node_id = me, md_flags = 17,
              md_peers = (replicate 32 \<lparr>pmd_bitmap_index = -1, pmd_flags = 0\<rparr>)[p1 := peer 0, p2 := peer 1]\<rparr>,
            dev_flags = {}, peer_devices = [ex_pd p1 0 (dk p1) (repl p1), ex_pd p2 1 (dk p2) (repl p2)]\<rparr>],
          res_node_id = me, quorum = QOU_MAJORITY, on_no_data = OND_IO_ERROR, state_change_flags = {},
          negotiation_result_touched = False, remote_state_change = False, twopc_initiator_node_id = -1, twopc_tid = 0,
          twopc_primary_nodes = 0, twopc_reachable_nodes = 0\<rparr>)"

theorem quorum_excludes_split_witness:
  "\<not> fst (calc_quorum NOW (ex_res 0 1 2 []) (devices (ex_res 0 1 2 []) ! 0)) \<and>
   fst (calc_quorum NOW (ex_res 1 0 2 [2]) (devices (ex_res 1 0 2 [2]) ! 0))"
proof -
  let ?a = "ex_res 0 1 2 []" and ?b = "ex_res 1 0 2 [2]"
  have "quorum ?a = QOU_MAJORITY" "quorum ?b = QOU_MAJORITY"
    "configured_nodes ?a (devices ?a ! 0) = configured_nodes ?b (devices ?b ! 0)"
    "unknown_nodes NOW ?a (devices ?a ! 0) \<noteq> {}" "unknown_nodes NOW ?b (devices ?b ! 0) \<noteq> {}"
    "voting_nodes NOW ?a (devices ?a ! 0) \<inter> voting_nodes NOW ?b (devices ?b ! 0) = {}" by code_simp+
  note quorum_excludes_split [OF this]
  moreover have "fst (calc_quorum NOW ?b (devices ?b ! 0))" by code_simp
  ultimately show ?thesis by blast
qed

section \<open>Examples\<close>


text \<open>Losing the connection to node 1, and becoming primary.\<close>

definition ex_lost :: bsr_resource where
  "ex_lost =
     (let r = begin_state_change {CS_HARD} (ex_res 0 1 2 [1, 2])
      in r\<lparr>connections := (connections r)[0 := change_cstate_state0 C_NETWORK_FAILURE (connections r ! 0)],
           devices := map (on_pd 0 (change_repl_state0 L_OFF)) (devices r)\<rparr>)"

definition ex_promote :: bsr_resource where
  "ex_promote =
     (let r = begin_state_change {} (ex_res 0 1 2 [1, 2])
      in r\<lparr>role := set_new R_PRIMARY (role r)\<rparr>)"

lemma end_state_change_success:
  assumes "CS_ABORT \<notin> state_change_flags r" and "CS_PREPARE \<notin> state_change_flags r" and "try_state_change r = (SS_SUCCESS, r1)"
  shows "fst (end_state_change mem r) = SS_SUCCESS" and "now (role (snd (end_state_change mem r))) = new (role r1)"
proof -
  obtain rv r2 where e: "end_state_change0 mem SS_SUCCESS r = (rv, r2)" by fastforce
  have rv: "rv = SS_SUCCESS" using e assms
    by (auto simp: end_state_change0_def Let_def ok_rv_def split: if_splits prod.splits)
  then have "now_view r2 = new_view r1" using end_state_change0_cases [OF e] assms by (auto simp: ok_rv_def)
  then show "fst (end_state_change mem r) = SS_SUCCESS" "now (role (snd (end_state_change mem r))) = new (role r1)"
    using e rv by (simp_all add: end_state_change_def now_view_def new_view_def)
qed

theorem state_reach_ok_witness:
  "fst (end_state_change True ex_lost) = SS_SUCCESS \<and> state_ok (snd (end_state_change True ex_lost))"
proof
  have "fst (try_state_change ex_lost) = SS_SUCCESS" "CS_ABORT \<notin> state_change_flags ex_lost"
    "CS_PREPARE \<notin> state_change_flags ex_lost" by code_simp+
  then show "fst (end_state_change True ex_lost) = SS_SUCCESS"
    using end_state_change_success(1) prod.collapse by metis
  have ed: "edits (begin_state_change {CS_HARD} (ex_res 0 1 2 [1, 2])) ex_lost"
    unfolding edits_def by (intro conjI; code_simp)
  have "state_reach (\<lambda>_. True) (ex_res 0 1 2 [1, 2]) (snd (end_state_change True ex_lost))"
    by (rule reach_step [OF reach_init TrueI ed surjective_pairing])
  moreover have "state_ok (ex_res 0 1 2 [1, 2])" by code_simp
  ultimately show "state_ok (snd (end_state_change True ex_lost))" by (rule state_reach_ok)
qed

theorem soft_changes_one_primary_witness:
  "fst (end_state_change True ex_promote) = SS_SUCCESS \<and> now (role (snd (end_state_change True ex_promote))) = R_PRIMARY \<and>
   one_primary (snd (end_state_change True ex_promote))"
proof (intro conjI)
  have t: "fst (try_state_change ex_promote) = SS_SUCCESS" "new (role (snd (try_state_change ex_promote))) = R_PRIMARY"
    "CS_ABORT \<notin> state_change_flags ex_promote" "CS_PREPARE \<notin> state_change_flags ex_promote" by code_simp+
  then have "try_state_change ex_promote = (SS_SUCCESS, snd (try_state_change ex_promote))" by (metis prod.collapse)
  from end_state_change_success [OF t(3,4) this, of True] t(2)
  show "fst (end_state_change True ex_promote) = SS_SUCCESS" "now (role (snd (end_state_change True ex_promote))) = R_PRIMARY"
    by simp_all
  have ed: "edits (begin_state_change {} (ex_res 0 1 2 [1, 2])) ex_promote"
    unfolding edits_def by (intro conjI; code_simp)
  have "state_reach (\<lambda>flags. CS_HARD \<notin> flags) (ex_res 0 1 2 [1, 2]) (snd (end_state_change True ex_promote))"
    by (rule reach_step [where flags = "{}", OF reach_init _ ed surjective_pairing]) simp
  moreover have "now (role (ex_res 0 1 2 [1, 2])) = R_SECONDARY" by code_simp
  then have "one_primary (ex_res 0 1 2 [1, 2])" by (simp add: one_primary_def)
  ultimately show "one_primary (snd (end_state_change True ex_promote))" by (rule soft_changes_one_primary)
qed

end
