(* ===== verification/Rbtree.thy ===== *)
theory Rbtree
  imports Bsr_Prelude
begin

text \<open>
  The red-black trees of \<^verbatim>\<open>bsr/bsr-kernel-compat/windows/rbtree.c\<close> with the augmentation callbacks
  (\<^verbatim>\<open>rb_augment_insert\<close>, \<^verbatim>\<open>rb_augment_erase_begin\<close>, \<^verbatim>\<open>rb_augment_erase_end\<close>).

  A node is named by its address and has a content.  The parent pointers that the code follows
  upwards are the path of a zipper: a position in a tree is the subtree at that position and the list of
  the frames above it, each with the parent and the other child.  The root pointer is the end of the path.
\<close>

section \<open>Trees and positions\<close>

datatype color = RB_RED | RB_BLACK

datatype ('p, 'a) rb_tree = Tip | Node color "('p, 'a) rb_tree" 'p 'a "('p, 'a) rb_tree"

text \<open>\<open>LF\<close>: the position is the left child, \<open>RF\<close>: the right child.\<close>

datatype ('p, 'a) frame =
    LF color 'p 'a "('p, 'a) rb_tree"
  | RF color "('p, 'a) rb_tree" 'p 'a

type_synonym ('p, 'a) path = "('p, 'a) frame list"

fun plug1 :: "('p, 'a) rb_tree \<Rightarrow> ('p, 'a) frame \<Rightarrow> ('p, 'a) rb_tree" where
  "plug1 t (LF c p x r) = Node c t p x r"
| "plug1 t (RF c l p x) = Node c l p x t"

fun plug :: "('p, 'a) rb_tree \<Rightarrow> ('p, 'a) path \<Rightarrow> ('p, 'a) rb_tree" where
  "plug t [] = t"
| "plug t (f # fs) = plug (plug1 t f) fs"

text \<open>The position of the node with address \<open>q\<close>.\<close>

fun rb_position :: "'p \<Rightarrow> ('p, 'a) rb_tree \<Rightarrow> ('p, 'a) path \<Rightarrow> (('p, 'a) rb_tree \<times> ('p, 'a) path) option" where
  "rb_position q Tip fs = None"
| "rb_position q (Node c l p x r) fs =
     (if p = q then Some (Node c l p x r, fs)
      else case rb_position q l (LF c p x r # fs) of
             Some z \<Rightarrow> Some z
           | None \<Rightarrow> rb_position q r (RF c l p x # fs))"

fun rb_color :: "('p, 'a) rb_tree \<Rightarrow> color" where
  "rb_color Tip = RB_RED"
| "rb_color (Node c l p x r) = c"

fun paint :: "color \<Rightarrow> ('p, 'a) rb_tree \<Rightarrow> ('p, 'a) rb_tree" where
  "paint c Tip = Tip"
| "paint c (Node c' l p x r) = Node c l p x r"

abbreviation red_node :: "('p, 'a) rb_tree \<Rightarrow> bool" where
  "red_node t \<equiv> t \<noteq> Tip \<and> rb_color t = RB_RED"

abbreviation black_or_null :: "('p, 'a) rb_tree \<Rightarrow> bool" where
  "black_or_null t \<equiv> t = Tip \<or> rb_color t = RB_BLACK"

fun frame_color :: "('p, 'a) frame \<Rightarrow> color" where
  "frame_color (LF c p x r) = c"
| "frame_color (RF c l p x) = c"

fun frame_node :: "('p, 'a) frame \<Rightarrow> 'p" where
  "frame_node (LF c p x r) = p"
| "frame_node (RF c l p x) = p"

fun sibling :: "('p, 'a) frame \<Rightarrow> ('p, 'a) rb_tree" where
  "sibling (LF c p x r) = r"
| "sibling (RF c l p x) = l"

section \<open>Rotations and insertion\<close>

text \<open>Every call rotates a node whose child on the other side exists; a rotation moves colours with the nodes.\<close>

fun rb_rotate_left0 :: "('p, 'a) rb_tree \<Rightarrow> ('p, 'a) rb_tree" where
  "rb_rotate_left0 (Node c l p x (Node c' l' p' x' r')) = Node c' (Node c l p x l') p' x' r'"
| "rb_rotate_left0 t = t"

fun rb_rotate_right0 :: "('p, 'a) rb_tree \<Rightarrow> ('p, 'a) rb_tree" where
  "rb_rotate_right0 (Node c (Node c' l' p' x' r') p x r) = Node c' l' p' x' (Node c r' p x r)"
| "rb_rotate_right0 t = t"

text \<open>
  The loop of \<^verbatim>\<open>rb_insert_color\<close> at a node with its parent and grandparent frames.  After the rotations
  the parent of the node is black, so the loop ends.
\<close>

fun rb_insert_loop :: "('p, 'a) rb_tree \<Rightarrow> ('p, 'a) path \<Rightarrow> ('p, 'a) rb_tree" where
  "rb_insert_loop node [] = node"
| "rb_insert_loop node [parent] = plug1 node parent"
| "rb_insert_loop node (parent # LF gc gp gx uncle # fs) =
     (if frame_color parent \<noteq> RB_RED then plug node (parent # LF gc gp gx uncle # fs)
      else if red_node uncle
      then rb_insert_loop (Node RB_RED (paint RB_BLACK (plug1 node parent)) gp gx (paint RB_BLACK uncle)) fs
      else let p = plug1 node parent;
               p = (case parent of RF _ _ _ _ \<Rightarrow> rb_rotate_left0 p | LF _ _ _ _ \<Rightarrow> p)
           in plug (rb_rotate_right0 (Node RB_RED (paint RB_BLACK p) gp gx uncle)) fs)"
| "rb_insert_loop node (parent # RF gc uncle gp gx # fs) =
     (if frame_color parent \<noteq> RB_RED then plug node (parent # RF gc uncle gp gx # fs)
      else if red_node uncle
      then rb_insert_loop (Node RB_RED (paint RB_BLACK uncle) gp gx (paint RB_BLACK (plug1 node parent))) fs
      else let p = plug1 node parent;
               p = (case parent of LF _ _ _ _ \<Rightarrow> rb_rotate_right0 p | RF _ _ _ _ \<Rightarrow> p)
           in plug (rb_rotate_left0 (Node RB_RED uncle gp gx (paint RB_BLACK p))) fs)"

definition rb_insert_color :: "('p, 'a) rb_tree \<Rightarrow> ('p, 'a) path \<Rightarrow> ('p, 'a) rb_tree" where
  "rb_insert_color node fs = paint RB_BLACK (rb_insert_loop node fs)"

section \<open>Removal\<close>

text \<open>
  The loop of \<^verbatim>\<open>__rb_erase_color\<close>.  A red sibling is rotated up first, which gives the node a black sibling;
  \<open>erase_black_left\<close> and \<open>erase_black_right\<close> are the rest of an iteration, for a black sibling.  They return
  \<open>Inl\<close> the next position, or \<open>Inr\<close> the tree when the loop ends.  The recolouring of the last lines
  (\<^verbatim>\<open>node = root->rb_node\<close>, then \<^verbatim>\<open>rb_set_black(node)\<close>) is part of the result.
\<close>

definition erase_black_left ::
  "('p, 'a) rb_tree \<Rightarrow> color \<Rightarrow> 'p \<Rightarrow> 'a \<Rightarrow> ('p, 'a) rb_tree \<Rightarrow> ('p, 'a) path \<Rightarrow>
   (('p, 'a) rb_tree \<times> ('p, 'a) path) + ('p, 'a) rb_tree" where
  "erase_black_left node c p x other fs =
     (case other of
        Tip \<Rightarrow> Inr (plug (paint RB_BLACK node) (LF c p x other # fs))
      | Node oc ol op ox or' \<Rightarrow>
          if black_or_null ol \<and> black_or_null or'
          then Inl (Node c node p x (paint RB_RED other), fs)
          else (case (if black_or_null or' then rb_rotate_right0 (Node RB_RED (paint RB_BLACK ol) op ox or') else other) of
                  Tip \<Rightarrow> Inr (plug (paint RB_BLACK node) (LF c p x Tip # fs))
                | Node _ ol op ox or' \<Rightarrow>
                    Inr (paint RB_BLACK
                      (plug (rb_rotate_left0 (Node RB_BLACK node p x (Node c ol op ox (paint RB_BLACK or')))) fs))))"

definition erase_black_right ::
  "('p, 'a) rb_tree \<Rightarrow> color \<Rightarrow> ('p, 'a) rb_tree \<Rightarrow> 'p \<Rightarrow> 'a \<Rightarrow> ('p, 'a) path \<Rightarrow>
   (('p, 'a) rb_tree \<times> ('p, 'a) path) + ('p, 'a) rb_tree" where
  "erase_black_right node c other p x fs =
     (case other of
        Tip \<Rightarrow> Inr (plug (paint RB_BLACK node) (RF c other p x # fs))
      | Node oc ol op ox or' \<Rightarrow>
          if black_or_null ol \<and> black_or_null or'
          then Inl (Node c (paint RB_RED other) p x node, fs)
          else (case (if black_or_null ol then rb_rotate_left0 (Node RB_RED ol op ox (paint RB_BLACK or')) else other) of
                  Tip \<Rightarrow> Inr (plug (paint RB_BLACK node) (RF c Tip p x # fs))
                | Node _ ol op ox or' \<Rightarrow>
                    Inr (paint RB_BLACK
                      (plug (rb_rotate_right0 (Node RB_BLACK (Node c (paint RB_BLACK ol) op ox or') p x node)) fs))))"

text \<open>One iteration of the loop.\<close>

fun erase_step :: "('p, 'a) rb_tree \<Rightarrow> ('p, 'a) frame \<Rightarrow> ('p, 'a) path \<Rightarrow>
    (('p, 'a) rb_tree \<times> ('p, 'a) path) + ('p, 'a) rb_tree" where
  "erase_step node (LF c p x other) fs =
     (case other of
        Node RB_RED ol op ox or' \<Rightarrow> erase_black_left node RB_RED p x ol (LF RB_BLACK op ox or' # fs)
      | _ \<Rightarrow> erase_black_left node c p x other fs)"
| "erase_step node (RF c other p x) fs =
     (case other of
        Node RB_RED ol op ox or' \<Rightarrow> erase_black_right node RB_RED or' p x (RF RB_BLACK ol op ox # fs)
      | _ \<Rightarrow> erase_black_right node c other p x fs)"

lemma erase_step_next:
  assumes "erase_step node f fs = Inl (node', fs')"
  shows "red_node node' \<and> node' \<noteq> Tip \<or> length fs' = length fs"
  using assms
  by (cases f; force simp: erase_black_left_def erase_black_right_def
      split: rb_tree.splits color.splits if_splits)

function rb_erase_loop :: "('p, 'a) rb_tree \<Rightarrow> ('p, 'a) path \<Rightarrow> ('p, 'a) rb_tree" where
  "rb_erase_loop node fs =
     (if black_or_null node
      then (case fs of
              [] \<Rightarrow> paint RB_BLACK node
            | f # fs \<Rightarrow> (case erase_step node f fs of Inl (node, fs) \<Rightarrow> rb_erase_loop node fs | Inr t \<Rightarrow> t))
      else plug (paint RB_BLACK node) fs)"
  by pat_completeness auto

termination
proof (relation "measure (\<lambda>(node, fs). if black_or_null node then Suc (length fs) else 0)", goal_cases)
  case 1
  show ?case by simp
next
  case (2 node fs f fs1 z node' fs')
  then have "erase_step node f fs1 = Inl (node', fs')" by simp
  from erase_step_next [OF this] show ?case using 2 by auto
qed

declare rb_erase_loop.simps [simp del]

text \<open>Without a parent \<^verbatim>\<open>__rb_erase_color\<close> returns at once.\<close>

definition rb_erase_color0 :: "('p, 'a) rb_tree \<Rightarrow> ('p, 'a) path \<Rightarrow> ('p, 'a) rb_tree" where
  "rb_erase_color0 node fs = (if fs = [] then node else rb_erase_loop node fs)"

text \<open>The leftmost node of a non-empty tree, as a position below the frames \<open>fs\<close>.\<close>

fun leftmost :: "('p, 'a) rb_tree \<Rightarrow> ('p, 'a) path \<Rightarrow> (('p, 'a) rb_tree \<times> ('p, 'a) path) option" where
  "leftmost Tip fs = None"
| "leftmost (Node c l p x r) fs = (if l = Tip then Some (Node c l p x r, fs) else leftmost l (LF c p x r # fs))"

fun rightmost :: "('p, 'a) rb_tree \<Rightarrow> ('p, 'a) path \<Rightarrow> (('p, 'a) rb_tree \<times> ('p, 'a) path) option" where
  "rightmost Tip fs = None"
| "rightmost (Node c l p x r) fs = (if r = Tip then Some (Node c l p x r, fs) else rightmost r (RF c l p x # fs))"

text \<open>Removing the node at a position: a node with two children is replaced by its successor.\<close>

definition erase_at :: "('p, 'a) rb_tree \<Rightarrow> ('p, 'a) path \<Rightarrow> ('p, 'a) rb_tree option" where
  "erase_at node fs =
     (let finish = (\<lambda>color child parents. Some (if color = RB_BLACK then rb_erase_color0 child parents else plug child parents))
      in case node of
           Tip \<Rightarrow> None
         | Node c l p x r \<Rightarrow>
             if l = Tip then finish c r fs
             else if r = Tip then finish c l fs
             else (case leftmost r [] of
                     Some (Node c' _ p' x' r', fs') \<Rightarrow> finish c' r' (fs' @ RF c l p' x' # fs)
                   | _ \<Rightarrow> None))"

definition rb_erase :: "'p \<Rightarrow> ('p, 'a) rb_tree \<Rightarrow> ('p, 'a) rb_tree option" where
  "rb_erase q t = rb_position q t [] \<bind> (\<lambda>(node, fs). erase_at node fs)"

section \<open>Augmentation\<close>

text \<open>The callback computes the new content of a node from its children and its content.\<close>

type_synonym ('p, 'a) rb_augment_f = "('p, 'a) rb_tree \<Rightarrow> 'a \<Rightarrow> ('p, 'a) rb_tree \<Rightarrow> 'a"

fun augment :: "('p, 'a) rb_augment_f \<Rightarrow> ('p, 'a) rb_tree \<Rightarrow> ('p, 'a) rb_tree" where
  "augment func Tip = Tip"
| "augment func (Node c l p x r) = Node c l p (func l x r) r"

fun rb_augment_path :: "('p, 'a) rb_augment_f \<Rightarrow> ('p, 'a) rb_tree \<Rightarrow> ('p, 'a) path \<Rightarrow> ('p, 'a) rb_tree" where
  "rb_augment_path func node [] = augment func node"
| "rb_augment_path func node (LF c p x r # fs) =
     (if r \<noteq> Tip then rb_augment_path func (Node c (augment func node) p x (augment func r)) fs
      else rb_augment_path func (Node c (augment func (augment func node)) p x r) fs)"
| "rb_augment_path func node (RF c l p x # fs) =
     rb_augment_path func (Node c (augment func l) p x (augment func node)) fs"

definition rb_augment_insert :: "('p, 'a) rb_augment_f \<Rightarrow> 'p \<Rightarrow> ('p, 'a) rb_tree \<Rightarrow> ('p, 'a) rb_tree option" where
  "rb_augment_insert func q t =
     rb_position q t [] \<bind> (\<lambda>(node, fs).
       case node of
         Tip \<Rightarrow> None
       | Node c l p x r \<Rightarrow>
           Some (if l \<noteq> Tip then rb_augment_path func l (LF c p x r # fs)
                 else if r \<noteq> Tip then rb_augment_path func r (RF c l p x # fs)
                 else rb_augment_path func node fs))"

fun root_node :: "('p, 'a) rb_tree \<Rightarrow> 'p option" where
  "root_node Tip = None"
| "root_node (Node c l p x r) = Some p"

text \<open>The deepest node on the rebalance path that remains; \<open>None\<close> is \<^verbatim>\<open>NULL\<close>.\<close>

definition rb_augment_erase_begin :: "('p, 'a) rb_tree \<Rightarrow> ('p, 'a) path \<Rightarrow> 'p option" where
  "rb_augment_erase_begin node fs =
     (case node of
        Tip \<Rightarrow> None
      | Node c l p x r \<Rightarrow>
          if r = Tip \<and> l = Tip then (case fs of [] \<Rightarrow> None | f # _ \<Rightarrow> Some (frame_node f))
          else if r = Tip then root_node l
          else if l = Tip then root_node r
          else (case leftmost r [] of
                  Some (Node _ _ p' _ r', fs') \<Rightarrow>
                    if r' \<noteq> Tip then root_node r'
                    else (case fs' of f # _ \<Rightarrow> Some (frame_node f) | [] \<Rightarrow> Some p')
                | _ \<Rightarrow> None))"

definition rb_augment_erase_end :: "('p, 'a) rb_augment_f \<Rightarrow> 'p option \<Rightarrow> ('p, 'a) rb_tree \<Rightarrow> ('p, 'a) rb_tree option" where
  "rb_augment_erase_end func deepest t =
     (case deepest of
        None \<Rightarrow> Some t
      | Some q \<Rightarrow> rb_position q t [] \<bind> (\<lambda>(node, fs). Some (rb_augment_path func node fs)))"

section \<open>Traversal\<close>

definition rb_first :: "('p, 'a) rb_tree \<Rightarrow> 'p option" where
  "rb_first t = leftmost t [] \<bind> (\<lambda>(node, _). root_node node)"

definition rb_last :: "('p, 'a) rb_tree \<Rightarrow> 'p option" where
  "rb_last t = rightmost t [] \<bind> (\<lambda>(node, _). root_node node)"

fun up_right :: "('p, 'a) path \<Rightarrow> 'p option" where
  "up_right [] = None"
| "up_right (LF c p x r # fs) = Some p"
| "up_right (RF c l p x # fs) = up_right fs"

fun up_left :: "('p, 'a) path \<Rightarrow> 'p option" where
  "up_left [] = None"
| "up_left (RF c l p x # fs) = Some p"
| "up_left (LF c p x r # fs) = up_left fs"

text \<open>A node that is in no tree (\<^verbatim>\<open>rb_parent(node) == node\<close>) has no neighbours.\<close>

definition rb_next :: "'p \<Rightarrow> ('p, 'a) rb_tree \<Rightarrow> 'p option" where
  "rb_next q t =
     (case rb_position q t [] of
        Some (Node c l p x r, fs) \<Rightarrow> if r \<noteq> Tip then rb_first r else up_right fs
      | _ \<Rightarrow> None)"

definition rb_prev :: "'p \<Rightarrow> ('p, 'a) rb_tree \<Rightarrow> 'p option" where
  "rb_prev q t =
     (case rb_position q t [] of
        Some (Node c l p x r, fs) \<Rightarrow> if l \<noteq> Tip then rb_last l else up_left fs
      | _ \<Rightarrow> None)"

text \<open>The new node takes the place, the children and the colour of the victim.\<close>

definition rb_replace_node :: "'p \<Rightarrow> 'p \<Rightarrow> 'a \<Rightarrow> ('p, 'a) rb_tree \<Rightarrow> ('p, 'a) rb_tree option" where
  "rb_replace_node victim new y t =
     rb_position victim t [] \<bind> (\<lambda>(node, fs).
       case node of Tip \<Rightarrow> None | Node c l p x r \<Rightarrow> Some (plug (Node c l new y r) fs))"

end
