(* ===== verification/Rbtree_Lemmas.thy ===== *)
theory Rbtree_Lemmas
  imports Rbtree
begin

text \<open>
  Red-black trees: rotations, recolouring, insertion and removal keep the order of the entries
  (\<open>inorder_insert_color\<close>, \<open>erase_at_inorder\<close>) and the balance (\<open>insert_loop_balanced\<close>, \<open>erase_at_balanced\<close>),
  and the height of a balanced tree is logarithmic (\<open>balanced_height\<close>).  \<open>rb_balanced\<close> does not ask for a
  black root: \<^verbatim>\<open>rb_erase\<close> may leave a red one.
\<close>

section \<open>Contents in order\<close>

fun inorder :: "('p, 'a) rb_tree \<Rightarrow> ('p \<times> 'a) list" where
  "inorder Tip = []"
| "inorder (Node c l p x r) = inorder l @ (p, x) # inorder r"

fun before :: "('p, 'a) path \<Rightarrow> ('p \<times> 'a) list" where
  "before [] = []"
| "before (LF c p x r # fs) = before fs"
| "before (RF c l p x # fs) = before fs @ inorder l @ [(p, x)]"

fun after :: "('p, 'a) path \<Rightarrow> ('p \<times> 'a) list" where
  "after [] = []"
| "after (LF c p x r # fs) = (p, x) # inorder r @ after fs"
| "after (RF c l p x # fs) = after fs"

abbreviation nodes :: "('p, 'a) rb_tree \<Rightarrow> 'p list" where
  "nodes t \<equiv> map fst (inorder t)"

lemma inorder_plug: "inorder (plug t fs) = before fs @ inorder t @ after fs"
proof (induction t fs rule: plug.induct)
  case (2 t f fs)
  then show ?case by (cases f) auto
qed simp

lemma inorder_plug1: "inorder (plug1 t f) = before [f] @ inorder t @ after [f]"
  by (cases f) auto

lemma inorder_paint [simp]: "inorder (paint c t) = inorder t"
  by (cases t) auto

lemma inorder_rotate [simp]: "inorder (rb_rotate_left0 t) = inorder t" "inorder (rb_rotate_right0 t) = inorder t"
  by (cases t rule: rb_rotate_left0.cases; simp) (cases t rule: rb_rotate_right0.cases; simp)

lemma before_append [simp]: "before (fs @ gs) = before gs @ before fs"
  by (induction fs rule: before.induct) auto

lemma after_append [simp]: "after (fs @ gs) = after fs @ after gs"
  by (induction fs rule: after.induct) auto

lemma plug_append: "plug t (fs @ gs) = plug (plug t fs) gs"
  by (induction t fs rule: plug.induct) auto

lemma inorder_insert_loop: "inorder (rb_insert_loop t fs) = before fs @ inorder t @ after fs"
proof (induction t fs rule: rb_insert_loop.induct)
  case (2 node parent)
  then show ?case by (simp add: inorder_plug1)
next
  case (3 node parent gc gp gx uncle fs)
  then show ?case by (cases parent) (auto simp: Let_def inorder_plug inorder_plug1)
next
  case (4 node parent gc uncle gp gx fs)
  then show ?case by (cases parent) (auto simp: Let_def inorder_plug inorder_plug1)
qed simp

lemma inorder_insert_color: "inorder (rb_insert_color t fs) = before fs @ inorder t @ after fs"
  by (simp add: rb_insert_color_def inorder_insert_loop)

text \<open>The four outcomes of an iteration with a black sibling.\<close>

lemma black_left_cases:
  obtains (none) "other = Tip" "erase_black_left t c p x other fs = Inr (plug (paint RB_BLACK t) (LF c p x Tip # fs))"
  | (up) oc ol op ox or' where "other = Node oc ol op ox or'" "black_or_null ol" "black_or_null or'"
      "erase_black_left t c p x other fs = Inl (Node c t p x (Node RB_RED ol op ox or'), fs)"
  | (far) oc ol op ox a q y b where "other = Node oc ol op ox (Node RB_RED a q y b)"
      "erase_black_left t c p x other fs =
        Inr (paint RB_BLACK (plug (Node c (Node RB_BLACK t p x ol) op ox (Node RB_BLACK a q y b)) fs))"
  | (near) oc a q y b op ox or' where "other = Node oc (Node RB_RED a q y b) op ox or'" "black_or_null or'"
      "erase_black_left t c p x other fs =
        Inr (paint RB_BLACK (plug (Node c (Node RB_BLACK t p x a) q y (Node RB_BLACK b op ox or')) fs))"
proof (cases other)
  case Tip
  then show ?thesis using none by (simp add: erase_black_left_def)
next
  case (Node oc ol op ox or')
  show ?thesis
  proof (cases "black_or_null or'")
    case True
    show ?thesis
    proof (cases "black_or_null ol")
      case True
      then show ?thesis using up Node \<open>black_or_null or'\<close> by (simp add: erase_black_left_def)
    next
      case False
      then obtain a q y b where "ol = Node RB_RED a q y b" by (cases ol; cases "rb_color ol") auto
      then show ?thesis using near Node True by (auto simp: erase_black_left_def)
    qed
  next
    case False
    then obtain a q y b where "or' = Node RB_RED a q y b" by (cases or'; cases "rb_color or'") auto
    then show ?thesis using far Node by (simp add: erase_black_left_def)
  qed
qed

lemma black_right_cases:
  obtains (none) "other = Tip" "erase_black_right t c other p x fs = Inr (plug (paint RB_BLACK t) (RF c Tip p x # fs))"
  | (up) oc ol op ox or' where "other = Node oc ol op ox or'" "black_or_null ol" "black_or_null or'"
      "erase_black_right t c other p x fs = Inl (Node c (Node RB_RED ol op ox or') p x t, fs)"
  | (far) oc or' op ox a q y b where "other = Node oc (Node RB_RED a q y b) op ox or'"
      "erase_black_right t c other p x fs =
        Inr (paint RB_BLACK (plug (Node c (Node RB_BLACK a q y b) op ox (Node RB_BLACK or' p x t)) fs))"
  | (near) oc a q y b op ox ol where "other = Node oc ol op ox (Node RB_RED a q y b)" "black_or_null ol"
      "erase_black_right t c other p x fs =
        Inr (paint RB_BLACK (plug (Node c (Node RB_BLACK ol op ox a) q y (Node RB_BLACK b p x t)) fs))"
proof (cases other)
  case Tip
  then show ?thesis using none by (simp add: erase_black_right_def)
next
  case (Node oc ol op ox or')
  show ?thesis
  proof (cases "black_or_null ol")
    case True
    show ?thesis
    proof (cases "black_or_null or'")
      case True
      then show ?thesis using up Node \<open>black_or_null ol\<close> by (simp add: erase_black_right_def)
    next
      case False
      then obtain a q y b where "or' = Node RB_RED a q y b" by (cases or'; cases "rb_color or'") auto
      then show ?thesis using near Node True by (auto simp: erase_black_right_def)
    qed
  next
    case False
    then obtain a q y b where "ol = Node RB_RED a q y b" by (cases ol; cases "rb_color ol") auto
    then show ?thesis using far Node by (simp add: erase_black_right_def)
  qed
qed

text \<open>
  An iteration is an iteration with a black sibling, possibly after the rotation of a red one; a property of the
  outcome follows from the property for the iterations with a black sibling.
\<close>

lemma erase_step_cases:
  obtains (left) c p x other where "f = LF c p x other" "\<not> red_node other" "erase_step t f fs = erase_black_left t c p x other fs"
  | (red_left) c p x ol op ox or' where "f = LF c p x (Node RB_RED ol op ox or')"
      "erase_step t f fs = erase_black_left t RB_RED p x ol (LF RB_BLACK op ox or' # fs)"
  | (right) c other p x where "f = RF c other p x" "\<not> red_node other" "erase_step t f fs = erase_black_right t c other p x fs"
  | (red_right) c p x ol op ox or' where "f = RF c (Node RB_RED ol op ox or') p x"
      "erase_step t f fs = erase_black_right t RB_RED or' p x (RF RB_BLACK ol op ox # fs)"
proof (cases f)
  case (LF c p x other)
  show ?thesis
  proof (cases other)
    case Tip
    then show ?thesis using left LF by simp
  next
    case (Node oc ol op ox or')
    then show ?thesis using left red_left LF by (cases oc) simp_all
  qed
next
  case (RF c other p x)
  show ?thesis
  proof (cases other)
    case Tip
    then show ?thesis using right RF by simp
  next
    case (Node oc ol op ox or')
    then show ?thesis using right red_right RF by (cases oc) simp_all
  qed
qed

definition pos_all :: "(('p, 'a) rb_tree \<Rightarrow> ('p, 'a) path \<Rightarrow> bool) \<Rightarrow> (('p, 'a) rb_tree \<Rightarrow> bool) \<Rightarrow>
    (('p, 'a) rb_tree \<times> ('p, 'a) path) + ('p, 'a) rb_tree \<Rightarrow> bool" where
  "pos_all P Q z = (case z of Inl (t, fs) \<Rightarrow> P t fs | Inr t \<Rightarrow> Q t)"

text \<open>The rule for the loop: \<open>P\<close> holds at every position, \<open>Q\<close> of the result.\<close>

lemma rb_erase_loop_rule:
  assumes start: "P t fs"
    and stop: "\<And>t fs. P t fs \<Longrightarrow> fs = [] \<or> red_node t \<Longrightarrow> Q (plug (paint RB_BLACK t) fs)"
    and step: "\<And>t f fs. P t (f # fs) \<Longrightarrow> black_or_null t \<Longrightarrow> pos_all P Q (erase_step t f fs)"
  shows "Q (rb_erase_loop t fs)"
  using start
proof (induction t fs rule: rb_erase_loop.induct)
  case (1 t fs)
  show ?case
  proof (cases "black_or_null t")
    case b: True
    show ?thesis
    proof (cases fs)
      case Nil
      then show ?thesis using b 1(2) stop [of t "[]"] by (simp add: rb_erase_loop.simps [of t])
    next
      case (Cons f gs)
      then have st: "pos_all P Q (erase_step t f gs)" using step b 1(2) by simp
      show ?thesis
      proof (cases "erase_step t f gs")
        case (Inl z)
        then obtain t' fs' where z: "erase_step t f gs = Inl (t', fs')" by (cases z) auto
        then have "P t' fs'" using st by (simp add: pos_all_def)
        from 1(1) [OF b Cons z refl this] show ?thesis using b Cons z by (simp add: rb_erase_loop.simps [of t])
      next
        case (Inr t')
        then show ?thesis using b Cons st by (simp add: rb_erase_loop.simps [of t] pos_all_def)
      qed
    qed
  next
    case False
    then show ?thesis using stop [OF 1(2)] by (cases "rb_color t") (auto simp: rb_erase_loop.simps [of t])
  qed
qed

abbreviation inorder_pos :: "(('p, 'a) rb_tree \<times> ('p, 'a) path) + ('p, 'a) rb_tree \<Rightarrow> ('p \<times> 'a) list \<Rightarrow> bool" where
  "inorder_pos z xs \<equiv> pos_all (\<lambda>t fs. before fs @ inorder t @ after fs = xs) (\<lambda>t. inorder t = xs) z"

lemma inorder_black_left:
  "inorder_pos (erase_black_left t c p x other fs) (before fs @ inorder t @ (p, x) # inorder other @ after fs)"
  by (cases rule: black_left_cases [of other t c p x fs]) (simp_all add: pos_all_def inorder_plug)

lemma inorder_black_right:
  "inorder_pos (erase_black_right t c other p x fs) (before fs @ inorder other @ (p, x) # inorder t @ after fs)"
  by (cases rule: black_right_cases [of other t c p x fs]) (simp_all add: pos_all_def inorder_plug)

lemma inorder_erase_step: "inorder_pos (erase_step t f fs) (before (f # fs) @ inorder t @ after (f # fs))"
proof (cases rule: erase_step_cases [where f = f and t = t and fs = fs])
  case (red_left c p x ol op ox or')
  then show ?thesis using inorder_black_left [where t = t and c = RB_RED and p = p and x = x and other = ol and fs = "LF RB_BLACK op ox or' # fs"] by simp
next
  case (red_right c p x ol op ox or')
  then show ?thesis using inorder_black_right [where t = t and c = RB_RED and p = p and x = x and other = or' and fs = "RF RB_BLACK ol op ox # fs"] by simp
qed (simp_all add: inorder_black_left inorder_black_right)

lemma inorder_erase_loop: "inorder (rb_erase_loop t fs) = before fs @ inorder t @ after fs"
proof (rule rb_erase_loop_rule [where P = "\<lambda>t' fs'. before fs' @ inorder t' @ after fs' = before fs @ inorder t @ after fs"])
  fix t' :: "('a, 'b) rb_tree" and f gs
  assume "before (f # gs) @ inorder t' @ after (f # gs) = before fs @ inorder t @ after fs"
  then show "inorder_pos (erase_step t' f gs) (before fs @ inorder t @ after fs)"
    using inorder_erase_step [where t = t' and f = f and fs = gs] by simp
qed (auto simp: inorder_plug)

lemma leftmost_Some:
  assumes "leftmost t fs = Some (node, fs')"
  obtains c p x r ps where "node = Node c Tip p x r" "fs' = ps @ fs" "plug node ps = t" "before ps = []"
  using assms
proof (induction t fs arbitrary: thesis rule: leftmost.induct)
  case (2 c l p x r fs)
  show ?case
  proof (cases "l = Tip")
    case True
    then show ?thesis using 2(2) [of c p x r "[]"] 2(3) by simp
  next
    case False
    show ?thesis
    proof (rule 2(1) [OF False])
      fix c' p' x' r' ps
      assume "node = Node c' Tip p' x' r'" "fs' = ps @ LF c p x r # fs" "plug node ps = l" "before ps = []"
      then show thesis using 2(2) [of c' p' x' r' "ps @ [LF c p x r]"] by (simp add: plug_append)
    qed (use 2(3) False in simp)
  qed
qed simp

lemma leftmost_exists: "t \<noteq> Tip \<Longrightarrow> \<exists>z. leftmost t fs = Some z"
  by (induction t fs rule: leftmost.induct) auto

lemma successor_exists:
  assumes "r \<noteq> Tip"
  obtains c p x r' ps where "leftmost r [] = Some (Node c Tip p x r', ps)" "plug (Node c Tip p x r') ps = r" "before ps = []"
proof -
  obtain z where "leftmost r [] = Some z" using leftmost_exists assms by blast
  then obtain node ps where lm: "leftmost r [] = Some (node, ps)" by (cases z) simp
  then show thesis by (rule leftmost_Some) (use that lm in auto)
qed

text \<open>Removing the node at a position removes its entry and nothing else.\<close>

lemma erase_at_inorder:
  assumes "node = Node c l p x r"
  shows "\<exists>t. erase_at node fs = Some t \<and> inorder t = before fs @ inorder l @ inorder r @ after fs"
proof -
  have fin: "inorder (if color = RB_BLACK then rb_erase_color0 child parents else plug child parents) =
      before parents @ inorder child @ after parents" for color and child :: "('a, 'b) rb_tree" and parents
    by (simp add: rb_erase_color0_def inorder_erase_loop inorder_plug)
  show ?thesis
  proof (cases "l = Tip \<or> r = Tip")
    case True
    then show ?thesis using fin [of c r fs] fin [of c l fs] by (auto simp: erase_at_def assms Let_def)
  next
    case False
    then obtain c' p' x' r' ps where lm: "leftmost r [] = Some (Node c' Tip p' x' r', ps)"
      and r: "plug (Node c' Tip p' x' r') ps = r" "before ps = []" by (blast elim: successor_exists)
    have "inorder r = (p', x') # inorder r' @ after ps" using r inorder_plug [of "Node c' Tip p' x' r'" ps] by simp
    then show ?thesis using False lm fin [of c' r' "ps @ RF c l p' x' # fs"] r
      by (simp add: erase_at_def assms Let_def)
  qed
qed

section \<open>Balance\<close>

text \<open>\<open>bal t n\<close>: every path from the root of \<open>t\<close> to a leaf has \<open>n\<close> black nodes.  \<open>rr t\<close>: no red node has a red child.\<close>

fun bal :: "('p, 'a) rb_tree \<Rightarrow> nat \<Rightarrow> bool" where
  "bal Tip n \<longleftrightarrow> n = 0"
| "bal (Node RB_RED l p x r) n \<longleftrightarrow> bal l n \<and> bal r n"
| "bal (Node RB_BLACK l p x r) n \<longleftrightarrow> (case n of 0 \<Rightarrow> False | Suc m \<Rightarrow> bal l m \<and> bal r m)"

fun rr :: "('p, 'a) rb_tree \<Rightarrow> bool" where
  "rr Tip \<longleftrightarrow> True"
| "rr (Node c l p x r) \<longleftrightarrow> rr l \<and> rr r \<and> (c = RB_RED \<longrightarrow> \<not> red_node l \<and> \<not> red_node r)"

definition rb_balanced :: "('p, 'a) rb_tree \<Rightarrow> bool" where
  "rb_balanced t \<longleftrightarrow> rr t \<and> (\<exists>n. bal t n)"

fun black_height :: "('p, 'a) rb_tree \<Rightarrow> nat" where
  "black_height Tip = 0"
| "black_height (Node c l p x r) = (if c = RB_BLACK then Suc (black_height l) else black_height l)"

lemma bal_black_height: "bal t n \<Longrightarrow> n = black_height t"
  by (induction t n rule: bal.induct) (auto split: nat.splits)

lemma rb_balanced_code [code]: "rb_balanced t \<longleftrightarrow> rr t \<and> bal t (black_height t)"
  using bal_black_height unfolding rb_balanced_def by blast

text \<open>The same for the frames above a position whose subtree has \<open>n\<close> black nodes on every path.\<close>

fun pbal :: "('p, 'a) path \<Rightarrow> nat \<Rightarrow> bool" where
  "pbal [] n \<longleftrightarrow> True"
| "pbal (f # fs) n \<longleftrightarrow> bal (sibling f) n \<and> pbal fs (if frame_color f = RB_BLACK then Suc n else n)"

definition black_top :: "('p, 'a) path \<Rightarrow> bool" where
  "black_top fs \<longleftrightarrow> (case fs of [] \<Rightarrow> True | f # _ \<Rightarrow> frame_color f = RB_BLACK)"

fun prr :: "('p, 'a) path \<Rightarrow> bool" where
  "prr [] \<longleftrightarrow> True"
| "prr (f # fs) \<longleftrightarrow> rr (sibling f) \<and> prr fs \<and> (frame_color f = RB_RED \<longrightarrow> \<not> red_node (sibling f) \<and> black_top fs)"

lemma bal_Node: "bal (Node c l p x r) n \<longleftrightarrow> (if c = RB_BLACK then n \<noteq> 0 \<and> bal l (n - 1) \<and> bal r (n - 1) else bal l n \<and> bal r n)"
  by (cases c; cases n) simp_all

lemma bal_plug: "bal t n \<Longrightarrow> pbal fs n \<Longrightarrow> \<exists>m. bal (plug t fs) m"
proof (induction t fs arbitrary: n rule: plug.induct)
  case (2 t f fs)
  have "bal (plug1 t f) (if frame_color f = RB_BLACK then Suc n else n)" using 2(2,3) by (cases f) (auto simp: bal_Node)
  then show ?case using 2 by simp
qed auto

lemma rr_plug: "rr t \<Longrightarrow> prr fs \<Longrightarrow> red_node t \<Longrightarrow> black_top fs \<Longrightarrow> rr (plug t fs)"
  and rr_plug_black: "rr t \<Longrightarrow> prr fs \<Longrightarrow> \<not> red_node t \<Longrightarrow> rr (plug t fs)"
proof (induction t fs rule: plug.induct)
  case (2 t f fs)
  have c: "plug1 t f \<noteq> Tip" "rb_color (plug1 t f) = frame_color f" by (cases f; simp)+
  {
    case 1
    then have "rr (plug1 t f)" by (cases f) (auto simp: black_top_def)
    then show ?case using 1 c 2 by (cases "frame_color f") auto
  next
    case 2
    then have "rr (plug1 t f)" by (cases f) auto
    then show ?case using 2 c "2.IH" by (cases "frame_color f") auto
  }
qed auto

lemma bal_paint_black: "bal t n \<Longrightarrow> \<exists>m. bal (paint RB_BLACK t) m"
proof (cases t)
  case (Node c l p x r)
  assume "bal t n"
  then have "bal (paint RB_BLACK t) (if c = RB_RED then Suc n else n)" using Node by (cases c) (simp_all add: bal_Node)
  then show ?thesis by blast
qed auto

lemma paint_black [simp]: "rr t \<Longrightarrow> rr (paint RB_BLACK t)" "\<not> red_node (paint RB_BLACK t)"
  by (cases t; simp)+

lemma balanced_paint: "rb_balanced t \<Longrightarrow> rb_balanced (paint RB_BLACK t)"
  using bal_paint_black by (auto simp: rb_balanced_def)

lemma balanced_plug: "rr t \<Longrightarrow> bal t n \<Longrightarrow> prr fs \<Longrightarrow> pbal fs n \<Longrightarrow> \<not> red_node t \<or> black_top fs \<Longrightarrow> rb_balanced (plug t fs)"
  using rr_plug rr_plug_black bal_plug unfolding rb_balanced_def by blast

lemma insert_below_black:
  assumes "rr node" "bal node n" "pbal (f # fs) n" "prr (f # fs)" "frame_color f \<noteq> RB_RED"
  shows "rb_balanced (paint RB_BLACK (plug node (f # fs)))"
  using assms by (intro balanced_paint balanced_plug [of node n]) (auto simp: black_top_def intro: color.exhaust)

lemma insert_recolour:
  assumes "rr node" "bal node n" "bal (sibling f) n" "rr (sibling f)" "frame_color f = RB_RED" "\<not> red_node (sibling f)"
  shows "bal (paint RB_BLACK (plug1 node f)) (Suc n)" "rr (paint RB_BLACK (plug1 node f))"
  using assms by (cases f; auto simp: bal_Node)+

lemma uncle_recolour: "red_node t \<Longrightarrow> bal t n \<Longrightarrow> bal (paint RB_BLACK t) (Suc n)"
  by (cases t) (auto simp: bal_Node)

text \<open>The loop keeps: the node is red, and only it and its parent may both be red.\<close>

lemma insert_loop_balanced:
  assumes "red_node node" "rr node" "bal node n" "pbal fs n" "prr fs"
  shows "rb_balanced (paint RB_BLACK (rb_insert_loop node fs))"
  using assms
proof (induction node fs arbitrary: n rule: rb_insert_loop.induct)
  case (1 node)
  then show ?case using balanced_paint by (auto simp: rb_balanced_def)
next
  case (2 node parent)
  have "bal (plug1 node parent) (if frame_color parent = RB_BLACK then Suc n else n)"
    using 2 by (cases parent) (auto simp: bal_Node)
  moreover have "rr (paint RB_BLACK (plug1 node parent))" using 2 by (cases parent) auto
  ultimately show ?case using bal_paint_black by (auto simp: rb_balanced_def)
next
  case (3 node parent gc gp gx uncle fs)
  note [simp] = bal_Node black_top_def
  consider "frame_color parent \<noteq> RB_RED" | "frame_color parent = RB_RED" "red_node uncle" | "frame_color parent = RB_RED" "\<not> red_node uncle"
    by blast
  then show ?case
  proof cases
    case 1
    then show ?thesis using insert_below_black [OF "3.prems"(2-5)] by simp
  next
    case 2
    then show ?thesis using "3.prems" "3.IH" [of "Suc n"] insert_recolour [of node n parent] uncle_recolour [of uncle n] by auto
  next
    case 3
    then have "rb_balanced (plug (rb_rotate_right0 (Node RB_RED (paint RB_BLACK
        (case parent of RF _ _ _ _ \<Rightarrow> rb_rotate_left0 (plug1 node parent) | LF _ _ _ _ \<Rightarrow> plug1 node parent)) gp gx uncle)) fs)"
      using "3.prems" by (cases parent; cases node) (auto intro!: balanced_plug [of _ "Suc n"])
    then show ?thesis using 3 balanced_paint by (auto simp: Let_def)
  qed
next
  case (4 node parent gc uncle gp gx fs)
  note [simp] = bal_Node black_top_def
  consider "frame_color parent \<noteq> RB_RED" | "frame_color parent = RB_RED" "red_node uncle" | "frame_color parent = RB_RED" "\<not> red_node uncle"
    by blast
  then show ?case
  proof cases
    case 1
    then show ?thesis using insert_below_black [OF "4.prems"(2-5)] by simp
  next
    case 2
    then show ?thesis using "4.prems" "4.IH" [of "Suc n"] insert_recolour [of node n parent] uncle_recolour [of uncle n] by auto
  next
    case 3
    then have "rb_balanced (plug (rb_rotate_left0 (Node RB_RED uncle gp gx (paint RB_BLACK
        (case parent of LF _ _ _ _ \<Rightarrow> rb_rotate_right0 (plug1 node parent) | RF _ _ _ _ \<Rightarrow> plug1 node parent)))) fs)"
      using "4.prems" by (cases parent; cases node) (auto intro!: balanced_plug [of _ "Suc n"])
    then show ?thesis using 3 balanced_paint by (auto simp: Let_def)
  qed
qed

text \<open>
  In the removal loop the subtree at the position is one black node short; its root may be red and have a red
  child or parent, since it is painted black when the loop ends.
\<close>

definition short :: "('p, 'a) rb_tree \<Rightarrow> ('p, 'a) path \<Rightarrow> bool" where
  "short t fs \<longleftrightarrow> (\<exists>n. rr (paint RB_BLACK t) \<and> bal t n \<and> pbal fs (Suc n) \<and> prr fs)"

lemma shortI: "rr (paint RB_BLACK t) \<Longrightarrow> bal t n \<Longrightarrow> pbal fs (Suc n) \<Longrightarrow> prr fs \<Longrightarrow> short t fs"
  unfolding short_def by blast

lemma paint_black_id: "\<not> red_node t \<Longrightarrow> paint RB_BLACK t = t"
  by (cases t; cases "rb_color t") auto

lemma black_left_balanced:
  assumes "short t (LF c p x other # fs)" "\<not> red_node other" "black_or_null t"
  shows "pos_all short rb_balanced (erase_black_left t c p x other fs)"
proof -
  from assms obtain n where n: "rr t" "bal t n" "bal other (Suc n)" "rr other" "prr fs" "c = RB_RED \<longrightarrow> black_top fs"
    and fs: "pbal fs (if c = RB_BLACK then Suc (Suc n) else Suc n)"
    using paint_black_id [of t] by (auto simp: short_def)
  show ?thesis
  proof (cases rule: black_left_cases [of other t c p x fs])
    case none
    then show ?thesis using n(3) by simp
  next
    case (up oc ol op ox or')
    have "oc = RB_BLACK" using assms(2) up by (cases oc) auto
    then have "short (Node c t p x (Node RB_RED ol op ox or')) fs"
      using n fs up assms(3) by (intro shortI [of _ "if c = RB_BLACK then Suc n else n"]) (auto simp: bal_Node)
    then show ?thesis using up by (simp add: pos_all_def)
  next
    case (far oc ol op ox a q y b)
    have "oc = RB_BLACK" using assms(2) far by (cases oc) auto
    then have "rb_balanced (plug (Node c (Node RB_BLACK t p x ol) op ox (Node RB_BLACK a q y b)) fs)"
      using n fs far assms(3) by (intro balanced_plug [of _ "if c = RB_BLACK then Suc (Suc n) else Suc n"]) (auto simp: bal_Node)
    then show ?thesis using far balanced_paint by (simp add: pos_all_def)
  next
    case (near oc a q y b op ox or')
    have "oc = RB_BLACK" using assms(2) near by (cases oc) auto
    then have "rb_balanced (plug (Node c (Node RB_BLACK t p x a) q y (Node RB_BLACK b op ox or')) fs)"
      using n fs near assms(3) by (intro balanced_plug [of _ "if c = RB_BLACK then Suc (Suc n) else Suc n"]) (auto simp: bal_Node)
    then show ?thesis using near balanced_paint by (simp add: pos_all_def)
  qed
qed

lemma black_right_balanced:
  assumes "short t (RF c other p x # fs)" "\<not> red_node other" "black_or_null t"
  shows "pos_all short rb_balanced (erase_black_right t c other p x fs)"
proof -
  from assms obtain n where n: "rr t" "bal t n" "bal other (Suc n)" "rr other" "prr fs" "c = RB_RED \<longrightarrow> black_top fs"
    and fs: "pbal fs (if c = RB_BLACK then Suc (Suc n) else Suc n)"
    using paint_black_id [of t] by (auto simp: short_def)
  show ?thesis
  proof (cases rule: black_right_cases [of other t c p x fs])
    case none
    then show ?thesis using n(3) by simp
  next
    case (up oc ol op ox or')
    have "oc = RB_BLACK" using assms(2) up by (cases oc) auto
    then have "short (Node c (Node RB_RED ol op ox or') p x t) fs"
      using n fs up assms(3) by (intro shortI [of _ "if c = RB_BLACK then Suc n else n"]) (auto simp: bal_Node)
    then show ?thesis using up by (simp add: pos_all_def)
  next
    case (far oc or' op ox a q y b)
    have "oc = RB_BLACK" using assms(2) far by (cases oc) auto
    then have "rb_balanced (plug (Node c (Node RB_BLACK a q y b) op ox (Node RB_BLACK or' p x t)) fs)"
      using n fs far assms(3) by (intro balanced_plug [of _ "if c = RB_BLACK then Suc (Suc n) else Suc n"]) (auto simp: bal_Node)
    then show ?thesis using far balanced_paint by (simp add: pos_all_def)
  next
    case (near oc a q y b op ox ol)
    have "oc = RB_BLACK" using assms(2) near by (cases oc) auto
    then have "rb_balanced (plug (Node c (Node RB_BLACK ol op ox a) q y (Node RB_BLACK b p x t)) fs)"
      using n fs near assms(3) by (intro balanced_plug [of _ "if c = RB_BLACK then Suc (Suc n) else Suc n"]) (auto simp: bal_Node)
    then show ?thesis using near balanced_paint by (simp add: pos_all_def)
  qed
qed

lemma erase_step_balanced:
  assumes "short t (f # fs)" "black_or_null t"
  shows "pos_all short rb_balanced (erase_step t f fs)"
proof (cases rule: erase_step_cases [where f = f and t = t and fs = fs])
  case (left c p x other)
  show ?thesis unfolding left(3) using assms(1) [unfolded left(1)] left(2) assms(2) by (rule black_left_balanced)
next
  case (right c other p x)
  show ?thesis unfolding right(3) using assms(1) [unfolded right(1)] right(2) assms(2) by (rule black_right_balanced)
next
  case (red_left c p x ol op ox or')
  then have "short t (LF RB_RED p x ol # LF RB_BLACK op ox or' # fs)" "\<not> red_node ol"
    using assms(1) by (cases c; auto simp: short_def black_top_def bal_Node)+
  from black_left_balanced [OF this assms(2)] show ?thesis using red_left by simp
next
  case (red_right c p x ol op ox or')
  then have "short t (RF RB_RED or' p x # RF RB_BLACK ol op ox # fs)" "\<not> red_node or'"
    using assms(1) by (cases c; auto simp: short_def black_top_def bal_Node)+
  from black_right_balanced [OF this assms(2)] show ?thesis using red_right by simp
qed

lemma erase_loop_balanced:
  assumes "short t fs"
  shows "rb_balanced (rb_erase_loop t fs)"
proof (rule rb_erase_loop_rule [where P = short])
  show "short t fs" by fact
next
  fix t' :: "('a, 'b) rb_tree" and gs
  assume s: "short t' gs" and e: "gs = [] \<or> red_node t'"
  then obtain n where n: "rr (paint RB_BLACK t')" "bal t' n" "pbal gs (Suc n)" "prr gs" by (auto simp: short_def)
  show "rb_balanced (plug (paint RB_BLACK t') gs)"
  proof (cases "red_node t'")
    case True
    then show ?thesis using n uncle_recolour [OF True n(2)] balanced_plug [of "paint RB_BLACK t'" "Suc n" gs] by simp
  next
    case False
    then show ?thesis using n e bal_paint_black by (auto simp: rb_balanced_def)
  qed
qed (rule erase_step_balanced)

lemma balanced_position:
  assumes "rb_balanced (plug t fs)"
  obtains n where "rr t" "bal t n" "pbal fs n" "prr fs" "\<not> red_node t \<or> black_top fs"
  using assms
proof (induction t fs arbitrary: thesis rule: plug.induct)
  case (1 t)
  then show ?case by (auto simp: rb_balanced_def black_top_def)
next
  case (2 t f fs)
  show ?case
  proof (rule "2.IH")
    fix n assume *: "rr (plug1 t f)" "bal (plug1 t f) n" "pbal fs n" "prr fs" "\<not> red_node (plug1 t f) \<or> black_top fs"
    show thesis
      by (rule "2.prems"(1) [of "if frame_color f = RB_BLACK then n - 1 else n"])
         (use * in \<open>cases f; cases "frame_color f"; auto simp: bal_Node black_top_def\<close>)+
  qed (use "2.prems" in simp)
qed

lemma path_payload: "pbal (ps @ RF c l q y # fs) n = pbal (ps @ RF c l p x # fs) n"
  "prr (ps @ RF c l q y # fs) = prr (ps @ RF c l p x # fs)"
  "black_top (ps @ RF c l q y # fs) = black_top (ps @ RF c l p x # fs)"
proof -
  show b: "black_top (ps @ RF c l q y # fs) = black_top (ps @ RF c l p x # fs)" for ps
    by (cases ps) (simp_all add: black_top_def)
  show "pbal (ps @ RF c l q y # fs) n = pbal (ps @ RF c l p x # fs) n" by (induction ps arbitrary: n) simp_all
  show "prr (ps @ RF c l q y # fs) = prr (ps @ RF c l p x # fs)" by (induction ps) (simp_all add: b)
qed

lemma unlink_balanced:
  assumes "rb_balanced (plug (Node c l p x r) fs)" "l = Tip \<or> r = Tip" "child = (if l = Tip then r else l)"
  shows "rb_balanced (if c = RB_BLACK then rb_erase_color0 child fs else plug child fs)"
proof -
  from assms(1) obtain n where n: "rr (Node c l p x r)" "bal (Node c l p x r) n" "pbal fs n" "prr fs"
    by (rule balanced_position)
  then have child: "rr child" "bal child (if c = RB_BLACK then n - 1 else n)" "c = RB_RED \<longrightarrow> \<not> red_node child"
    using assms(2,3) by (auto simp: bal_Node)
  show ?thesis
  proof (cases "c = RB_BLACK")
    case True
    then have "short child fs" using n child by (intro shortI [of _ "n - 1"]) (auto simp: bal_Node)
    then show ?thesis using True child erase_loop_balanced by (auto simp: rb_erase_color0_def rb_balanced_def)
  next
    case False
    then show ?thesis using n child balanced_plug [of child n fs] by (cases c) auto
  qed
qed

lemma successor_balanced:
  assumes "rb_balanced (plug (Node c l p x (plug node ps)) fs)"
  shows "rb_balanced (plug node (ps @ RF c l q y # fs))"
proof -
  have "rb_balanced (plug node (ps @ RF c l p x # fs))" using assms by (simp add: plug_append)
  then obtain n where "rr node" "bal node n" "pbal (ps @ RF c l p x # fs) n" "prr (ps @ RF c l p x # fs)"
    "\<not> red_node node \<or> black_top (ps @ RF c l p x # fs)" by (rule balanced_position)
  then show ?thesis
    using balanced_plug [of node n] path_payload [where q = q and y = y and p = p and x = x and ps = ps and c = c and l = l and fs = fs]
    by simp
qed

lemma erase_at_balanced:
  assumes "rb_balanced (plug node fs)" "erase_at node fs = Some t"
  shows "rb_balanced t"
proof (cases node)
  case Tip
  then show ?thesis using assms by (simp add: erase_at_def)
next
  case (Node c l p x r)
  show ?thesis
  proof (cases "l = Tip \<or> r = Tip")
    case True
    then show ?thesis using unlink_balanced [of c l p x r fs] assms Node by (auto simp: erase_at_def Let_def split: if_splits)
  next
    case False
    then obtain c' p' x' r' ps where lm: "leftmost r [] = Some (Node c' Tip p' x' r', ps)"
      and r: "plug (Node c' Tip p' x' r') ps = r" by (blast elim: successor_exists)
    have "rb_balanced (plug (Node c' Tip p' x' r') (ps @ RF c l p' x' # fs))"
      using successor_balanced [of c l p x "Node c' Tip p' x' r'" ps fs p' x'] assms(1) Node r by simp
    from unlink_balanced [OF this, of r'] show ?thesis
      using False lm assms(2) Node by (simp add: erase_at_def Let_def)
  qed
qed

fun height :: "('p, 'a) rb_tree \<Rightarrow> nat" where
  "height Tip = 0"
| "height (Node c l p x r) = Suc (max (height l) (height r))"

lemma bal_height: "rr t \<Longrightarrow> bal t n \<Longrightarrow> height t \<le> 2 * n + (if red_node t then 1 else 0)"
proof (induction t arbitrary: n)
  case (Node c l p x r)
  show ?case
  proof (cases c)
    case RB_RED
    then show ?thesis using Node.IH(1) [of n] Node.IH(2) [of n] Node.prems by (simp split: if_splits)
  next
    case RB_BLACK
    then obtain m where "n = Suc m" "bal l m" "bal r m" using Node.prems by (cases n) auto
    then show ?thesis using RB_BLACK Node.IH(1) [of m] Node.IH(2) [of m] Node.prems by (simp split: if_splits)
  qed
qed simp

lemma bal_size: "bal t n \<Longrightarrow> 2 ^ n \<le> Suc (length (inorder t))"
proof (induction t arbitrary: n)
  case (Node c l p x r)
  show ?case
  proof (cases c)
    case RB_RED
    then show ?thesis using Node.IH(1) [of n] Node.prems by simp
  next
    case RB_BLACK
    then obtain m where "n = Suc m" "bal l m" "bal r m" using Node.prems by (cases n) auto
    then show ?thesis using Node.IH(1) [of m] Node.IH(2) [of m] by simp
  qed
qed simp

lemma balanced_height:
  assumes "rb_balanced t"
  shows "2 ^ (height t div 2) \<le> Suc (length (inorder t))"
proof -
  from assms obtain n where n: "rr t" "bal t n" by (auto simp: rb_balanced_def)
  have "height t div 2 \<le> n" using bal_height [OF n] by (auto split: if_splits)
  then have "(2::nat) ^ (height t div 2) \<le> 2 ^ n" by simp
  then show ?thesis using bal_size [OF n(2)] by linarith
qed

end
