(* ===== verification/Rbtree_Augment.thy ===== *)
theory Rbtree_Augment
  imports Rbtree_Lemmas
begin

text \<open>
  Positions and neighbours of nodes (\<open>rb_position_exists\<close>, \<open>rb_next_inorder\<close>), and the augmentation callbacks: although
  rebalancing leaves cached contents out of date, \<^verbatim>\<open>rb_augment_insert\<close> and \<^verbatim>\<open>rb_augment_erase_end\<close> visit every node
  that is (\<open>insert_augmented\<close>, \<open>erase_augmented\<close>).  The locale \<open>rb_augmentation\<close> is the contract of a callback.
\<close>

section \<open>Positions of nodes\<close>

lemma rb_position_Some:
  assumes "rb_position q t fs = Some (node, fs')"
  obtains c l x r ps where "node = Node c l q x r" "fs' = ps @ fs" "plug node ps = t"
  using assms
proof (induction q t fs arbitrary: thesis rule: rb_position.induct)
  case (2 q c l p x r fs)
  consider "p = q" | "p \<noteq> q" "rb_position q l (LF c p x r # fs) = Some (node, fs')"
    | "p \<noteq> q" "rb_position q l (LF c p x r # fs) = None" "rb_position q r (RF c l p x # fs) = Some (node, fs')"
    using 2(4) by (auto split: if_splits option.splits)
  then show ?case
  proof cases
    case 1
    then show ?thesis using 2(3) [of c l x r "[]"] 2(4) by simp
  next
    case 2
    show ?thesis
    proof (rule "2.IH"(1) [OF 2(1) _ 2(2)])
      fix c' l' x' r' ps assume "node = Node c' l' q x' r'" "fs' = ps @ LF c p x r # fs" "plug node ps = l"
      then show thesis using "2.prems"(1) [of c' l' x' r' "ps @ [LF c p x r]"] by (simp add: plug_append)
    qed
  next
    case 3
    show ?thesis
    proof (rule "2.IH"(2) [OF 3(1,2) _ 3(3)])
      fix c' l' x' r' ps assume "node = Node c' l' q x' r'" "fs' = ps @ RF c l p x # fs" "plug node ps = r"
      then show thesis using "2.prems"(1) [of c' l' x' r' "ps @ [RF c l p x]"] by (simp add: plug_append)
    qed
  qed
qed simp

lemma rb_position_None: "rb_position q t fs = None \<longleftrightarrow> q \<notin> set (nodes t)"
  by (induction q t fs rule: rb_position.induct) (auto split: option.splits)

lemma rb_position_exists:
  assumes "q \<in> set (nodes t)"
  obtains c l x r ps where "rb_position q t [] = Some (Node c l q x r, ps)" "plug (Node c l q x r) ps = t"
proof -
  from assms obtain z where "rb_position q t [] = Some z" using rb_position_None [of q t "[]"] by auto
  then obtain node ps where z: "rb_position q t [] = Some (node, ps)" by (cases z) simp
  then show thesis by (rule rb_position_Some) (use that z in auto)
qed

lemma rb_erase_inorder:
  assumes "q \<in> set (nodes t)" "distinct (nodes t)" "rb_balanced t"
  shows "\<exists>t'. rb_erase q t = Some t' \<and> inorder t' = filter (\<lambda>(p, x). p \<noteq> q) (inorder t) \<and> rb_balanced t'"
proof -
  from assms(1) obtain c l x r ps where pos: "rb_position q t [] = Some (Node c l q x r, ps)" and t: "plug (Node c l q x r) ps = t"
    by (rule rb_position_exists)
  obtain t' where t': "erase_at (Node c l q x r) ps = Some t'" "inorder t' = before ps @ inorder l @ inorder r @ after ps"
    using erase_at_inorder [OF refl, of c l q x r ps] by blast
  have i: "inorder t = (before ps @ inorder l) @ (q, x) # (inorder r @ after ps)" using t inorder_plug by (metis append_Cons append_assoc inorder.simps(2))
  then have "filter (\<lambda>(p, x). p \<noteq> q) (before ps @ inorder l) = before ps @ inorder l"
      "filter (\<lambda>(p, x). p \<noteq> q) (inorder r @ after ps) = inorder r @ after ps"
    using assms(2) by (force intro!: filter_True simp: image_iff)+
  then have "inorder t' = filter (\<lambda>(p, x). p \<noteq> q) (inorder t)" using t'(2) i by simp
  moreover have "rb_balanced t'" using erase_at_balanced [OF _ t'(1)] t assms(3) by simp
  ultimately show ?thesis using pos t'(1) by (simp add: rb_erase_def)
qed

section \<open>The neighbours of a node\<close>

lemma leftmost_inorder: "t \<noteq> Tip \<Longrightarrow> rb_first t = Some (fst (hd (inorder t)))"
proof -
  assume "t \<noteq> Tip"
  then obtain z where "leftmost t [] = Some z" using leftmost_exists by blast
  then obtain node ps where lm: "leftmost t [] = Some (node, ps)" by (cases z) simp
  from lm obtain c p x r where n: "node = Node c Tip p x r" "plug node ps = t" "before ps = []"
    by (rule leftmost_Some) simp
  then have "inorder t = (p, x) # inorder r @ after ps" using inorder_plug [of node ps] by simp
  then show ?thesis using lm n by (simp add: rb_first_def)
qed

lemma up_right_after: "up_right fs = (case after fs of [] \<Rightarrow> None | (p, x) # _ \<Rightarrow> Some p)"
  by (induction fs rule: up_right.induct) auto

lemma rb_next_inorder:
  assumes "distinct (nodes t)" "inorder t = xs @ (q, x) # ys"
  shows "rb_next q t = (case ys of [] \<Rightarrow> None | (p, _) # _ \<Rightarrow> Some p)"
proof -
  have "q \<in> set (nodes t)" using assms(2) by simp
  then obtain c l x' r ps where pos: "rb_position q t [] = Some (Node c l q x' r, ps)" and t: "plug (Node c l q x' r) ps = t"
    by (rule rb_position_exists)
  have i: "inorder t = (before ps @ inorder l) @ (q, x') # (inorder r @ after ps)"
    using t inorder_plug by (metis append_Cons append_assoc inorder.simps(2))
  have ys: "ys = inorder r @ after ps"
    using distinct_fst_split [of xs q x ys "before ps @ inorder l" x' "inorder r @ after ps"] i assms by simp
  show ?thesis
  proof (cases r)
    case Tip
    then show ?thesis using pos ys up_right_after by (simp add: rb_next_def)
  next
    case (Node rc rl rp rx rr)
    then obtain a as where a: "inorder r = a # as" by (cases "inorder r") auto
    then have "rb_next q t = Some (fst a)" using pos Node leftmost_inorder [of r] by (simp add: rb_next_def)
    then show ?thesis using ys a by (cases a) simp
  qed
qed

section \<open>Keeping the augmentation\<close>

text \<open>
  \<open>aug\<close>: every content is up to date with respect to the callback.  \<open>near\<close>: only the root may be out of date.
  \<open>damaged\<close>: only the nodes on the way from the root to the node \<open>q\<close> may be out of date.  \<open>fixable\<close>: in addition the
  siblings of these nodes, and with \<open>\<not> strong\<close> the children of \<open>q\<close>.
\<close>

fun aug :: "('p, 'a) rb_augment_f \<Rightarrow> ('p, 'a) rb_tree \<Rightarrow> bool" where
  "aug func Tip \<longleftrightarrow> True"
| "aug func (Node c l p x r) \<longleftrightarrow> func l x r = x \<and> aug func l \<and> aug func r"

fun near :: "('p, 'a) rb_augment_f \<Rightarrow> ('p, 'a) rb_tree \<Rightarrow> bool" where
  "near func Tip \<longleftrightarrow> True"
| "near func (Node c l p x r) \<longleftrightarrow> aug func l \<and> aug func r"

fun damaged :: "('p, 'a) rb_augment_f \<Rightarrow> 'p \<Rightarrow> ('p, 'a) rb_tree \<Rightarrow> bool" where
  "damaged func q Tip \<longleftrightarrow> False"
| "damaged func q (Node c l p x r) \<longleftrightarrow>
     p = q \<and> aug func l \<and> aug func r \<or> damaged func q l \<and> aug func r \<or> aug func l \<and> damaged func q r"

fun fixable :: "bool \<Rightarrow> ('p, 'a) rb_augment_f \<Rightarrow> 'p \<Rightarrow> ('p, 'a) rb_tree \<Rightarrow> bool" where
  "fixable strong func q Tip \<longleftrightarrow> False"
| "fixable strong func q (Node c l p x r) \<longleftrightarrow>
     p = q \<and> (if strong then aug func l \<and> aug func r else near func l \<and> near func r) \<or>
     fixable strong func q l \<and> near func r \<or> near func l \<and> fixable strong func q r"

lemma aug_near: "aug func t \<Longrightarrow> near func t"
  by (cases t) auto

lemma damaged_fixable: "damaged func q t \<Longrightarrow> fixable strong func q t"
  by (induction t) (auto dest: aug_near)

lemma paint_aug [simp]: "aug func (paint c t) = aug func t" "near func (paint c t) = near func t"
  "damaged func q (paint c t) = damaged func q t" "fixable s func q (paint c t) = fixable s func q t"
  by (cases t; simp)+

lemma damaged_node: "damaged func q t \<Longrightarrow> q \<in> set (nodes t)"
  by (induction t) auto

lemma fixable_node: "fixable s func q t \<Longrightarrow> q \<in> set (nodes t)"
  by (induction t) auto

lemma fixable_plug:
  assumes "fixable s func q t" "\<forall>f \<in> set fs. near func (sibling f)"
  shows "fixable s func q (plug t fs)"
  using assms
proof (induction t fs rule: plug.induct)
  case (2 t f fs)
  then show ?case by (cases f) auto
qed simp

lemma insert_loop_fixable:
  assumes "damaged func q t" "\<forall>f \<in> set fs. aug func (sibling f)"
  shows "fixable False func q (rb_insert_loop t fs)"
  using assms
proof (induction t fs rule: rb_insert_loop.induct)
  case (1 node)
  then show ?case by (simp add: damaged_fixable)
next
  case (2 node parent)
  then show ?case by (cases parent) (auto simp: damaged_fixable aug_near)
next
  case (3 node parent gc gp gx uncle fs)
  have "fixable False func q (plug node (parent # LF gc gp gx uncle # fs))"
    using 3 by (intro fixable_plug) (auto simp: damaged_fixable aug_near)
  moreover have "fixable False func q (rb_rotate_right0 (Node RB_RED (paint RB_BLACK
        (case parent of RF _ _ _ _ \<Rightarrow> rb_rotate_left0 (plug1 node parent) | LF _ _ _ _ \<Rightarrow> plug1 node parent)) gp gx uncle))"
    using 3 by (cases parent; cases node) (auto simp: damaged_fixable aug_near)
  ultimately show ?case using 3 by (cases parent) (auto simp: Let_def aug_near intro!: fixable_plug)
next
  case (4 node parent gc uncle gp gx fs)
  have "fixable False func q (plug node (parent # RF gc uncle gp gx # fs))"
    using 4 by (intro fixable_plug) (auto simp: damaged_fixable aug_near)
  moreover have "fixable False func q (rb_rotate_left0 (Node RB_RED uncle gp gx (paint RB_BLACK
        (case parent of LF _ _ _ _ \<Rightarrow> rb_rotate_right0 (plug1 node parent) | RF _ _ _ _ \<Rightarrow> plug1 node parent))))"
    using 4 by (cases parent; cases node) (auto simp: damaged_fixable aug_near)
  ultimately show ?case using 4 by (cases parent) (auto simp: Let_def aug_near intro!: fixable_plug)
qed

text \<open>In the removal loop \<open>q\<close> is in the subtree at the position, or the subtree is empty and \<open>q\<close> is the parent.\<close>

definition pos_damaged :: "('p, 'a) rb_augment_f \<Rightarrow> 'p \<Rightarrow> ('p, 'a) rb_tree \<Rightarrow> ('p, 'a) path \<Rightarrow> bool" where
  "pos_damaged func q t fs \<longleftrightarrow>
     (damaged func q t \<or> t = Tip \<and> fs \<noteq> [] \<and> q = frame_node (hd fs)) \<and> (\<forall>f \<in> set fs. aug func (sibling f))"

lemma damaged_join:
  assumes "damaged func q t \<or> t = Tip \<and> q = p" "aug func s"
  shows "damaged func q (Node c t p x s)" "damaged func q (Node c s p x t)"
  using assms by auto

lemma fixable_Node: "fixable s func q l \<Longrightarrow> near func r \<Longrightarrow> fixable s func q (Node c l p x r)"
  "fixable s func q r \<Longrightarrow> near func l \<Longrightarrow> fixable s func q (Node c l p x r)"
  by simp_all

lemma fixable_rotated:
  assumes "damaged func q t \<or> t = Tip \<and> q = p" "aug func s" "near func u" "\<forall>f \<in> set fs. aug func (sibling f)"
  shows "fixable True func q (plug (Node c (Node d t p x s) p' x' u) fs)"
    "fixable True func q (plug (Node c u p' x' (Node d s p x t)) fs)"
proof -
  have fs: "\<forall>f \<in> set fs. near func (sibling f)" using assms(4) aug_near by blast
  show "fixable True func q (plug (Node c (Node d t p x s) p' x' u) fs)"
    by (rule fixable_plug [OF fixable_Node(1) [OF damaged_fixable [OF damaged_join(1) [OF assms(1,2)]] assms(3)] fs])
  show "fixable True func q (plug (Node c u p' x' (Node d s p x t)) fs)"
    by (rule fixable_plug [OF fixable_Node(2) [OF damaged_fixable [OF damaged_join(2) [OF assms(1,2)]] assms(3)] fs])
qed

lemma black_left_damaged:
  assumes "pos_damaged func q t (LF c p x other # fs)" "other \<noteq> Tip"
  shows "pos_all (pos_damaged func q) (fixable True func q) (erase_black_left t c p x other fs)"
proof -
  have a: "damaged func q t \<or> t = Tip \<and> q = p" "aug func other" "\<forall>f \<in> set fs. aug func (sibling f)"
    using assms by (auto simp: pos_damaged_def)
  note rot = fixable_rotated(1) [OF a(1) _ _ a(3)] and join = damaged_join(1) [OF a(1)]
  show ?thesis
  proof (cases rule: black_left_cases [of other t c p x fs])
    case (up oc ol op ox or')
    then show ?thesis using a join [of "Node RB_RED ol op ox or'" c x] by (simp add: pos_all_def pos_damaged_def del: damaged.simps)
  next
    case (far oc ol op ox u q' y v)
    then show ?thesis using a rot [of ol "Node RB_BLACK u q' y v" c RB_BLACK x op ox] by (simp add: pos_all_def)
  next
    case (near oc u q' y v op ox or')
    then show ?thesis using a rot [of u "Node RB_BLACK v op ox or'" c RB_BLACK x q' y] by (simp add: pos_all_def)
  qed (use assms in simp)
qed

lemma black_right_damaged:
  assumes "pos_damaged func q t (RF c other p x # fs)" "other \<noteq> Tip"
  shows "pos_all (pos_damaged func q) (fixable True func q) (erase_black_right t c other p x fs)"
proof -
  have a: "damaged func q t \<or> t = Tip \<and> q = p" "aug func other" "\<forall>f \<in> set fs. aug func (sibling f)"
    using assms by (auto simp: pos_damaged_def)
  note rot = fixable_rotated(2) [OF a(1) _ _ a(3)] and join = damaged_join(2) [OF a(1)]
  show ?thesis
  proof (cases rule: black_right_cases [of other t c p x fs])
    case (up oc ol op ox or')
    then show ?thesis using a join [of "Node RB_RED ol op ox or'" c x] by (simp add: pos_all_def pos_damaged_def del: damaged.simps)
  next
    case (far oc or' op ox u q' y v)
    then show ?thesis using a rot [of or' "Node RB_BLACK u q' y v" c op ox RB_BLACK x] by (simp add: pos_all_def)
  next
    case (near oc u q' y v op ox ol)
    then show ?thesis using a rot [of v "Node RB_BLACK ol op ox u" c q' y RB_BLACK x] by (simp add: pos_all_def)
  qed (use assms in simp)
qed

lemma erase_step_damaged:
  assumes s: "short t (f # fs)" and d: "pos_damaged func q t (f # fs)"
  shows "pos_all (pos_damaged func q) (fixable True func q) (erase_step t f fs)"
proof (cases rule: erase_step_cases [where f = f and t = t and fs = fs])
  case (left c p x other)
  have "other \<noteq> Tip" using s left by (auto simp: short_def)
  then show ?thesis unfolding left(3) using d [unfolded left(1)] by (intro black_left_damaged)
next
  case (right c other p x)
  have "other \<noteq> Tip" using s right by (auto simp: short_def)
  then show ?thesis unfolding right(3) using d [unfolded right(1)] by (intro black_right_damaged)
next
  case (red_left c p x ol op ox or')
  have "ol \<noteq> Tip" using s red_left by (auto simp: short_def)
  moreover have "pos_damaged func q t (LF RB_RED p x ol # LF RB_BLACK op ox or' # fs)" using d red_left by (auto simp: pos_damaged_def)
  ultimately show ?thesis unfolding red_left(2) by (intro black_left_damaged)
next
  case (red_right c p x ol op ox or')
  have "or' \<noteq> Tip" using s red_right by (auto simp: short_def)
  moreover have "pos_damaged func q t (RF RB_RED or' p x # RF RB_BLACK ol op ox # fs)" using d red_right by (auto simp: pos_damaged_def)
  ultimately show ?thesis unfolding red_right(2) by (intro black_right_damaged)
qed

lemma erase_loop_fixable:
  assumes "short t fs" "pos_damaged func q t fs"
  shows "fixable True func q (rb_erase_loop t fs)"
proof (rule rb_erase_loop_rule [where P = "\<lambda>t fs. short t fs \<and> pos_damaged func q t fs"])
  fix t' f gs assume "short t' (f # gs) \<and> pos_damaged func q t' (f # gs)" "black_or_null t'"
  then show "pos_all (\<lambda>t fs. short t fs \<and> pos_damaged func q t fs) (fixable True func q) (erase_step t' f gs)"
    using erase_step_balanced [of t' f gs] erase_step_damaged [of t' f gs func q]
    by (auto simp: pos_all_def split: sum.splits)
next
  fix t' gs assume "short t' gs \<and> pos_damaged func q t' gs" "gs = [] \<or> red_node t'"
  then have "damaged func q t'" "\<forall>f \<in> set gs. near func (sibling f)" by (auto simp: pos_damaged_def aug_near)
  then show "fixable True func q (plug (paint RB_BLACK t') gs)" by (intro fixable_plug) (simp_all add: damaged_fixable)
qed (use assms in simp)

lemma aug_plug: "aug func (plug t fs) \<Longrightarrow> aug func t \<and> (\<forall>f \<in> set fs. aug func (sibling f))"
proof (induction t fs rule: plug.induct)
  case (2 t f fs)
  then show ?case by (cases f) auto
qed simp

text \<open>The deepest remaining node after a node with at most one child has been unlinked.\<close>

definition deepest :: "('p, 'a) rb_tree \<Rightarrow> ('p, 'a) path \<Rightarrow> 'p option" where
  "deepest child fs = (case child of Node _ _ p _ _ \<Rightarrow> Some p | Tip \<Rightarrow> (case fs of [] \<Rightarrow> None | f # _ \<Rightarrow> Some (frame_node f)))"

lemma unlink_fixable:
  assumes "rb_balanced (plug (Node c l p x r) fs)" "l = Tip \<or> r = Tip" "child = (if l = Tip then r else l)"
    and "aug func child" "\<forall>f \<in> set fs. aug func (sibling f)"
  shows "case deepest child fs of
      None \<Rightarrow> (if c = RB_BLACK then rb_erase_color0 child fs else plug child fs) = Tip
    | Some q \<Rightarrow> fixable True func q (if c = RB_BLACK then rb_erase_color0 child fs else plug child fs)"
proof (cases "deepest child fs")
  case None
  then show ?thesis by (auto simp: deepest_def rb_erase_color0_def split: rb_tree.splits list.splits)
next
  case (Some q)
  then have d: "pos_damaged func q child fs" using assms(4,5)
    by (auto simp: deepest_def pos_damaged_def split: rb_tree.splits list.splits)
  have nr: "\<forall>f \<in> set fs. near func (sibling f)" using assms(5) aug_near by blast
  have p: "fixable True func q (plug child fs)"
  proof (cases "child = Tip")
    case True
    then obtain f gs where "fs = f # gs" "q = frame_node f" using d by (cases fs) (auto simp: pos_damaged_def)
    then show ?thesis using True nr assms(5) by (cases f) (auto intro!: fixable_plug)
  next
    case False
    then show ?thesis using d nr by (auto simp: pos_damaged_def damaged_fixable intro!: fixable_plug)
  qed
  show ?thesis
  proof (cases "c = RB_BLACK \<and> fs \<noteq> []")
    case True
    from assms(1) obtain n where "rr (Node c l p x r)" "bal (Node c l p x r) n" "pbal fs n" "prr fs"
      by (rule balanced_position)
    then have "short child fs" using True assms(2,3) by (intro shortI [of _ "n - 1"]) (auto simp: bal_Node)
    then show ?thesis using True Some erase_loop_fixable [OF _ d] by (simp add: rb_erase_color0_def)
  next
    case False
    then show ?thesis using p Some by (auto simp: rb_erase_color0_def)
  qed
qed

lemma erase_at_fixable:
  assumes "rb_balanced (plug node fs)" "aug func (plug node fs)" "erase_at node fs = Some t"
  shows "case rb_augment_erase_begin node fs of None \<Rightarrow> t = Tip | Some q \<Rightarrow> fixable True func q t"
proof (cases node)
  case Tip
  then show ?thesis using assms by (simp add: erase_at_def)
next
  case (Node c l p x r)
  have a: "aug func l" "aug func r" "\<forall>f \<in> set fs. aug func (sibling f)" using aug_plug [OF assms(2)] Node by auto
  show ?thesis
  proof (cases "l = Tip \<or> r = Tip")
    case True
    have "rb_augment_erase_begin node fs = deepest (if l = Tip then r else l) fs"
      using True by (cases l; cases r) (auto simp: rb_augment_erase_begin_def deepest_def Node split: list.splits)
    moreover have "t = (if c = RB_BLACK then rb_erase_color0 (if l = Tip then r else l) fs else plug (if l = Tip then r else l) fs)"
      using True assms(3) Node by (auto simp: erase_at_def Let_def split: if_splits)
    ultimately show ?thesis
      using unlink_fixable [of c l p x r fs "if l = Tip then r else l" func] True a assms(1) Node by (cases "l = Tip") auto
  next
    case False
    then obtain c' p' x' r' ps where lm: "leftmost r [] = Some (Node c' Tip p' x' r', ps)"
      and r: "plug (Node c' Tip p' x' r') ps = r" by (blast elim: successor_exists)
    let ?fs = "ps @ RF c l p' x' # fs"
    have "aug func r'" "\<forall>f \<in> set ?fs. aug func (sibling f)" using a aug_plug [of func "Node c' Tip p' x' r'" ps] r by auto
    moreover have "rb_balanced (plug (Node c' Tip p' x' r') ?fs)"
      using successor_balanced [of c l p x "Node c' Tip p' x' r'" ps fs p' x'] assms(1) Node r by simp
    moreover have t: "t = (if c' = RB_BLACK then rb_erase_color0 r' ?fs else plug r' ?fs)"
      using False lm assms(3) Node by (simp add: erase_at_def Let_def)
    ultimately have "case deepest r' ?fs of None \<Rightarrow> t = Tip | Some q \<Rightarrow> fixable True func q t"
      unfolding t by (intro unlink_fixable [where l = Tip and r = r' and p = p' and x = x']) simp_all
    moreover have "rb_augment_erase_begin node fs = deepest r' ?fs" using False lm Node
      by (cases r'; cases ps) (auto simp: rb_augment_erase_begin_def deepest_def)
    ultimately show ?thesis by simp
  qed
qed

lemma fixable_plugD:
  assumes "fixable s func q (plug t fs)" "distinct (nodes (plug t fs))" "q \<in> set (nodes t)"
  shows "fixable s func q t \<and> (\<forall>f \<in> set fs. near func (sibling f))"
  using assms
proof (induction t fs rule: plug.induct)
  case (2 t f fs)
  have q: "q \<in> set (nodes (plug1 t f))" using "2.prems"(3) by (simp add: inorder_plug1)
  with 2 have IH: "fixable s func q (plug1 t f)" "\<forall>f \<in> set fs. near func (sibling f)" by auto
  have "distinct (nodes (plug1 t f))" using "2.prems"(2) by (simp add: inorder_plug)
  then have "q \<notin> set (nodes (sibling f))" "q \<noteq> frame_node f"
    using "2.prems"(3) by (cases f; simp; blast)+
  then have "fixable s func q t \<and> near func (sibling f)"
    using IH(1) fixable_node [of s func q "sibling f"] by (cases f) auto
  then show ?case using IH(2) by simp
qed simp

lemma position_fixable:
  assumes "fixable s func q t" "distinct (nodes t)"
  obtains c l x r ps where "rb_position q t [] = Some (Node c l q x r, ps)" "plug (Node c l q x r) ps = t"
    "if s then aug func l \<and> aug func r else near func l \<and> near func r" "\<forall>f \<in> set ps. near func (sibling f)"
proof -
  from fixable_node [OF assms(1)] obtain c l x r ps
    where pos: "rb_position q t [] = Some (Node c l q x r, ps)" and t: "plug (Node c l q x r) ps = t"
    by (rule rb_position_exists)
  have "q \<notin> set (nodes l)" "q \<notin> set (nodes r)" using assms(2) unfolding t [symmetric] by (simp_all add: inorder_plug)
  moreover have "fixable s func q (Node c l q x r) \<and> (\<forall>f \<in> set ps. near func (sibling f))"
    by (rule fixable_plugD) (use assms t in auto)
  ultimately show thesis using that [OF pos t] fixable_node [of s func q l] fixable_node [of s func q r] by auto
qed

text \<open>Augmenting changes contents only.\<close>

fun shape :: "('p, 'a) rb_tree \<Rightarrow> (unit, unit) rb_tree" where
  "shape Tip = Tip"
| "shape (Node c l p x r) = Node c (shape l) () () (shape r)"

lemma shape_balanced: "rb_balanced (shape t) \<longleftrightarrow> rb_balanced t"
proof -
  have red: "red_node (shape u) = red_node u" for u :: "('a, 'b) rb_tree" by (cases u) auto
  have "bal (shape t) n = bal t n" for n by (induction t n rule: bal.induct) (auto split: nat.splits)
  moreover have "rr (shape t) = rr t" by (induction t) (simp_all only: shape.simps rr.simps red)
  ultimately show ?thesis by (simp add: rb_balanced_def)
qed

lemma shape_plug: "shape t = shape u \<Longrightarrow> shape (plug t fs) = shape (plug u fs)"
proof (induction fs arbitrary: t u)
  case (Cons f fs)
  then show ?case by (cases f) simp_all
qed simp

lemma shape_augment [simp]: "shape (augment func t) = shape t"
  by (cases t) simp_all

lemma shape_augment_path: "shape (rb_augment_path func t fs) = shape (plug t fs)"
proof (induction fs arbitrary: t)
  case (Cons f fs)
  then show ?case by (cases f) (auto intro!: shape_plug)
qed simp

lemma augment_path_balanced: "rb_balanced (rb_augment_path func t fs) \<longleftrightarrow> rb_balanced (plug t fs)"
  using shape_balanced shape_augment_path by metis

definition entries :: "('a \<Rightarrow> 'b) \<Rightarrow> ('p, 'a) rb_tree \<Rightarrow> ('p \<times> 'b) list" where
  "entries base t = map (\<lambda>(p, x). (p, base x)) (inorder t)"

lemma entries_simps: "entries base Tip = []" "entries base (Node c l p x r) = entries base l @ (p, base x) # entries base r"
  by (simp_all add: entries_def)

lemma entries_nodes: "map fst (entries base t) = nodes t"
  by (simp add: entries_def case_prod_unfold)

lemma entries_plug: "entries base t = entries base u \<Longrightarrow> entries base (plug t fs) = entries base (plug u fs)"
  by (simp add: entries_def inorder_plug)

text \<open>
  The contract of an augmentation: the callback is idempotent and does not change the base part of a content.
  Under it the callbacks of insertion and removal bring all contents up to date.
\<close>

locale rb_augmentation =
  fixes func :: "('p, 'a) rb_augment_f" and base :: "'a \<Rightarrow> 'b"
  assumes func_idem: "func l (func l x r) r = func l x r"
    and base_func: "base (func l x r) = base x"
begin

lemma entries_augment [simp]: "entries base (augment func t) = entries base t"
  by (cases t) (simp_all add: entries_simps base_func)

lemma aug_augment: "near func t \<Longrightarrow> aug func (augment func t)"
  by (cases t) (simp_all add: func_idem)

lemma augment_idem [simp]: "augment func (augment func t) = augment func t"
  by (cases t) (simp_all add: func_idem)

lemma augment_path_entries: "entries base (rb_augment_path func t fs) = entries base (plug t fs)"
proof (induction fs arbitrary: t)
  case (Cons f fs)
  then show ?case by (cases f) (auto intro!: entries_plug simp: entries_simps)
qed simp

lemma augment_path_aug:
  "near func t \<Longrightarrow> \<forall>f \<in> set fs. near func (sibling f) \<Longrightarrow> aug func (rb_augment_path func t fs)"
proof (induction fs arbitrary: t)
  case Nil
  then show ?case by (simp add: aug_augment)
next
  case (Cons f fs)
  then show ?case by (cases f) (auto simp: aug_augment)
qed

text \<open>Insertion: link a node at a position, rebalance, and augment.\<close>

lemma insert_augmented:
  assumes "aug func (plug Tip fs)" "rb_balanced (plug Tip fs)" "q \<notin> set (nodes (plug Tip fs))" "distinct (nodes (plug Tip fs))"
  shows "\<exists>t. rb_augment_insert func q (rb_insert_color (Node RB_RED Tip q x Tip) fs) = Some t \<and> aug func t \<and> rb_balanced t \<and>
    entries base t = entries base (plug (Node RB_RED Tip q x Tip) fs)"
proof -
  let ?node = "Node RB_RED Tip q x Tip" and ?t = "rb_insert_color (Node RB_RED Tip q x Tip) fs"
  have in_t: "inorder ?t = inorder (plug ?node fs)" by (simp add: inorder_insert_color inorder_plug)
  have dist: "distinct (nodes ?t)" using assms(3,4) by (auto simp: inorder_insert_color inorder_plug)
  have "fixable False func q ?t"
    unfolding rb_insert_color_def using aug_plug [OF assms(1)] insert_loop_fixable [of func q ?node fs] by simp
  then obtain c l y r ps where pos: "rb_position q ?t [] = Some (Node c l q y r, ps)" and t: "plug (Node c l q y r) ps = ?t"
    and fx: "near func l" "near func r" "\<forall>f \<in> set ps. near func (sibling f)"
    by (rule position_fixable [OF _ dist]) simp
  obtain n where "pbal fs n" "prr fs" "bal (Tip :: ('p, 'a) rb_tree) n" using assms(2) by (rule balanced_position)
  then have bal: "rb_balanced ?t" unfolding rb_insert_color_def by (intro insert_loop_balanced [of _ n]) simp_all
  obtain u gs where u: "rb_augment_insert func q ?t = Some (rb_augment_path func u gs)" "plug u gs = ?t" "near func u"
      "\<forall>f \<in> set gs. near func (sibling f)"
  proof -
    have "rb_augment_insert func q ?t = Some (if l \<noteq> Tip then rb_augment_path func l (LF c q y r # ps)
        else if r \<noteq> Tip then rb_augment_path func r (RF c l q y # ps) else rb_augment_path func (Node c l q y r) ps)"
      by (simp only: rb_augment_insert_def pos bind.bind_lunit prod.case rb_tree.case)
    then show thesis
      using that [of l "LF c q y r # ps"] that [of r "RF c l q y # ps"] that [of "Node c l q y r" ps] t fx
      by (auto simp del: rb_augment_path.simps split: if_splits)
  qed
  then have "aug func (rb_augment_path func u gs)" "entries base (rb_augment_path func u gs) = entries base ?t"
    "rb_balanced (rb_augment_path func u gs)"
    using augment_path_aug augment_path_entries bal by (simp_all add: augment_path_balanced)
  then show ?thesis using u(1) in_t by (simp add: entries_def)
qed

text \<open>Removal of the node at a position, and augmentation from the deepest remaining node.\<close>

lemma erase_augmented:
  assumes "aug func t" "rb_balanced t" "distinct (nodes t)" "rb_position q t [] = Some (node, fs)"
  shows "\<exists>u v. rb_erase q t = Some u \<and> rb_augment_erase_end func (rb_augment_erase_begin node fs) u = Some v \<and> aug func v \<and>
    rb_balanced v \<and> entries base v = filter (\<lambda>(p, x). p \<noteq> q) (entries base t)"
proof -
  have t: "plug node fs = t" using assms(4) by (rule rb_position_Some) simp
  have "q \<in> set (nodes t)" using assms(4) rb_position_None [of q t "[]"] by auto
  then obtain u where u: "rb_erase q t = Some u" "inorder u = filter (\<lambda>(p, x). p \<noteq> q) (inorder t)" "rb_balanced u"
    using rb_erase_inorder [OF _ assms(3,2)] by blast
  have e: "entries base u = filter (\<lambda>(p, x). p \<noteq> q) (entries base t)"
    by (simp add: entries_def u(2) filter_map comp_def case_prod_unfold)
  have dist: "distinct (nodes u)" using assms(3) u(2) by (simp add: distinct_map_filter)
  have "erase_at node fs = Some u" using u(1) assms(4) by (simp add: rb_erase_def)
  note fx = erase_at_fixable [OF _ _ this, of func, unfolded t, OF assms(2,1)]
  show ?thesis
  proof (cases "rb_augment_erase_begin node fs")
    case None
    then show ?thesis using fx u e by (simp add: rb_augment_erase_end_def)
  next
    case (Some d)
    then have "fixable True func d u" using fx by simp
    then obtain c l y r ps where pos: "rb_position d u [] = Some (Node c l d y r, ps)" and pl: "plug (Node c l d y r) ps = u"
      and fx: "aug func l" "aug func r" "\<forall>f \<in> set ps. near func (sibling f)"
      by (rule position_fixable [OF _ dist]) simp
    then have "aug func (rb_augment_path func (Node c l d y r) ps)" "rb_balanced (rb_augment_path func (Node c l d y r) ps)"
      "entries base (rb_augment_path func (Node c l d y r) ps) = entries base u"
      using augment_path_aug augment_path_entries u(3) by (simp_all add: augment_path_balanced)
    then show ?thesis using u(1) e Some pos by (simp add: rb_augment_erase_end_def)
  qed
qed

end

end
