(* ===== verification/Interval.thy ===== *)
theory Interval
  imports Rbtree_Augment "HOL-Library.Product_Lexorder"
begin

text \<open>
  The interval trees of \<^verbatim>\<open>bsr/bsr_interval.c\<close>: red-black trees of requests, ordered by start sector and address,
  where each node caches the highest end of its subtree.

  The node \<^verbatim>\<open>rb\<close> of a \<^verbatim>\<open>struct bsr_interval\<close> is the tree node, addresses are natural numbers, and the tree is the one
  below the \<^verbatim>\<open>rb_root\<close>.  Sectors are 64 bit words and sizes 32 bit words, as in the source.
\<close>

section \<open>The operations\<close>

record bsr_interval =
  i_sector :: u64
  i_size :: u32
  i_end :: u64
  i_local :: bool
  i_waiting :: bool
  i_completed :: bool

type_synonym rb_root = "(nat, bsr_interval) rb_tree"

fun interval_end :: "rb_root \<Rightarrow> u64" where
  "interval_end Tip = 0"
| "interval_end (Node c l p x r) = i_end x"

definition end_of :: "u64 \<Rightarrow> u32 \<Rightarrow> u64" where
  "end_of sector sz = sector + ucast (drop_bit 9 sz)"

definition update_interval_end :: "(nat, bsr_interval) rb_augment_f" where
  "update_interval_end l this r =
     (let e = end_of (i_sector this) (i_size this);
          e = (if l \<noteq> Tip \<and> e < interval_end l then interval_end l else e);
          e = (if r \<noteq> Tip \<and> e < interval_end r then interval_end r else e)
      in this\<lparr>i_end := e\<rparr>)"

definition IS_ALIGNED_512 :: "u32 \<Rightarrow> bool" where
  "IS_ALIGNED_512 sz \<longleftrightarrow> sz AND 511 = 0"

text \<open>The place of the new node; \<open>None\<close> when the node is found.\<close>

fun insert_place :: "nat \<Rightarrow> u64 \<Rightarrow> rb_root \<Rightarrow> (nat, bsr_interval) path \<Rightarrow> (nat, bsr_interval) path option" where
  "insert_place a sector Tip fs = Some fs"
| "insert_place a sector (Node c l p here r) fs =
     (if sector < i_sector here then insert_place a sector l (LF c p here r # fs)
      else if i_sector here < sector then insert_place a sector r (RF c l p here # fs)
      else if a < p then insert_place a sector l (LF c p here r # fs)
      else if p < a then insert_place a sector r (RF c l p here # fs)
      else None)"

definition bsr_insert_interval :: "rb_root \<Rightarrow> nat \<Rightarrow> bsr_interval \<Rightarrow> (bool \<times> rb_root) option" where
  "bsr_insert_interval root a this = do {
     BUG_ON (\<not> IS_ALIGNED_512 (i_size this));
     case insert_place a (i_sector this) root [] of
       None \<Rightarrow> Some (False, root)
     | Some fs \<Rightarrow> do {
         root \<leftarrow> rb_augment_insert update_interval_end a (rb_insert_color (Node RB_RED Tip a this Tip) fs);
         Some (True, root) } }"

fun bsr_contains_interval :: "rb_root \<Rightarrow> u64 \<Rightarrow> nat \<Rightarrow> bool" where
  "bsr_contains_interval Tip sector a = False"
| "bsr_contains_interval (Node c l p here r) sector a =
     (if sector < i_sector here then bsr_contains_interval l sector a
      else if i_sector here < sector then bsr_contains_interval r sector a
      else if a < p then bsr_contains_interval l sector a
      else if p < a then bsr_contains_interval r sector a
      else True)"

text \<open>\<open>no_node\<close> is \<^verbatim>\<open>bsr_interval_empty(this)\<close>; a node that is not empty is in the tree.\<close>

definition bsr_remove_interval :: "rb_root \<Rightarrow> bool \<Rightarrow> nat \<Rightarrow> rb_root option" where
  "bsr_remove_interval root no_node a =
     (if no_node then Some root
      else do {
        (node, fs) \<leftarrow> rb_position a root [];
        root \<leftarrow> rb_erase a root;
        rb_augment_erase_end update_interval_end (rb_augment_erase_begin node fs) root })"

fun find_overlap_loop :: "u64 \<Rightarrow> u64 \<Rightarrow> rb_root \<Rightarrow> nat option" where
  "find_overlap_loop sector e Tip = None"
| "find_overlap_loop sector e (Node c l p here r) =
     (if l \<noteq> Tip \<and> sector < interval_end l then find_overlap_loop sector e l
      else if i_sector here < e \<and> sector < end_of (i_sector here) (i_size here) then Some p
      else if i_sector here \<le> sector then find_overlap_loop sector e r
      else None)"

definition bsr_find_overlap :: "rb_root \<Rightarrow> u64 \<Rightarrow> u32 \<Rightarrow> nat option option" where
  "bsr_find_overlap root sector sz = do {
     BUG_ON (\<not> IS_ALIGNED_512 sz);
     Some (find_overlap_loop sector (end_of sector sz) root) }"

text \<open>The content of the node at an address.\<close>

definition rb_entry :: "rb_root \<Rightarrow> nat \<Rightarrow> bsr_interval option" where
  "rb_entry root a = map_of (inorder root) a"

text \<open>The loop of \<^verbatim>\<open>bsr_next_overlap\<close> over the following nodes; the outer \<open>None\<close> is a loop that does not end.\<close>

partial_function (option) bsr_next_overlap :: "rb_root \<Rightarrow> nat \<Rightarrow> u64 \<Rightarrow> u32 \<Rightarrow> nat option option" where
  "bsr_next_overlap root i sector sz =
     (case rb_next i root of
        None \<Rightarrow> Some None
      | Some j \<Rightarrow> do {
          this \<leftarrow> rb_entry root j;
          if end_of sector sz \<le> i_sector this then Some None
          else if sector < end_of (i_sector this) (i_size this) then Some (Some j)
          else bsr_next_overlap root j sector sz })"

text \<open>The nodes that \<^verbatim>\<open>bsr_for_each_overlap\<close> visits.\<close>

partial_function (option) overlaps_from :: "rb_root \<Rightarrow> nat option \<Rightarrow> u64 \<Rightarrow> u32 \<Rightarrow> nat list option" where
  "overlaps_from root i sector sz =
     (case i of
        None \<Rightarrow> Some []
      | Some i \<Rightarrow> do {
          j \<leftarrow> bsr_next_overlap root i sector sz;
          js \<leftarrow> overlaps_from root j sector sz;
          Some (i # js) })"

definition bsr_for_each_overlap :: "rb_root \<Rightarrow> u64 \<Rightarrow> u32 \<Rightarrow> nat list option" where
  "bsr_for_each_overlap root sector sz = do {
     i \<leftarrow> bsr_find_overlap root sector sz;
     overlaps_from root i sector sz }"

end
