(* ===== verification/Interval_Lemmas.thy ===== *)
theory Interval_Lemmas
  imports Interval
begin

text \<open>
  Interval trees are correct: insertion and removal keep a tree ordered, balanced and its cached ends up to date
  (\<open>iv_ok\<close>), the overlap search finds the first overlapping interval, and the loop over the overlaps visits all.
\<close>

section \<open>Well-formed interval trees\<close>

text \<open>\<open>no_wrap\<close>: the end of the interval does not exceed the sector type.\<close>

definition no_wrap :: "u64 \<Rightarrow> u32 \<Rightarrow> bool" where
  "no_wrap sector sz \<longleftrightarrow> sector \<le> end_of sector sz"

definition iv_key :: "nat \<times> u64 \<times> u32 \<Rightarrow> u64 \<times> nat" where
  "iv_key e = (fst (snd e), fst e)"

text \<open>The intervals of a tree: address, start sector and size.\<close>

abbreviation ivs :: "rb_root \<Rightarrow> (nat \<times> u64 \<times> u32) list" where
  "ivs t \<equiv> entries (\<lambda>x. (i_sector x, i_size x)) t"

definition iv_ok :: "rb_root \<Rightarrow> bool" where
  "iv_ok t \<longleftrightarrow> aug update_interval_end t \<and> rb_balanced t \<and> sorted_wrt (<) (map iv_key (ivs t)) \<and> distinct (map fst (ivs t)) \<and>
     (\<forall>(a, s, n) \<in> set (ivs t). no_wrap s n)"

definition overlaps :: "u64 \<Rightarrow> u32 \<Rightarrow> nat \<times> u64 \<times> u32 \<Rightarrow> bool" where
  "overlaps sector sz e = (case e of (a, s, n) \<Rightarrow>
     unat s < unat sector + unat sz div 512 \<and> unat sector < unat s + unat n div 512)"

interpretation iv: rb_augmentation update_interval_end "\<lambda>x. (i_sector x, i_size x)"
  by unfold_locales (simp_all add: update_interval_end_def Let_def)

lemma unat_end_of: "no_wrap s n \<Longrightarrow> unat (end_of s n) = unat s + unat n div 512"
proof -
  assume "no_wrap s n"
  have "unat n < 2 ^ 32" using unsigned_less [of n] by simp
  then have "unat (ucast (drop_bit 9 n) :: u64) = unat n div 512"
    by (simp add: unsigned_ucast_eq take_bit_eq_mod drop_bit_eq_div unat_div)
  then show ?thesis using \<open>no_wrap s n\<close> by (simp add: end_of_def no_wrap_def unat_plus_simple)
qed

lemma update_end: "i_end (update_interval_end l x r) =
   max (end_of (i_sector x) (i_size x)) (max (if l = Tip then 0 else interval_end l) (if r = Tip then 0 else interval_end r))"
  by (auto simp: update_interval_end_def Let_def max_def not_less)

lemma no_wrap_le: "no_wrap s n \<Longrightarrow> s \<le> end_of s n"
  by (simp add: no_wrap_def)

lemma interval_end_iff:
  assumes "aug update_interval_end t" "t \<noteq> Tip"
  shows "s < interval_end t \<longleftrightarrow> (\<exists>(a, u, n) \<in> set (ivs t). s < end_of u n)"
  using assms
proof (induction t)
  case (Node c l p x r)
  have "i_end x = i_end (update_interval_end l x r)" using Node.prems(1) by simp
  then have "s < i_end x \<longleftrightarrow> s < end_of (i_sector x) (i_size x) \<or> (l \<noteq> Tip \<and> s < interval_end l) \<or> (r \<noteq> Tip \<and> s < interval_end r)"
    unfolding update_end by (auto simp: less_max_iff_disj)
  moreover have "(l \<noteq> Tip \<and> s < interval_end l) = (\<exists>(a, u, n) \<in> set (ivs l). s < end_of u n)"
    using Node by (cases "l = Tip") (auto simp: entries_simps)
  moreover have "(r \<noteq> Tip \<and> s < interval_end r) = (\<exists>(a, u, n) \<in> set (ivs r). s < end_of u n)"
    using Node by (cases "r = Tip") (auto simp: entries_simps)
  ultimately show ?case by (auto simp: entries_simps)
qed simp

definition hits :: "u64 \<Rightarrow> u64 \<Rightarrow> nat \<times> u64 \<times> u32 \<Rightarrow> bool" where
  "hits sector e i = (case i of (a, s, n) \<Rightarrow> s < e \<and> sector < end_of s n)"

lemma hits_iff [simp]: "hits sector e (a, s, n) \<longleftrightarrow> s < e \<and> sector < end_of s n"
  by (simp add: hits_def)

lemma find_overlap_loop_find:
  assumes "aug update_interval_end t" "sorted (map (fst \<circ> snd) (ivs t))" "\<forall>(a, s, n) \<in> set (ivs t). no_wrap s n"
  shows "find_overlap_loop sector e t = map_option fst (find (hits sector e) (ivs t))"
  using assms
proof (induction t)
  case Tip
  then show ?case by (simp add: entries_simps)
next
  case (Node c l p x r)
  let ?h = "hits sector e"
  have IH: "find_overlap_loop sector e l = map_option fst (find ?h (ivs l))"
      "find_overlap_loop sector e r = map_option fst (find ?h (ivs r))"
    using Node by (auto simp: entries_simps sorted_append)
  have right: "i_sector x \<le> s" if "(a, s, n) \<in> set (ivs r)" for a s n
    using Node.prems(2) that by (force simp: entries_simps sorted_append)
  have left: "s \<le> i_sector x" "(b, u, m) \<in> set (ivs r) \<Longrightarrow> s \<le> u" if "(a, s, n) \<in> set (ivs l)" for a s n b u m
    using Node.prems(2) that by (force simp: entries_simps sorted_append)+
  have w: "i_sector x \<le> end_of (i_sector x) (i_size x)" using Node.prems(3) no_wrap_le by (simp add: entries_simps)
  have l_end: "l \<noteq> Tip \<and> sector < interval_end l \<longleftrightarrow> (\<exists>(a, s, n) \<in> set (ivs l). sector < end_of s n)"
    using interval_end_iff [of l sector] Node.prems(1) by (cases "l = Tip") (auto simp: entries_simps)
  show ?case
  proof (cases "l \<noteq> Tip \<and> sector < interval_end l")
    case True
    then obtain a s n where i: "(a, s, n) \<in> set (ivs l)" "sector < end_of s n" using l_end by blast
    show ?thesis
    proof (cases "find ?h (ivs l)")
      case None
      then have "e \<le> s" using i by (force simp: find_None_iff)
      then have "find ?h ((p, i_sector x, i_size x) # ivs r) = None"
        using left [OF i(1)] order_trans by (force simp: find_None_iff)
      then show ?thesis using True IH(1) None by (simp add: entries_simps find_append)
    next
      case (Some z)
      then show ?thesis using True IH(1) by (simp add: entries_simps find_append)
    qed
  next
    case False
    then have none: "find ?h (ivs l) = None" using l_end by (force simp: find_None_iff)
    show ?thesis
    proof (cases "i_sector x \<le> sector \<or> ?h (p, i_sector x, i_size x)")
      case True
      then show ?thesis using False none IH(2) by (auto simp: entries_simps find_append)
    next
      case nh: False
      then have "e \<le> i_sector x" using w by (force simp:)
      then have "find ?h (ivs r) = None" using right order_trans by (force simp: find_None_iff)
      then show ?thesis using False none nh by (auto simp: entries_simps find_append)
    qed
  qed
qed

lemma iv_okD:
  assumes "iv_ok t"
  shows "sorted (map (fst \<circ> snd) (ivs t))" "distinct (nodes t)" "aug update_interval_end t" "rb_balanced t"
    "\<forall>(a, s, n) \<in> set (ivs t). no_wrap s n" "sorted_wrt (<) (map iv_key (ivs t))"
proof -
  have "sorted_wrt (\<le>) (map (fst \<circ> iv_key) (ivs t))"
    using assms unfolding iv_ok_def sorted_wrt_map by (auto elim!: sorted_wrt_mono_rel [rotated] simp: iv_key_def)
  then show "sorted (map (fst \<circ> snd) (ivs t))" by (simp add: iv_key_def comp_def)
qed (use assms in \<open>auto simp: iv_ok_def entries_nodes\<close>)

abbreviation key_of :: "nat \<times> bsr_interval \<Rightarrow> u64 \<times> nat" where
  "key_of e \<equiv> (i_sector (snd e), fst e)"

lemma keys_inorder: "map iv_key (ivs t) = map key_of (inorder t)"
  by (simp add: entries_def iv_key_def case_prod_unfold)

lemma insert_place_Node:
  "insert_place a s (Node c l p here r) fs =
     (if (s, a) < (i_sector here, p) then insert_place a s l (LF c p here r # fs)
      else if (i_sector here, p) < (s, a) then insert_place a s r (RF c l p here # fs)
      else None)"
  by auto

lemma contains_Node:
  "bsr_contains_interval (Node c l p here r) s a =
     (if (s, a) < (i_sector here, p) then bsr_contains_interval l s a
      else if (i_sector here, p) < (s, a) then bsr_contains_interval r s a
      else True)"
  by auto

lemma sorted_Node:
  "sorted_wrt (<) (map key_of (inorder (Node c l p here r))) \<longleftrightarrow>
     sorted_wrt (<) (map key_of (inorder l)) \<and> sorted_wrt (<) (map key_of (inorder r)) \<and>
     (\<forall>e \<in> set (inorder l). key_of e < (i_sector here, p)) \<and> (\<forall>e \<in> set (inorder r). (i_sector here, p) < key_of e)"
  by (auto simp: sorted_wrt_append simp del: less_prod_simp intro: less_trans)

lemma insert_place_Some:
  assumes "insert_place a s t fs = Some gs" "sorted_wrt (<) (map key_of (inorder t))"
  shows "\<exists>ps. gs = ps @ fs \<and> plug Tip ps = t \<and> (\<forall>e \<in> set (before ps). key_of e < (s, a)) \<and> (\<forall>e \<in> set (after ps). (s, a) < key_of e)"
  using assms
proof (induction t arbitrary: fs)
  case (Node c l p here r)
  note srt = Node.prems(2) [unfolded sorted_Node]
  show ?case
  proof (cases "(s, a) < (i_sector here, p)")
    case True
    then obtain ps where "gs = ps @ LF c p here r # fs" "plug Tip ps = l" "\<forall>e \<in> set (before ps). key_of e < (s, a)"
        "\<forall>e \<in> set (after ps). (s, a) < key_of e"
      using Node.IH(1) [of "LF c p here r # fs"] Node.prems(1) srt unfolding insert_place_Node by auto
    then show ?thesis using True srt
      by (intro exI [of _ "ps @ [LF c p here r]"]) (auto simp: plug_append simp del: less_prod_simp intro: less_trans)
  next
    case False
    then have gt: "(i_sector here, p) < (s, a)" using Node.prems(1) unfolding insert_place_Node by (auto split: if_splits)
    then obtain ps where "gs = ps @ RF c l p here # fs" "plug Tip ps = r" "\<forall>e \<in> set (before ps). key_of e < (s, a)"
        "\<forall>e \<in> set (after ps). (s, a) < key_of e"
      using Node.IH(2) [of "RF c l p here # fs"] Node.prems(1) srt False unfolding insert_place_Node by auto
    then show ?thesis using gt srt
      by (intro exI [of _ "ps @ [RF c l p here]"]) (auto simp: plug_append simp del: less_prod_simp intro: less_trans)
  qed
qed simp

lemma insert_place_None:
  assumes "sorted_wrt (<) (map key_of (inorder t))"
  shows "insert_place a s t fs = None \<longleftrightarrow> (s, a) \<in> key_of ` set (inorder t)"
  using assms
proof (induction t arbitrary: fs)
  case (Node c l p here r)
  note srt = Node.prems [unfolded sorted_Node]
  have set: "key_of ` set (inorder (Node c l p here r)) = insert (i_sector here, p) (key_of ` set (inorder l) \<union> key_of ` set (inorder r))"
    by auto
  consider "(s, a) < (i_sector here, p)" | "(i_sector here, p) < (s, a)" | "(i_sector here, p) = (s, a)" using neq_iff by blast
  then show ?case
  proof cases
    case 1
    then have "(s, a) \<notin> key_of ` set (inorder r)" using srt by (auto simp del: less_prod_simp)
    then show ?thesis using 1 Node.IH(1) srt unfolding insert_place_Node set by (auto simp del: less_prod_simp)
  next
    case 2
    then have "(s, a) \<notin> key_of ` set (inorder l)" using srt by (auto simp del: less_prod_simp)
    then show ?thesis using 2 Node.IH(2) srt unfolding insert_place_Node set by (auto simp del: less_prod_simp)
  next
    case 3
    then show ?thesis unfolding insert_place_Node set by auto
  qed
qed simp

lemma contains_iff:
  assumes "sorted_wrt (<) (map key_of (inorder t))"
  shows "bsr_contains_interval t s a \<longleftrightarrow> (s, a) \<in> key_of ` set (inorder t)"
proof -
  have "bsr_contains_interval t s a \<longleftrightarrow> insert_place a s t fs = None" for fs
    by (induction t arbitrary: fs) (simp, simp only: contains_Node insert_place_Node split: if_split, blast)
  then show ?thesis using insert_place_None [OF assms] by simp
qed

lemma iv_ok_plug:
  assumes "plug Tip ps = t" "iv_ok t" "\<forall>e \<in> set (before ps). key_of e < (i_sector x, a)" "\<forall>e \<in> set (after ps). (i_sector x, a) < key_of e"
    and "no_wrap (i_sector x) (i_size x)" "a \<notin> set (nodes t)"
    and "aug update_interval_end u" "rb_balanced u" "ivs u = ivs (plug (Node RB_RED Tip a x Tip) ps)"
  shows "iv_ok u \<and> set (ivs u) = insert (a, i_sector x, i_size x) (set (ivs t))"
proof -
  have io: "inorder t = before ps @ after ps" using inorder_plug [of Tip ps] assms(1) by simp
  have ent: "ivs u = map (\<lambda>(p, x). (p, i_sector x, i_size x)) (before ps) @ (a, i_sector x, i_size x) #
      map (\<lambda>(p, x). (p, i_sector x, i_size x)) (after ps)"
    unfolding assms(9) by (simp add: entries_def inorder_plug)
  have ent_t: "ivs t = map (\<lambda>(p, x). (p, i_sector x, i_size x)) (before ps) @ map (\<lambda>(p, x). (p, i_sector x, i_size x)) (after ps)"
    by (simp add: entries_def io)
  have keys: "map iv_key (ivs u) = map key_of (before ps) @ (i_sector x, a) # map key_of (after ps)"
    unfolding ent by (simp add: iv_key_def case_prod_unfold)
  have "sorted_wrt (<) (map key_of (before ps @ after ps))" using iv_okD(6) [OF assms(2)] unfolding keys_inorder io .
  then have "sorted_wrt (<) (map iv_key (ivs u))"
    unfolding keys using assms(3,4) by (auto simp: sorted_wrt_append simp del: less_prod_simp intro: less_trans)
  moreover have "distinct (map fst (ivs u))"
    using iv_okD(2) [OF assms(2)] assms(6) unfolding ent io by (auto simp: case_prod_unfold comp_def)
  moreover have st: "set (ivs u) = insert (a, i_sector x, i_size x) (set (ivs t))" unfolding ent ent_t by auto
  ultimately show ?thesis using assms(5,7,8) iv_okD(5) [OF assms(2)] by (simp add: iv_ok_def)
qed

lemma iv_ok_insert:
  assumes "iv_ok t" "IS_ALIGNED_512 (i_size x)" "no_wrap (i_sector x) (i_size x)"
    and "\<forall>s n. (a, s, n) \<in> set (ivs t) \<longrightarrow> s = i_sector x"
  shows "\<exists>u. bsr_insert_interval t a x = Some (\<not> bsr_contains_interval t (i_sector x) a, u) \<and> iv_ok u \<and>
    (if bsr_contains_interval t (i_sector x) a then u = t
     else set (ivs u) = insert (a, i_sector x, i_size x) (set (ivs t)))"
proof -
  have srt: "sorted_wrt (<) (map key_of (inorder t))" using iv_okD(6) [OF assms(1)] unfolding keys_inorder .
  show ?thesis
  proof (cases "insert_place a (i_sector x) t []")
    case None
    then have "bsr_contains_interval t (i_sector x) a"
      using insert_place_None [OF srt, of a "i_sector x" "[]"] contains_iff [OF srt] by simp
    then show ?thesis using assms(1,2) None by (simp add: bsr_insert_interval_def)
  next
    case (Some ps)
    then have ps: "plug Tip ps = t" "\<forall>e \<in> set (before ps). key_of e < (i_sector x, a)" "\<forall>e \<in> set (after ps). (i_sector x, a) < key_of e"
      using insert_place_Some [OF Some srt] by auto
    have nc: "(i_sector x, a) \<notin> key_of ` set (inorder t)" using insert_place_None [OF srt, of a "i_sector x" "[]"] Some by simp
    have na: "a \<notin> set (nodes t)"
    proof
      assume "a \<in> set (nodes t)"
      then obtain y where y: "(a, y) \<in> set (inorder t)" by auto
      then have "(a, i_sector y, i_size y) \<in> set (ivs t)" by (force simp: entries_def)
      then show False using assms(4) y nc by force
    qed
    obtain u where u: "rb_augment_insert update_interval_end a (rb_insert_color (Node RB_RED Tip a x Tip) ps) = Some u"
      "aug update_interval_end u" "rb_balanced u" "ivs u = ivs (plug (Node RB_RED Tip a x Tip) ps)"
      using iv.insert_augmented [of ps a x] iv_okD [OF assms(1)] na unfolding ps(1) by blast
    from iv_ok_plug [OF ps(1) assms(1) ps(2,3) assms(3) na u(2,3,4)]
    show ?thesis using u(1) Some assms(2) contains_iff [OF srt] nc by (simp add: bsr_insert_interval_def)
  qed
qed

lemma iv_ok_remove:
  assumes "iv_ok t" "a \<in> fst ` set (ivs t)"
  shows "\<exists>u. bsr_remove_interval t False a = Some u \<and> iv_ok u \<and> ivs u = filter (\<lambda>e. fst e \<noteq> a) (ivs t) \<and>
    bsr_remove_interval t True a = Some t"
proof -
  have "a \<in> set (nodes t)" using assms(2) by (metis entries_nodes image_set)
  then obtain c l x r ps where pos: "rb_position a t [] = Some (Node c l a x r, ps)" by (rule rb_position_exists)
  note ok = iv_okD [OF assms(1)]
  from iv.erase_augmented [OF ok(3,4,2) pos] obtain u v where u: "rb_erase a t = Some u"
      "rb_augment_erase_end update_interval_end (rb_augment_erase_begin (Node c l a x r) ps) u = Some v"
      "aug update_interval_end v" "rb_balanced v" "ivs v = filter (\<lambda>e. fst e \<noteq> a) (ivs t)"
    by (auto simp: case_prod_unfold)
  have "sorted_wrt (<) (map iv_key (ivs v))" using ok(6) unfolding u(5) sorted_wrt_map by (rule sorted_wrt_filter)
  moreover have "distinct (map fst (ivs v))" using assms(1) unfolding u(5) iv_ok_def by (simp add: distinct_map_filter)
  ultimately have "iv_ok v" using u(3,4) ok(5) by (auto simp: iv_ok_def u(5))
  then show ?thesis using pos u by (simp add: bsr_remove_interval_def)
qed

text \<open>
  C10: Inserting an interval whose node is not in the tree at another sector keeps the tree well-formed:
  ordered, balanced, with every cached subtree end up to date.  It returns true and adds exactly the interval,
  or false and changes nothing if the node is in the tree.
\<close>

theorem interval_insert:
  assumes "iv_ok t" "IS_ALIGNED_512 (i_size x)" "no_wrap (i_sector x) (i_size x)"
    and "\<forall>s n. (a, s, n) \<in> set (ivs t) \<longrightarrow> s = i_sector x"
  shows "\<exists>u. bsr_insert_interval t a x = Some (\<not> bsr_contains_interval t (i_sector x) a, u) \<and> iv_ok u \<and>
    (if bsr_contains_interval t (i_sector x) a then u = t
     else set (ivs u) = insert (a, i_sector x, i_size x) (set (ivs t)))"
  using assms by (rule iv_ok_insert)

text \<open>
  C11: Removing an interval of the tree succeeds, keeps the tree well-formed and removes exactly that interval;
  an interval that is in no tree is ignored.
\<close>

theorem interval_remove:
  assumes "iv_ok t" "a \<in> fst ` set (ivs t)"
  shows "\<exists>u. bsr_remove_interval t False a = Some u \<and> iv_ok u \<and> ivs u = filter (\<lambda>e. fst e \<noteq> a) (ivs t) \<and>
    bsr_remove_interval t True a = Some t"
  using assms by (rule iv_ok_remove)

section \<open>Overlapping intervals\<close>

lemma hits_overlaps:
  assumes "no_wrap sector sz" "no_wrap s n"
  shows "hits sector (end_of sector sz) (a, s, n) \<longleftrightarrow> overlaps sector sz (a, s, n)"
  using assms by (simp add: overlaps_def word_less_nat_alt unat_end_of)

lemma filter_hits:
  assumes "iv_ok t" "no_wrap sector sz"
  shows "filter (hits sector (end_of sector sz)) (ivs t) = filter (overlaps sector sz) (ivs t)"
    "find (hits sector (end_of sector sz)) (ivs t) = find (overlaps sector sz) (ivs t)"
proof -
  have "hits sector (end_of sector sz) e = overlaps sector sz e" if "e \<in> set (ivs t)" for e
    using iv_okD(5) [OF assms(1)] that hits_overlaps [OF assms(2)] by (cases e) auto
  then show "filter (hits sector (end_of sector sz)) (ivs t) = filter (overlaps sector sz) (ivs t)"
    "find (hits sector (end_of sector sz)) (ivs t) = find (overlaps sector sz) (ivs t)"
    by (auto intro!: filter_cong find_cong)
qed

text \<open>
  C12: The search for an overlap returns the overlapping interval with the lowest start sector, and \<^verbatim>\<open>NULL\<close> exactly
  if no interval of the tree overlaps.
\<close>

theorem find_overlap_first:
  assumes "iv_ok t" "IS_ALIGNED_512 sz" "no_wrap sector sz"
  shows "bsr_find_overlap t sector sz = Some (map_option fst (find (overlaps sector sz) (ivs t)))"
  using assms find_overlap_loop_find [OF iv_okD(3,1,5) [OF assms(1)]] filter_hits(2) [OF assms(1,3)]
  by (simp add: bsr_find_overlap_def)

lemma rb_entry_inorder:
  assumes "distinct (nodes t)" "(a, x) \<in> set (inorder t)"
  shows "rb_entry t a = Some x"
  using assms by (simp add: rb_entry_def)

abbreviation iv_entry :: "nat \<times> bsr_interval \<Rightarrow> nat \<times> u64 \<times> u32" where
  "iv_entry e \<equiv> (fst e, i_sector (snd e), i_size (snd e))"

lemma next_overlap_find:
  assumes "distinct (nodes t)" "sorted (map (i_sector \<circ> snd) (inorder t))" "inorder t = xs @ (i, x) # ys"
  shows "bsr_next_overlap t i sector sz = Some (map_option fst (find (\<lambda>e. hits sector (end_of sector sz) (iv_entry e)) ys))"
  using assms(3)
proof (induction ys arbitrary: xs i x)
  case Nil
  then show ?case using rb_next_inorder [OF assms(1) Nil] by (simp add: bsr_next_overlap.simps)
next
  case (Cons e ys)
  obtain j y where e: "e = (j, y)" by (cases e)
  have nx: "rb_next i t = Some j" using rb_next_inorder [OF assms(1) Cons.prems] e by simp
  have en: "rb_entry t j = Some y" using rb_entry_inorder [OF assms(1), of j y] Cons.prems e by simp
  have "i_sector y \<le> i_sector (snd z)" if "z \<in> set ys" for z
    using assms(2) that unfolding Cons.prems e by (auto simp: sorted_append)
  then have late: "find (\<lambda>e. hits sector (end_of sector sz) (iv_entry e)) ys = None" if "end_of sector sz \<le> i_sector y"
    using that by (force simp: find_None_iff)
  have "inorder t = (xs @ [(i, x)]) @ (j, y) # ys" using Cons.prems e by simp
  note IH = Cons.IH [OF this]
  show ?case
  proof (cases "end_of sector sz \<le> i_sector y")
    case True
    then show ?thesis using late [OF True] by (subst bsr_next_overlap.simps) (simp add: nx en e leD)
  next
    case False
    then have "i_sector y < end_of sector sz" by simp
    then show ?thesis using False IH by (subst bsr_next_overlap.simps) (simp add: nx en e)
  qed
qed

lemma overlaps_from_filter:
  assumes "distinct (nodes t)" "sorted (map (i_sector \<circ> snd) (inorder t))" "inorder t = xs @ ys"
  shows "overlaps_from t (map_option fst (find (\<lambda>e. hits sector (end_of sector sz) (iv_entry e)) ys)) sector sz =
    Some (map fst (filter (\<lambda>e. hits sector (end_of sector sz) (iv_entry e)) ys))"
  using assms(3)
proof (induction ys arbitrary: xs)
  case Nil
  then show ?case by (simp add: overlaps_from.simps)
next
  case (Cons e ys)
  have IH: "overlaps_from t (map_option fst (find (\<lambda>e. hits sector (end_of sector sz) (iv_entry e)) ys)) sector sz =
      Some (map fst (filter (\<lambda>e. hits sector (end_of sector sz) (iv_entry e)) ys))"
    by (rule Cons.IH [of "xs @ [e]"]) (simp add: Cons.prems)
  obtain i x where e: "e = (i, x)" by (cases e)
  show ?case
  proof (cases "hits sector (end_of sector sz) (iv_entry e)")
    case True
    then show ?thesis using IH next_overlap_find [OF assms(1,2) Cons.prems [unfolded e]] e
      by (subst overlaps_from.simps) simp
  next
    case False
    then show ?thesis using IH by (simp del: hits_iff)
  qed
qed

text \<open>
  C13: The loop over the overlaps of a range ends and visits exactly the overlapping intervals, each once, in the
  order of their start sectors.
\<close>

theorem for_each_overlap:
  assumes "iv_ok t" "IS_ALIGNED_512 sz" "no_wrap sector sz"
  shows "bsr_for_each_overlap t sector sz = Some (map fst (filter (overlaps sector sz) (ivs t)))"
proof -
  let ?h = "hits sector (end_of sector sz)"
  have e: "ivs t = map iv_entry (inorder t)" by (simp add: entries_def case_prod_unfold)
  have srt: "sorted (map (i_sector \<circ> snd) (inorder t))" using iv_okD(1) [OF assms(1)] unfolding e by (simp add: comp_def)
  have "find_overlap_loop sector (end_of sector sz) t = map_option fst (find ?h (ivs t))"
    by (rule find_overlap_loop_find [OF iv_okD(3,1,5) [OF assms(1)]])
  also have "\<dots> = map_option fst (find (\<lambda>e. ?h (iv_entry e)) (inorder t))"
    unfolding e find_map by (simp add: option.map_comp comp_def)
  finally have "bsr_for_each_overlap t sector sz = Some (map fst (filter (\<lambda>e. ?h (iv_entry e)) (inorder t)))"
    using assms(2) overlaps_from_filter [OF iv_okD(2) [OF assms(1)] srt, of "[]"]
    by (simp add: bsr_for_each_overlap_def bsr_find_overlap_def)
  also have "\<dots> = Some (map fst (filter ?h (ivs t)))" unfolding e filter_map by (simp add: comp_def)
  finally show ?thesis using filter_hits(1) [OF assms(1,3)] by simp
qed

section \<open>All trees\<close>

text \<open>The trees that insertions and removals make of the empty tree.\<close>

inductive iv_reach :: "rb_root \<Rightarrow> bool" where
  reach_empty: "iv_reach Tip"
| reach_insert: "iv_reach t \<Longrightarrow> no_wrap (i_sector x) (i_size x) \<Longrightarrow> \<forall>s n. (a, s, n) \<in> set (ivs t) \<longrightarrow> s = i_sector x \<Longrightarrow>
    bsr_insert_interval t a x = Some (ok, u) \<Longrightarrow> iv_reach u"
| reach_remove: "iv_reach t \<Longrightarrow> no_node \<or> a \<in> fst ` set (ivs t) \<Longrightarrow> bsr_remove_interval t no_node a = Some u \<Longrightarrow> iv_reach u"

definition ex_iv :: "u64 \<Rightarrow> u32 \<Rightarrow> bsr_interval" where
  "ex_iv s n = \<lparr>i_sector = s, i_size = n, i_end = 0, i_local = True, i_waiting = False, i_completed = False\<rparr>"

definition ex_insert :: "nat \<Rightarrow> bsr_interval \<Rightarrow> rb_root \<Rightarrow> rb_root" where
  "ex_insert a x t = (case bsr_insert_interval t a x of Some (_, u) \<Rightarrow> u | None \<Rightarrow> t)"

definition ex_tree :: rb_root where
  "ex_tree = ex_insert 3 (ex_iv 104 8192) (ex_insert 2 (ex_iv 200 512) (ex_insert 1 (ex_iv 100 4096) Tip))"

lemma ex_tree_ok: "iv_ok ex_tree"
  by code_simp

lemma ex_tree_ivs: "ivs ex_tree = [(1, 100, 4096), (3, 104, 8192), (2, 200, 512)]"
  by code_simp

declare bsr_next_overlap.simps [code] overlaps_from.simps [code]

theorem interval_insert_witness:
  "\<exists>u. bsr_insert_interval ex_tree 7 (ex_iv 104 512) = Some (True, u) \<and> iv_ok u \<and> (7, 104, 512) \<in> set (ivs u)"
proof -
  have "IS_ALIGNED_512 (i_size (ex_iv 104 512))" "no_wrap (i_sector (ex_iv 104 512)) (i_size (ex_iv 104 512))"
    "\<not> bsr_contains_interval ex_tree (i_sector (ex_iv 104 512)) 7" "7 \<notin> fst ` set (ivs ex_tree)"
    "i_sector (ex_iv 104 512) = 104" "i_size (ex_iv 104 512) = 512" by code_simp+
  then show ?thesis using interval_insert [OF ex_tree_ok, of "ex_iv 104 512" 7] by force
qed

theorem interval_remove_witness:
  "\<exists>u. bsr_remove_interval ex_tree False 3 = Some u \<and> iv_ok u \<and> ivs u = [(1, 100, 4096), (2, 200, 512)]"
proof -
  have "3 \<in> fst ` set (ivs ex_tree)" "filter (\<lambda>e. fst e \<noteq> 3) (ivs ex_tree) = [(1, 100, 4096), (2, 200, 512)]" by code_simp+
  then show ?thesis using interval_remove [OF ex_tree_ok, of 3] by auto
qed

theorem find_overlap_first_witness:
  "bsr_find_overlap ex_tree 106 1024 = Some (Some 1) \<and> bsr_find_overlap ex_tree 130 1024 = Some None"
proof -
  have "IS_ALIGNED_512 1024" "no_wrap 106 1024" "no_wrap 130 1024" by code_simp+
  moreover have "find (overlaps 106 1024) (ivs ex_tree) = Some (1, 100, 4096)" "find (overlaps 130 1024) (ivs ex_tree) = None"
    by (simp_all add: ex_tree_ivs overlaps_def)
  ultimately show ?thesis using find_overlap_first [OF ex_tree_ok, of 1024 106] find_overlap_first [OF ex_tree_ok, of 1024 130] by simp
qed

theorem for_each_overlap_witness: "bsr_for_each_overlap ex_tree 106 1024 = Some [1, 3]"
proof -
  have "IS_ALIGNED_512 1024" "no_wrap 106 1024" by code_simp+
  moreover have "map fst (filter (overlaps 106 1024) (ivs ex_tree)) = [1, 3]" by (simp add: ex_tree_ivs overlaps_def)
  ultimately show ?thesis using for_each_overlap [OF ex_tree_ok, of 1024 106] by simp
qed

text \<open>
  C14: The trees stay balanced: after any insertions and removals the height of a tree of \<open>n\<close> intervals is at
  most \<open>2 * log2 (n + 1) + 1\<close>, so every search takes logarithmic time.
\<close>

theorem interval_tree_height:
  assumes "iv_reach t"
  shows "2 ^ (height t div 2) \<le> length (ivs t) + 1"
proof -
  have "iv_ok t" using assms
  proof induction
    case reach_empty
    show ?case by (simp add: iv_ok_def entries_simps rb_balanced_def)
  next
    case (reach_insert t x a ok u)
    then show ?case using iv_ok_insert [of t x a] by (auto simp: bsr_insert_interval_def split: if_splits)
  next
    case (reach_remove t no_node a u)
    then show ?case using iv_ok_remove [of t a] by (cases no_node) (auto simp: bsr_remove_interval_def)
  qed
  then show ?thesis using balanced_height [OF iv_okD(4)] by (simp add: entries_def)
qed

lemma ex_insert_reach:
  assumes "iv_reach t" "no_wrap (i_sector x) (i_size x)" "a \<notin> fst ` set (ivs t)"
  shows "iv_reach (ex_insert a x t)"
proof (cases "bsr_insert_interval t a x")
  case (Some z)
  then obtain ok u where z: "bsr_insert_interval t a x = Some (ok, u)" by (cases z) simp
  have "iv_reach u" by (rule reach_insert [OF assms(1,2) _ z]) (use assms(3) in force)
  then show ?thesis using z by (simp add: ex_insert_def)
qed (use assms in \<open>simp add: ex_insert_def\<close>)

theorem interval_tree_height_witness: "2 ^ (height ex_tree div 2) \<le> length (ivs ex_tree) + 1 \<and> length (ivs ex_tree) = 3"
proof
  have "iv_reach ex_tree" unfolding ex_tree_def by (intro ex_insert_reach reach_empty; code_simp)
  then show "2 ^ (height ex_tree div 2) \<le> length (ivs ex_tree) + 1" by (rule interval_tree_height)
qed code_simp

text \<open>A removal can leave a red root: the subtree that takes the place of a black root keeps its colour.\<close>

lemma erase_leaves_red_root:
  "rb_balanced (Node RB_BLACK Tip (1::nat) () (Node RB_RED Tip 2 () Tip)) \<and>
   rb_erase 1 (Node RB_BLACK Tip (1::nat) () (Node RB_RED Tip 2 () Tip)) = Some (Node RB_RED Tip 2 () Tip)"
  by (simp add: rb_balanced_def rb_erase_def erase_at_def rb_erase_color0_def) (rule exI [of _ 1], simp)

end
