(* ===== verification/Bm_Xfer.thy ===== *)
theory Bm_Xfer
  imports Vli State_Types
begin

text \<open>
  The exchange of the bitmap between two nodes: \<^verbatim>\<open>fill_bitmap_rle_bits\<close>, \<^verbatim>\<open>send_bitmap_rle_or_plain\<close> and
  \<^verbatim>\<open>_bsr_send_bitmap\<close> of \<^verbatim>\<open>bsr/bsr_main.c\<close> on the sending side, \<^verbatim>\<open>receive_bitmap_plain\<close>, \<^verbatim>\<open>recv_bm_rle_bits\<close>, \<^verbatim>\<open>decode_bitmap_c\<close>
  and \<^verbatim>\<open>receive_bitmap\<close> of \<^verbatim>\<open>bsr/bsr_receiver.c\<close> on the receiving side.

  The two sides use the bitmap through the operations of \<open>bm_ops\<close> only, which are an argument here; the
  theory \<open>Bm_Xfer_Bitmap\<close> gives them the operations of \<^verbatim>\<open>bsr/bsr_bitmap.c\<close>.  Offsets are natural
  numbers, and where the receiver adds a run length that the peer sent, the wrap-around of \<^verbatim>\<open>ULONG_PTR\<close> is
  written out.  Failures of memory and of the transport are inputs.
\<close>

section \<open>The bitmap as the transfer sees it\<close>

record 'b bm_ops =
  op_bits :: "'b \<Rightarrow> nat"
  op_words :: "'b \<Rightarrow> nat"
  op_range_find_next :: "nat \<Rightarrow> nat \<Rightarrow> 'b \<Rightarrow> nat option"
  op_range_find_next_zero :: "nat \<Rightarrow> nat \<Rightarrow> 'b \<Rightarrow> nat option"
  op_set_out_of_sync :: "nat \<Rightarrow> nat \<Rightarrow> 'b \<Rightarrow> 'b option"
  op_set_many_bits :: "nat \<Rightarrow> nat \<Rightarrow> 'b \<Rightarrow> 'b option"
  op_get_lel :: "nat \<Rightarrow> nat \<Rightarrow> 'b \<Rightarrow> u32 list option"
  op_merge_lel :: "nat \<Rightarrow> nat \<Rightarrow> u32 list \<Rightarrow> 'b \<Rightarrow> 'b option"

section \<open>The transfer context and the packets\<close>

text \<open>The statistics arrays have index 0 for compressed and 1 for plain packets.\<close>

record bm_xfer_ctx =
  c_bits :: nat
  c_words :: nat
  c_bit_offset :: nat
  c_word_offset :: nat
  c_packets :: "u32 list"
  c_bytes :: "u32 list"
  c_count :: nat

definition bm_xfer_ctx0 :: bm_xfer_ctx where
  "bm_xfer_ctx0 = \<lparr>c_bits = 0, c_words = 0, c_bit_offset = 0, c_word_offset = 0, c_packets = [0, 0], c_bytes = [0, 0],
     c_count = 0\<rparr>"

definition bm_xfer_ctx_bit_to_word_offset :: "bm_xfer_ctx \<Rightarrow> bm_xfer_ctx" where
  "bm_xfer_ctx_bit_to_word_offset c = c\<lparr>c_word_offset := c_bit_offset c div 64\<rparr>"

definition xfer_stats :: "nat \<Rightarrow> nat \<Rightarrow> bm_xfer_ctx \<Rightarrow> bm_xfer_ctx" where
  "xfer_stats i n c =
     c\<lparr>c_packets := (c_packets c)[i := c_packets c ! i + 1], c_bytes := (c_bytes c)[i := c_bytes c ! i + of_nat n]\<rparr>"

record p_compressed_bm =
  encoding :: u8
  code_bytes :: "u8 list"

datatype bm_packet = P_BITMAP "u8 list" | P_COMPRESSED_BITMAP p_compressed_bm

fun packet_size :: "bm_packet \<Rightarrow> nat" where
  "packet_size (P_BITMAP bytes) = length bytes"
| "packet_size (P_COMPRESSED_BITMAP p) = 1 + length (code_bytes p)"

definition bsr_header_size :: "nat \<Rightarrow> nat" where
  "bsr_header_size agreed_pro_version = (if 100 \<le> agreed_pro_version then 16 else 8)"

definition BSR_SOCKET_BUFFER_SIZE :: nat where "BSR_SOCKET_BUFFER_SIZE = 4096"

definition RLE_VLI_Bits :: u8 where "RLE_VLI_Bits = 2"

definition dcbp_set_code :: "u8 \<Rightarrow> p_compressed_bm \<Rightarrow> p_compressed_bm option" where
  "dcbp_set_code c p = do {
     BUG_ON (c AND NOT 0xf \<noteq> 0);
     Some (p\<lparr>encoding := encoding p AND NOT 0xf OR c\<rparr>) }"

definition dcbp_set_start :: "bool \<Rightarrow> p_compressed_bm \<Rightarrow> p_compressed_bm" where
  "dcbp_set_start s p = p\<lparr>encoding := encoding p AND NOT 0x80 OR (if s then 0x80 else 0)\<rparr>"

definition dcbp_set_pad_bits :: "nat \<Rightarrow> p_compressed_bm \<Rightarrow> p_compressed_bm option" where
  "dcbp_set_pad_bits n p = do {
     BUG_ON (7 < n);
     Some (p\<lparr>encoding := encoding p AND push_bit 4 (NOT 7) OR push_bit 4 (of_nat n)\<rparr>) }"

definition dcbp_get_code :: "p_compressed_bm \<Rightarrow> u8" where
  "dcbp_get_code p = encoding p AND 0xf"

definition dcbp_get_start :: "p_compressed_bm \<Rightarrow> bool" where
  "dcbp_get_start p \<longleftrightarrow> encoding p AND 0x80 \<noteq> 0"

definition dcbp_get_pad_bits :: "p_compressed_bm \<Rightarrow> nat" where
  "dcbp_get_pad_bits p = unat (drop_bit 4 (encoding p) AND 7)"

text \<open>Little endian 32 bit words in a byte buffer.\<close>

fun le32_bytes :: "u32 list \<Rightarrow> u8 list" where
  "le32_bytes [] = []"
| "le32_bytes (w # ws) = ucast w # ucast (drop_bit 8 w) # ucast (drop_bit 16 w) # ucast (drop_bit 24 w) # le32_bytes ws"

fun le32_words :: "u8 list \<Rightarrow> u32 list" where
  "le32_words (a # b # c # d # bs) =
     (ucast a OR push_bit 8 (ucast b) OR push_bit 16 (ucast c) OR push_bit 24 (ucast d)) # le32_words bs"
| "le32_words _ = []"

section \<open>The sender\<close>

text \<open>
  The search for the end of the run at \<open>offset\<close>: searches of at most \<^verbatim>\<open>RANGE_FIND_NEXT_BIT\<close> bits, one after the
  other, so that the bitmap lock is not held for long.  The result has the offset of the last search.
\<close>

definition RANGE_FIND_NEXT_BIT :: nat where "RANGE_FIND_NEXT_BIT = 25000000"

function run_end :: "(nat \<Rightarrow> nat \<Rightarrow> nat option) \<Rightarrow> nat \<Rightarrow> nat \<Rightarrow> (nat \<times> nat) option" where
  "run_end find_next bits offset =
     (case find_next offset (offset + RANGE_FIND_NEXT_BIT) of
        None \<Rightarrow> None
      | Some tmp \<Rightarrow>
          if bits \<le> tmp \<or> tmp < offset + RANGE_FIND_NEXT_BIT + 1 then Some (offset, tmp)
          else run_end find_next bits tmp)"
  by pat_completeness auto
termination by (relation "measure (\<lambda>(find_next, bits, offset). bits - offset)") auto

declare run_end.simps [simp del]

text \<open>
  How the loop over the runs is left: with a packet that may be sent, because a run has no code, or
  because a run had the length zero.
\<close>

datatype fill_exit = Filled | Encode_error | Zero_run

text \<open>
  The loop over the runs.  \<open>toggle\<close> is as in the code: 2 in the first iteration, 0 in a run of set bits, 1 in
  a run of zero bits.  \<open>offset\<close> is \<^verbatim>\<open>c->bit_offset\<close>.  A run of length zero is possible only when the
  bitmap is modified during the scan; a missing set bit is then set again.
\<close>

partial_function (option) fill_loop ::
  "'b bm_ops \<Rightarrow> nat \<Rightarrow> nat \<Rightarrow> p_compressed_bm \<Rightarrow> bitstream \<Rightarrow> nat \<Rightarrow> nat \<Rightarrow> 'b \<Rightarrow>
   (fill_exit \<times> p_compressed_bm \<times> bitstream \<times> nat \<times> nat \<times> 'b) option" where
  "fill_loop ops bits toggle p bs offset plain bm =
     (if bits \<le> offset then Some (Filled, p, bs, offset, plain, bm)
      else do {
        (off, tmp) \<leftarrow> run_end (\<lambda>s e. if toggle = 0 then op_range_find_next_zero ops s e bm
                                   else op_range_find_next ops s e bm) bits offset;
        let tmp = min tmp bits;
        let rl = tmp - offset;
        if toggle = 2 \<and> rl = 0 then fill_loop ops bits 0 (dcbp_set_start True p) bs offset plain bm
        else do {
          let p = (if toggle = 2 then dcbp_set_start False p else p);
          if rl = 0 then
            (if toggle = 0 then do {
               bm \<leftarrow> op_set_out_of_sync ops off off bm;
               fill_loop ops bits toggle p bs offset plain bm }
             else Some (Zero_run, p, bs, offset, plain, bm))
          else
            (case vli_encode_bits bs (of_nat rl) of
               Inl e \<Rightarrow> Some (if e = ENOBUFS then Filled else Encode_error, p, bs, offset, plain, bm)
             | Inr (n, bs) \<Rightarrow> fill_loop ops bits (if toggle = 0 then 1 else 0) p bs tmp (plain + rl) bm) } })"

declare fill_loop.simps [code]

text \<open>The bytes that the code takes, the last of which may be incomplete.\<close>

definition code_length :: "bitstream \<Rightarrow> nat" where
  "code_length bs = cur_b bs + (if cur_bit bs = 0 then 0 else 1)"

text \<open>
  \<^verbatim>\<open>fill_bitmap_rle_bits\<close>: \<open>sz\<close> bytes of code at most.  The length zero means that the plain bitmap has to be
  sent, and the length -1 that the bitmap cannot be sent.
\<close>

definition fill_bitmap_rle_bits ::
  "'b bm_ops \<Rightarrow> bool \<Rightarrow> nat \<Rightarrow> p_compressed_bm \<Rightarrow> nat \<Rightarrow> bm_xfer_ctx \<Rightarrow> 'b \<Rightarrow> (int \<times> p_compressed_bm \<times> bm_xfer_ctx \<times> 'b) option" where
  "fill_bitmap_rle_bits ops use_rle pro_version p sz c bm =
     (if \<not> use_rle \<or> pro_version < 90 then Some (0, p, c, bm)
      else if c_bits c \<le> c_bit_offset c then Some (0, p, c, bm)
      else do {
        (ex, p, bs, offset, plain, bm) \<leftarrow>
          fill_loop ops (c_bits c) 2 p (bitstream_init (replicate sz 0) 0) (c_bit_offset c) 0 bm;
        let p = p\<lparr>code_bytes := buf bs\<rparr>;
        let c = c\<lparr>c_bit_offset := offset\<rparr>;
        case ex of
          Zero_run \<Rightarrow> Some (-1, p, c, bm)
        | Encode_error \<Rightarrow> Some (0, p, c, bm)
        | Filled \<Rightarrow> do {
            let len = code_length bs;
            BUG_ON (2 ^ 32 - 1 < len);
            if plain < 8 * len then do {
              let c = bm_xfer_ctx_bit_to_word_offset (c\<lparr>c_bit_offset := offset - plain\<rparr>);
              Some (0, p, c\<lparr>c_bit_offset := c_word_offset c * 64\<rparr>, bm) }
            else do {
              p \<leftarrow> dcbp_set_pad_bits ((8 - cur_bit bs) mod 8) p;
              Some (int len, p, bm_xfer_ctx_bit_to_word_offset c, bm) } } })"

text \<open>What can fail on the way of a packet to the peer: the allocations and the transport.\<close>

record send_env =
  mem_ok :: bool
  send_buffer_ok :: bool
  wire_ok :: bool

text \<open>
  The two packets of \<^verbatim>\<open>send_bitmap_rle_or_plain\<close>.  A plain packet starts out with what the compression left in the
  buffer; the words of the bitmap then overwrite it.
\<close>

definition code_space :: "nat \<Rightarrow> nat" where
  "code_space pro_version = BSR_SOCKET_BUFFER_SIZE - bsr_header_size pro_version - 1"

definition send_rle_packet ::
  "nat \<Rightarrow> send_env \<Rightarrow> nat \<Rightarrow> p_compressed_bm \<Rightarrow> bm_xfer_ctx \<Rightarrow> ((errno + nat) \<times> bm_packet list \<times> bm_xfer_ctx) option" where
  "send_rle_packet pro_version env len p c = do {
     p \<leftarrow> dcbp_set_code RLE_VLI_Bits p;
     let c = xfer_stats 0 (bsr_header_size pro_version + 1 + len) c;
     Some (if wire_ok env then Inr (if c_bits c \<le> c_bit_offset c then 0 else 1) else Inl EIO,
       [P_COMPRESSED_BITMAP (p\<lparr>code_bytes := take len (code_bytes p)\<rparr>)], c) }"

text \<open>
  The words of a plain packet, and the offsets after it.  The receiver's offsets come from the peer, so the
  wrap-around of \<^verbatim>\<open>ULONG_PTR\<close> is written out.
\<close>

definition plain_words :: "nat \<Rightarrow> bm_xfer_ctx \<Rightarrow> nat" where
  "plain_words pro_version c =
     min ((BSR_SOCKET_BUFFER_SIZE - bsr_header_size pro_version) div 8) ((2 ^ 64 + c_words c - c_word_offset c) mod 2 ^ 64)"

definition pass_words :: "nat \<Rightarrow> bm_xfer_ctx \<Rightarrow> bm_xfer_ctx" where
  "pass_words num_words c =
     (let w = (c_word_offset c + num_words) mod 2 ^ 64
      in c\<lparr>c_word_offset := w, c_bit_offset := min (w * 64 mod 2 ^ 64) (c_bits c)\<rparr>)"

definition send_plain_packet ::
  "'b bm_ops \<Rightarrow> nat \<Rightarrow> send_env \<Rightarrow> p_compressed_bm \<Rightarrow> bm_xfer_ctx \<Rightarrow> 'b \<Rightarrow> ((errno + nat) \<times> bm_packet list \<times> bm_xfer_ctx) option" where
  "send_plain_packet ops pro_version env p c bm = do {
     let num_words = plain_words pro_version c;
     let len = num_words * 8;
     out \<leftarrow> (if len \<noteq> 0 then op_get_lel ops (c_word_offset c) num_words bm else Some []);
     Some (if wire_ok env then Inr (if len = 0 then 0 else 1) else Inl EIO,
       [P_BITMAP (take len (le32_bytes out @ drop (length (le32_bytes out)) (encoding p # code_bytes p)))],
       xfer_stats 1 (bsr_header_size pro_version + len) (pass_words num_words c)) }"

text \<open>\<^verbatim>\<open>send_bitmap_rle_or_plain\<close>: 0 when done, 1 when another iteration is needed, and the packet.\<close>

definition send_bitmap_rle_or_plain ::
  "'b bm_ops \<Rightarrow> bool \<Rightarrow> nat \<Rightarrow> send_env \<Rightarrow> bm_xfer_ctx \<Rightarrow> 'b \<Rightarrow> ((errno + nat) \<times> bm_packet list \<times> bm_xfer_ctx \<times> 'b) option" where
  "send_bitmap_rle_or_plain ops use_rle pro_version env c bm =
     (if \<not> mem_ok env then Some (Inl ENOMEM, [], c, bm)
      else do {
        (len, p, c, bm) \<leftarrow>
          fill_bitmap_rle_bits ops use_rle pro_version \<lparr>encoding = 0, code_bytes = replicate (code_space pro_version) 0\<rparr>
            (code_space pro_version) c bm;
        if len < 0 \<or> \<not> send_buffer_ok env then Some (Inl EIO, [], c, bm)
        else do {
          (r, pkts, c) \<leftarrow> (if len \<noteq> 0 then send_rle_packet pro_version env (nat len) p c
                           else send_plain_packet ops pro_version env p c bm);
          Some (r, pkts, c, bm) } })"

text \<open>
  The loop of \<^verbatim>\<open>_bsr_send_bitmap\<close>, with the environment of each iteration and the packets sent.
\<close>

partial_function (option) send_bitmap_loop ::
  "'b bm_ops \<Rightarrow> bool \<Rightarrow> nat \<Rightarrow> (nat \<Rightarrow> send_env) \<Rightarrow> nat \<Rightarrow> bm_xfer_ctx \<Rightarrow> 'b \<Rightarrow>
   ((errno + nat) \<times> bm_packet list \<times> bm_xfer_ctx \<times> 'b) option" where
  "send_bitmap_loop ops use_rle pro_version env i c bm = do {
     (r, pkts, c, bm) \<leftarrow> send_bitmap_rle_or_plain ops use_rle pro_version (env i) c bm;
     if r = Inr 1 then do {
       (r, pkts', c, bm) \<leftarrow> send_bitmap_loop ops use_rle pro_version env (i + 1) c bm;
       Some (r, pkts @ pkts', c, bm) }
     else Some (r, pkts, c, bm) }"

declare send_bitmap_loop.simps [code]

definition BSR_END_OF_BM :: nat where "BSR_END_OF_BM = 2 ^ 64 - 1"

text \<open>
  \<^verbatim>\<open>_bsr_send_bitmap\<close> with the \<^verbatim>\<open>MDF_PEER_FULL_SYNC\<close> flag of the peer, which is cleared when the bitmap with all
  bits set has reached the disk.  The result is whether the bitmap was sent.
\<close>

definition bsr_send_bitmap0 ::
  "'b bm_ops \<Rightarrow> bool \<Rightarrow> nat \<Rightarrow> (nat \<Rightarrow> send_env) \<Rightarrow> bool \<Rightarrow> bool \<Rightarrow> bool \<Rightarrow> 'b \<Rightarrow>
   (bool \<times> bm_packet list \<times> bool \<times> 'b) option" where
  "bsr_send_bitmap0 ops use_rle pro_version env ldev write_ok full_sync bm = do {
     bm \<leftarrow> (if ldev \<and> full_sync then op_set_many_bits ops 0 BSR_END_OF_BM bm else Some bm);
     let full_sync = (full_sync \<and> \<not> (ldev \<and> write_ok));
     let c = bm_xfer_ctx0\<lparr>c_bits := op_bits ops bm, c_words := op_words ops bm\<rparr>;
     (r, pkts, c, bm) \<leftarrow> send_bitmap_loop ops use_rle pro_version env 0 c bm;
     Some (r = Inr 0, pkts, full_sync, bm) }"

section \<open>The receiver\<close>

text \<open>
  The loop over the codes: \<open>look\<close> holds the next \<open>have\<close> bits of the stream.  The outer \<open>None\<close> is a loop that does
  not end, or an access outside the buffer.
\<close>

partial_function (option) recv_loop ::
  "'b bm_ops \<Rightarrow> nat \<Rightarrow> bitstream \<Rightarrow> u64 \<Rightarrow> nat \<Rightarrow> nat \<Rightarrow> bool \<Rightarrow> 'b \<Rightarrow> ((errno + nat) \<times> 'b) option" where
  "recv_loop ops bits bs look have s toggle bm =
     (if have = 0 then Some (Inr s, bm)
      else do {
        (n, rl) \<leftarrow> vli_decode_bits look;
        if n = 0 then Some (Inl EIO, bm)
        else do {
          let e = (s + unat rl + (2 ^ 64 - 1)) mod 2 ^ 64;
          if toggle \<and> bits \<le> e then Some (Inl EIO, bm)
          else do {
            bm \<leftarrow> (if toggle then op_set_many_bits ops s e bm else Some bm);
            if have < n then Some (Inl EIO, bm)
            else do {
              let look = (if n < 64 then drop_bit n look else 0);
              let have = have - n;
              r \<leftarrow> bitstream_get_bits bs (64 - have);
              case r of
                Inl e \<Rightarrow> Some (Inl EIO, bm)
              | Inr (m, tmp, bs) \<Rightarrow>
                  recv_loop ops bits bs (look OR push_bit have tmp) (have + m) ((s + unat rl) mod 2 ^ 64) (\<not> toggle) bm } } } })"

declare recv_loop.simps [code]

text \<open>The result: 0 when done, 1 when another packet is needed.\<close>

definition recv_bm_rle_bits ::
  "'b bm_ops \<Rightarrow> p_compressed_bm \<Rightarrow> bm_xfer_ctx \<Rightarrow> nat \<Rightarrow> 'b \<Rightarrow> ((errno + nat) \<times> bm_xfer_ctx \<times> 'b) option" where
  "recv_bm_rle_bits ops p c len bm = do {
     r \<leftarrow> bitstream_get_bits (bitstream_init (take len (code_bytes p)) (dcbp_get_pad_bits p)) 64;
     case r of
       Inl e \<Rightarrow> Some (Inl EIO, c, bm)
     | Inr (have, look, bs) \<Rightarrow> do {
         (r, bm) \<leftarrow> recv_loop ops (c_bits c) bs look have (c_bit_offset c) (dcbp_get_start p) bm;
         case r of
           Inl e \<Rightarrow> Some (Inl e, c, bm)
         | Inr s \<Rightarrow>
             Some (Inr (if s \<noteq> c_bits c then 1 else 0), bm_xfer_ctx_bit_to_word_offset (c\<lparr>c_bit_offset := s\<rparr>), bm) } }"

text \<open>An unknown encoding also ends the connection with \<^verbatim>\<open>C_PROTOCOL_ERROR\<close>.\<close>

definition decode_bitmap_c ::
  "'b bm_ops \<Rightarrow> p_compressed_bm \<Rightarrow> bm_xfer_ctx \<Rightarrow> nat \<Rightarrow> 'b \<Rightarrow> ((errno + nat) \<times> bm_xfer_ctx \<times> 'b) option" where
  "decode_bitmap_c ops p c len bm =
     (if dcbp_get_code p = RLE_VLI_Bits then recv_bm_rle_bits ops p c (len - 1) bm
      else Some (Inl EIO, c, bm))"

text \<open>\<^verbatim>\<open>recv_ok\<close> is whether the payload of the packet arrives.\<close>

definition receive_bitmap_plain ::
  "'b bm_ops \<Rightarrow> nat \<Rightarrow> bool \<Rightarrow> u8 list \<Rightarrow> bm_xfer_ctx \<Rightarrow> 'b \<Rightarrow> ((errno + nat) \<times> bm_xfer_ctx \<times> 'b) option" where
  "receive_bitmap_plain ops pro_version recv_ok bytes c bm =
     (let num_words = plain_words pro_version c; want = num_words * 8
      in if want \<noteq> length bytes then Some (Inl EIO, c, bm)
         else if want = 0 then Some (Inr 0, c, bm)
         else if \<not> recv_ok then Some (Inl EIO, c, bm)
         else do {
           bm \<leftarrow> op_merge_lel ops (c_word_offset c) num_words (le32_words bytes) bm;
           Some (Inr 1, pass_words num_words c, bm) })"

text \<open>
  What the end of the bitmap exchange starts, by the replication state.  In an unexpected state the
  connection also goes to \<^verbatim>\<open>C_NETWORK_FAILURE\<close>.
\<close>

datatype bm_action =
    Wait_for_exchange_complete | Queue_send_bitmap | Send_exchange_complete | Start_resync_source | Wait_for_recv_cleared

definition receive_bitmap_finished ::
  "nat \<Rightarrow> bsr_repl_state \<Rightarrow> bm_xfer_ctx \<Rightarrow> (errno + bm_action list) \<times> bm_xfer_ctx" where
  "receive_bitmap_finished pro_version repl c =
     (let c = c\<lparr>c_count := 0\<rparr>
      in if repl = L_WF_BITMAP_T \<or> repl = L_BEHIND
         then (Inr [Wait_for_exchange_complete, Queue_send_bitmap, Wait_for_recv_cleared], c)
         else if repl \<noteq> L_WF_BITMAP_S \<and> repl \<noteq> L_AHEAD then (Inl EAGAIN, c)
         else (Inr ((if 113 \<le> pro_version then [Send_exchange_complete] else []) @
                    [Start_resync_source, Wait_for_recv_cleared]), c))"

text \<open>
  \<^verbatim>\<open>receive_bitmap\<close>: the context of the exchange, which starts anew with its first packet; the length check of a
  compressed packet; the work on the packet; and what follows.
\<close>

definition recv_ctx :: "'b bm_ops \<Rightarrow> 'b \<Rightarrow> bm_xfer_ctx \<Rightarrow> bm_xfer_ctx" where
  "recv_ctx ops bm c =
     (let c = (if c_count c = 0 then bm_xfer_ctx0\<lparr>c_bits := op_bits ops bm, c_words := op_words ops bm\<rparr> else c)
      in c\<lparr>c_count := c_count c + 1\<rparr>)"

fun packet_refused :: "nat \<Rightarrow> bool \<Rightarrow> bm_packet \<Rightarrow> bool" where
  "packet_refused pro_version recv_ok (P_BITMAP bytes) \<longleftrightarrow> False"
| "packet_refused pro_version recv_ok (P_COMPRESSED_BITMAP p) \<longleftrightarrow>
     BSR_SOCKET_BUFFER_SIZE - bsr_header_size pro_version < 1 + length (code_bytes p) \<or> 1 + length (code_bytes p) \<le> 1 \<or> \<not> recv_ok"

fun receive_packet ::
  "'b bm_ops \<Rightarrow> nat \<Rightarrow> bool \<Rightarrow> bm_packet \<Rightarrow> bm_xfer_ctx \<Rightarrow> 'b \<Rightarrow> ((errno + nat) \<times> bm_xfer_ctx \<times> 'b) option" where
  "receive_packet ops pro_version recv_ok (P_BITMAP bytes) c bm = receive_bitmap_plain ops pro_version recv_ok bytes c bm"
| "receive_packet ops pro_version recv_ok (P_COMPRESSED_BITMAP p) c bm = decode_bitmap_c ops p c (1 + length (code_bytes p)) bm"

fun is_plain :: "bm_packet \<Rightarrow> nat" where
  "is_plain (P_BITMAP bytes) = 1"
| "is_plain (P_COMPRESSED_BITMAP p) = 0"

text \<open>The result \<open>Inr None\<close> asks for more packets, \<open>Inr (Some acts)\<close> is the end of the bitmap.\<close>

definition receive_bitmap ::
  "'b bm_ops \<Rightarrow> nat \<Rightarrow> bool \<Rightarrow> bsr_repl_state \<Rightarrow> bm_packet \<Rightarrow> bm_xfer_ctx \<Rightarrow> 'b \<Rightarrow>
   ((errno + bm_action list option) \<times> bm_xfer_ctx \<times> 'b) option" where
  "receive_bitmap ops pro_version recv_ok repl pkt c bm = do {
     let c = recv_ctx ops bm c;
     if packet_refused pro_version recv_ok pkt then Some (Inl EIO, c, bm)
     else do {
       (err, c, bm) \<leftarrow> receive_packet ops pro_version recv_ok pkt c bm;
       let c = xfer_stats (is_plain pkt) (bsr_header_size pro_version + packet_size pkt) c;
       case err of
         Inl e \<Rightarrow> Some (Inl e, c, bm)
       | Inr n \<Rightarrow>
           if n = 0 then
             (case receive_bitmap_finished pro_version repl c of
                (Inl e, c) \<Rightarrow> Some (Inl e, c, bm)
              | (Inr acts, c) \<Rightarrow> Some (Inr (Some acts), c, bm))
           else Some (Inr None, c, bm) } }"

text \<open>The receiver of a sequence of packets, until one ends the exchange or fails.\<close>

fun receive_all ::
  "'b bm_ops \<Rightarrow> nat \<Rightarrow> bsr_repl_state \<Rightarrow> bm_packet list \<Rightarrow> bm_xfer_ctx \<Rightarrow> 'b \<Rightarrow>
   ((errno + bm_action list option) \<times> bm_packet list \<times> bm_xfer_ctx \<times> 'b) option" where
  "receive_all ops pro_version repl [] c bm = Some (Inr None, [], c, bm)"
| "receive_all ops pro_version repl (pkt # pkts) c bm = do {
     (r, c, bm) \<leftarrow> receive_bitmap ops pro_version True repl pkt c bm;
     if r = Inr None then receive_all ops pro_version repl pkts c bm else Some (r, pkts, c, bm) }"

end
