(* ===== verification/Bm_Xfer_Lemmas.thy ===== *)
theory Bm_Xfer_Lemmas
  imports Bm_Xfer
begin

text \<open>
  The compressed bitmap packets: the contract of the bitmap that the transfer relies on, and what sender and
  receiver do under it.  The sender cuts the bits into runs and writes their codes (\<open>runs_ok\<close>, \<open>coded\<close>); the receiver
  reads the same codes from its look-ahead and sets exactly the bits of the runs.
\<close>

section \<open>The contract of the bitmap\<close>

text \<open>
  What the sender needs of a bitmap: the searches find the first bit, and the words it reads have the
  bits of the range.
\<close>

definition lel_bit :: "u32 list \<Rightarrow> nat \<Rightarrow> nat \<Rightarrow> bool" where
  "lel_bit ws off i \<longleftrightarrow> i div 32 - 2 * off < length ws \<and> bit (ws ! (i div 32 - 2 * off)) (i mod 32)"

locale bitmap_source =
  fixes ops :: "'b bm_ops" and ok :: "'b \<Rightarrow> bool" and view :: "'b \<Rightarrow> nat \<Rightarrow> bool"
  assumes find_next: "ok bm \<Longrightarrow> s < op_bits ops bm \<Longrightarrow> s \<le> e \<Longrightarrow>
      op_range_find_next ops s e bm = Some (first_or (view bm) s (min (e + 1) (op_bits ops bm)) (e + 1))"
    and find_next_zero: "ok bm \<Longrightarrow> s < op_bits ops bm \<Longrightarrow> s \<le> e \<Longrightarrow>
      op_range_find_next_zero ops s e bm = Some (first_or (\<lambda>i. \<not> view bm i) s (min (e + 1) (op_bits ops bm)) (e + 1))"
    and get_lel: "ok bm \<Longrightarrow> 0 < num \<Longrightarrow> \<exists>ws. op_get_lel ops off num bm = Some ws \<and> length ws \<le> 2 * num \<and>
      (\<forall>i. off * 64 \<le> i \<and> i < (off + num) * 64 \<and> i < op_bits ops bm \<longrightarrow>
        i div 32 - 2 * off < length ws \<and> lel_bit ws off i = view bm i)"

text \<open>
  What the receiver needs: the bits of \<open>P\<close> are set, and nothing else of the bitmap changes.
\<close>

definition grown :: "'b bm_ops \<Rightarrow> ('b \<Rightarrow> bool) \<Rightarrow> ('b \<Rightarrow> nat \<Rightarrow> bool) \<Rightarrow> ('b \<Rightarrow> 'r) \<Rightarrow> (nat \<Rightarrow> bool) \<Rightarrow> 'b \<Rightarrow> 'b \<Rightarrow> bool" where
  "grown ops ok view others P bm bm' \<longleftrightarrow> ok bm' \<and> others bm' = others bm \<and> op_bits ops bm' = op_bits ops bm \<and>
     op_words ops bm' = op_words ops bm \<and> (\<forall>i < op_bits ops bm. view bm' i \<longleftrightarrow> view bm i \<or> P i)"

lemma grown_refl: "ok bm \<Longrightarrow> grown ops ok view others (\<lambda>i. False) bm bm"
  by (simp add: grown_def)

lemma grown_trans:
  "grown ops ok view others P a b \<Longrightarrow> grown ops ok view others Q b c \<Longrightarrow> grown ops ok view others (\<lambda>i. P i \<or> Q i) a c"
  by (auto simp: grown_def)

lemma grown_cong:
  "grown ops ok view others P a b \<Longrightarrow> (\<And>i. i < op_bits ops a \<Longrightarrow> view a i \<or> P i \<longleftrightarrow> view a i \<or> Q i) \<Longrightarrow> grown ops ok view others Q a b"
  by (simp add: grown_def)

locale bitmap_sink =
  fixes ops :: "'b bm_ops" and ok :: "'b \<Rightarrow> bool" and view :: "'b \<Rightarrow> nat \<Rightarrow> bool" and others :: "'b \<Rightarrow> 'r"
  assumes set_many: "ok bm \<Longrightarrow> \<exists>bm'. op_set_many_bits ops s e bm = Some bm' \<and> grown ops ok view others (\<lambda>i. s \<le> i \<and> i \<le> e) bm bm'"
    and merge_lel: "ok bm \<Longrightarrow> 0 < num \<Longrightarrow> length ws = 2 * num \<Longrightarrow>
      \<exists>bm'. op_merge_lel ops off num ws bm = Some bm' \<and>
        grown ops ok view others (\<lambda>i. off * 64 \<le> i \<and> i < (off + num) * 64 \<and> lel_bit ws off i) bm bm'"

section \<open>Runs and their codes\<close>

text \<open>The runs that cover the bits from \<open>o1\<close> to \<open>o2\<close>, the first of value \<open>t\<close>.\<close>

fun runs_ok :: "(nat \<Rightarrow> bool) \<Rightarrow> nat \<Rightarrow> bool \<Rightarrow> nat list \<Rightarrow> nat \<Rightarrow> bool" where
  "runs_ok v o1 t [] o2 \<longleftrightarrow> o1 = o2"
| "runs_ok v o1 t (r # rs) o2 \<longleftrightarrow> 0 < r \<and> (\<forall>i. o1 \<le> i \<and> i < o1 + r \<longrightarrow> v i = t) \<and> runs_ok v (o1 + r) (\<not> t) rs o2"

lemma runs_ok_le: "runs_ok v o1 t rs o2 \<Longrightarrow> o1 \<le> o2"
proof (induction rs arbitrary: o1 t)
  case (Cons r rs)
  then show ?case using le_trans [of o1 "o1 + r"] by fastforce
qed simp

text \<open>The stream has the codes of these run lengths from position \<open>pos\<close> to position \<open>en\<close>.\<close>

fun coded :: "u8 list \<Rightarrow> nat \<Rightarrow> nat list \<Rightarrow> nat \<Rightarrow> bool" where
  "coded bf pos [] en \<longleftrightarrow> pos = en"
| "coded bf pos (r # rs) en \<longleftrightarrow> (\<exists>n c. r < 2 ^ 64 \<and> vli_encode_bits0 (of_nat r) = Inr (n, c) \<and>
     (\<forall>j < n. bs_bit bf (pos + j) = bit c j) \<and> coded bf (pos + n) rs en)"

lemma coded_le: "coded bf pos rs en \<Longrightarrow> pos \<le> en"
  by (induction rs arbitrary: pos) fastforce+

lemma coded_cong:
  "coded bf pos rs en \<Longrightarrow> (\<And>i. pos \<le> i \<Longrightarrow> i < en \<Longrightarrow> bs_bit bf' i = bs_bit bf i) \<Longrightarrow> coded bf' pos rs en"
proof (induction rs arbitrary: pos)
  case (Cons r rs)
  then obtain n c where nc: "r < 2 ^ 64" "vli_encode_bits0 (of_nat r) = Inr (n, c)"
    "\<forall>j < n. bs_bit bf (pos + j) = bit c j" "coded bf (pos + n) rs en" by auto
  have "pos + n \<le> en" using nc(4) by (rule coded_le)
  then have "coded bf' (pos + n) rs en" using Cons.prems(2) by (intro Cons.IH [OF nc(4)]) simp
  moreover have "\<forall>j < n. bs_bit bf' (pos + j) = bit c j" using nc(3) Cons.prems(2) \<open>pos + n \<le> en\<close> by simp
  ultimately show ?case using nc by auto
qed simp

lemma vli_encode_bits0_Inr:
  assumes "vli_encode_bits0 x = Inr (n, c)"
  shows "0 < n \<and> n \<le> 64 \<and> take_bit n c = c \<and> (\<forall>w. take_bit n w = c \<longrightarrow> vli_decode_bits w = Some (n, x))"
  using vli_code [of x] assms by (auto split: if_splits)

lemma coded_empty: "coded bf pos rs pos \<Longrightarrow> rs = []"
proof (cases rs)
  case (Cons r rs')
  assume "coded bf pos rs pos"
  then obtain n c where "vli_encode_bits0 (of_nat r) = Inr (n, c)" "coded bf (pos + n) rs' pos" using Cons by auto
  then show ?thesis using coded_le [of bf "pos + n" rs' pos] vli_encode_bits0_Inr [of "of_nat r" n c] by simp
qed

section \<open>The sender\<close>

lemma run_end_first:
  assumes f: "\<And>s e. s < bits \<Longrightarrow> s \<le> e \<Longrightarrow> find_next s e = Some (first_or P s (min (e + 1) bits) (e + 1))" and o: "o1 < bits"
  shows "\<exists>off tmp. run_end find_next bits o1 = Some (off, tmp) \<and> o1 \<le> min tmp bits \<and>
    (\<forall>i. o1 \<le> i \<and> i < min tmp bits \<longrightarrow> \<not> P i) \<and> (tmp < bits \<longrightarrow> P tmp)"
  using o
proof (induction "bits - o1" arbitrary: o1 rule: less_induct)
  case less
  let ?R = RANGE_FIND_NEXT_BIT
  let ?hi = "min (o1 + ?R + 1) bits"
  note fe = f [OF less.prems, of "o1 + ?R"]
  show ?case
  proof (cases "\<exists>i. o1 \<le> i \<and> i < ?hi \<and> P i")
    case True
    define n where "n = (LEAST i. o1 \<le> i \<and> P i)"
    have n: "o1 \<le> n \<and> P n" "n < ?hi"
      using True LeastI_ex [of "\<lambda>i. o1 \<le> i \<and> P i"] Least_le [of "\<lambda>i. o1 \<le> i \<and> P i"]
      unfolding n_def by (blast, meson le_less_trans)
    have m: "\<not> P i" if "o1 \<le> i" "i < n" for i
      using that not_less_Least [of i "\<lambda>i. o1 \<le> i \<and> P i"] by (auto simp: n_def)
    have "find_next o1 (o1 + ?R) = Some n"
      using fe first_or_eqI [of o1 n ?hi P] n m by simp
    then have "run_end find_next bits o1 = Some (o1, n)" using n by (simp add: run_end.simps)
    then show ?thesis using n m by auto
  next
    case False
    then have ff: "find_next o1 (o1 + ?R) = Some (o1 + ?R + 1)" using fe by (auto simp: first_or_def)
    show ?thesis
    proof (cases "bits \<le> o1 + ?R + 1")
      case True
      then have "run_end find_next bits o1 = Some (o1, o1 + ?R + 1)" using ff by (simp add: run_end.simps)
      then show ?thesis using True False less.prems by auto
    next
      case big: False
      then obtain off tmp where r: "run_end find_next bits (o1 + ?R + 1) = Some (off, tmp)"
        "o1 + ?R + 1 \<le> min tmp bits" "\<forall>i. o1 + ?R + 1 \<le> i \<and> i < min tmp bits \<longrightarrow> \<not> P i" "tmp < bits \<longrightarrow> P tmp"
        using less.hyps [of "o1 + ?R + 1"] by fastforce
      have "run_end find_next bits o1 = Some (off, tmp)" using ff big r(1) by (simp add: run_end.simps [of _ _ o1])
      moreover have "\<not> P i" if "o1 \<le> i" "i < min tmp bits" for i
        using False that r(3) by (cases "i < o1 + ?R + 1") auto
      ultimately show ?thesis using r(2,4) by auto
    qed
  qed
qed

definition stream_ok :: "bitstream \<Rightarrow> bool" where
  "stream_ok bs \<longleftrightarrow> cur_bit bs < 8 \<and> pad_bits bs = 0 \<and> bs_pos bs \<le> 8 * length (buf bs) \<and> (\<forall>i. bs_pos bs \<le> i \<longrightarrow> \<not> bs_bit (buf bs) i)"

lemma vli_encode_bits_cases:
  assumes "stream_ok bs"
  obtains e where "vli_encode_bits bs x = Inl e"
  | n c bs' where "vli_encode_bits bs x = Inr (n, bs')" and "vli_encode_bits0 x = Inr (n, c)" and "stream_ok bs'"
    and "bs_pos bs' = bs_pos bs + n" and "length (buf bs') = length (buf bs)"
    and "\<And>i. i < bs_pos bs \<Longrightarrow> bs_bit (buf bs') i = bs_bit (buf bs) i"
    and "\<And>j. j < n \<Longrightarrow> bs_bit (buf bs') (bs_pos bs + j) = bit c j"
proof (cases "vli_encode_bits0 x")
  case (Inl e)
  then show ?thesis using that(1) [of e] by (simp add: vli_encode_bits_def)
next
  case (Inr nc)
  then obtain n c where nc: "vli_encode_bits0 x = Inr (n, c)" by (cases nc) auto
  note n = vli_encode_bits0_Inr [OF nc]
  have wf: "cur_bit bs < 8" and z: "\<And>i. bs_pos bs \<le> i \<Longrightarrow> \<not> bs_bit (buf bs) i" and pad: "pad_bits bs = 0"
    using assms by (auto simp: stream_ok_def)
  show ?thesis
  proof (cases "bs_pos bs + n \<le> 8 * length (buf bs)")
    case True
    obtain bs' where put: "bitstream_put_bits bs c n = Inr (n, bs')" "cur_bit bs' < 8" "bs_pos bs' = bs_pos bs + n"
      "length (buf bs') = length (buf bs)" "pad_bits bs' = pad_bits bs"
      and b: "\<And>i. bs_bit (buf bs') i \<longleftrightarrow> bs_bit (buf bs) i \<or> (bs_pos bs \<le> i \<and> i < bs_pos bs + n \<and> bit c (i - bs_pos bs))"
      using bitstream_put_bits_bit [OF wf _ _ True, of c] n by metis
    have "stream_ok bs'" using put z pad True by (auto simp: stream_ok_def b)
    then show ?thesis using put z nc b by (intro that(2) [of n bs' c]) (auto simp: vli_encode_bits_def)
  next
    case False
    then show ?thesis
      using bitstream_put_bits_full [OF wf, of n c] nc n by (intro that(1) [of ENOBUFS]) (simp add: vli_encode_bits_def)
  qed
qed

context bitmap_source
begin

lemma run_end_here:
  assumes "ok bm" and "o1 < op_bits ops bm" and "view bm o1 = (t = 0)"
  shows "\<exists>off tmp. run_end (\<lambda>s e. if t = (0 :: nat) then op_range_find_next_zero ops s e bm
        else op_range_find_next ops s e bm) (op_bits ops bm) o1 = Some (off, tmp) \<and>
    o1 < min tmp (op_bits ops bm) \<and> (\<forall>i. o1 \<le> i \<and> i < min tmp (op_bits ops bm) \<longrightarrow> view bm i = (t = 0)) \<and>
    (tmp < op_bits ops bm \<longrightarrow> view bm tmp = (t \<noteq> 0))"
proof -
  let ?f = "\<lambda>s e. if t = 0 then op_range_find_next_zero ops s e bm else op_range_find_next ops s e bm"
  have f: "?f s e = Some (first_or (\<lambda>i. view bm i = (t \<noteq> 0)) s (min (e + 1) (op_bits ops bm)) (e + 1))"
    if "s < op_bits ops bm" "s \<le> e" for s e
    using find_next [OF assms(1) that] find_next_zero [OF assms(1) that] by (cases "t = 0") auto
  obtain off tmp where r: "run_end ?f (op_bits ops bm) o1 = Some (off, tmp)" "o1 \<le> min tmp (op_bits ops bm)"
    "\<forall>i. o1 \<le> i \<and> i < min tmp (op_bits ops bm) \<longrightarrow> view bm i \<noteq> (t \<noteq> 0)"
    "tmp < op_bits ops bm \<longrightarrow> view bm tmp = (t \<noteq> 0)"
    using run_end_first [OF f assms(2)] by blast
  have "tmp \<noteq> o1" using r(4) assms(2,3) by auto
  then have "o1 < min tmp (op_bits ops bm)" using r(2) assms(2) by auto
  then show ?thesis using r by blast
qed

lemma fill_loop_runs:
  assumes "ok bm" and "op_bits ops bm < 2 ^ 64" and "o1 \<le> op_bits ops bm" and "stream_ok bs" and "t = 0 \<or> t = 1"
    and "o1 < op_bits ops bm \<Longrightarrow> view bm o1 = (t = 0)"
  shows "\<exists>ex bs' o2 rs. fill_loop ops (op_bits ops bm) t p bs o1 plain bm = Some (ex, p, bs', o2, plain + (o2 - o1), bm) \<and>
    ex \<noteq> Zero_run \<and> o2 \<le> op_bits ops bm \<and> runs_ok (view bm) o1 (t = 0) rs o2 \<and>
    coded (buf bs') (bs_pos bs) rs (bs_pos bs') \<and> (\<forall>i < bs_pos bs. bs_bit (buf bs') i = bs_bit (buf bs) i) \<and>
    stream_ok bs' \<and> length (buf bs') = length (buf bs)"
  using assms
proof (induction "op_bits ops bm - o1" arbitrary: o1 bs t plain rule: less_induct)
  case less
  let ?bits = "op_bits ops bm"
  show ?case
  proof (cases "o1 < ?bits")
    case False
    then have "fill_loop ops ?bits t p bs o1 plain bm = Some (Filled, p, bs, o1, plain, bm)"
      by (simp add: fill_loop.simps [of _ _ t])
    then show ?thesis using less.prems by (intro exI [of _ Filled] exI [of _ bs] exI [of _ o1] exI [of _ "[]"]) simp
  next
    case True
    obtain off tmp where r: "run_end (\<lambda>s e. if t = 0 then op_range_find_next_zero ops s e bm
        else op_range_find_next ops s e bm) ?bits o1 = Some (off, tmp)"
      "o1 < min tmp ?bits" "\<forall>i. o1 \<le> i \<and> i < min tmp ?bits \<longrightarrow> view bm i = (t = 0)"
      "tmp < ?bits \<longrightarrow> view bm tmp = (t \<noteq> 0)"
      using run_end_here [OF less.prems(1) True less.prems(6) [OF True]] by blast
    define o2 where "o2 = min tmp ?bits"
    have o2: "o1 < o2" "o2 \<le> ?bits" using r(2) by (simp_all add: o2_def)
    have t2: "t \<noteq> 2" using less.prems(5) by auto
    note unf = fill_loop.simps [of ops ?bits t p bs o1 plain bm]
    show ?thesis
    proof (rule vli_encode_bits_cases [OF less.prems(4), of "of_nat (o2 - o1)"])
      fix e assume e: "vli_encode_bits bs (of_nat (o2 - o1)) = Inl e"
      then have "fill_loop ops ?bits t p bs o1 plain bm =
          Some (if e = ENOBUFS then Filled else Encode_error, p, bs, o1, plain, bm)"
        using True r(1) o2 t2 by (simp add: unf flip: o2_def)
      then show ?thesis using less.prems
        by (intro exI [of _ "if e = ENOBUFS then Filled else Encode_error"] exI [of _ bs] exI [of _ o1] exI [of _ "[]"]) simp
    next
      fix n c bs2
      assume e: "vli_encode_bits bs (of_nat (o2 - o1)) = Inr (n, bs2)" "vli_encode_bits0 (of_nat (o2 - o1)) = Inr (n, c)"
        "stream_ok bs2" "bs_pos bs2 = bs_pos bs + n" "length (buf bs2) = length (buf bs)"
        and old: "\<And>i. i < bs_pos bs \<Longrightarrow> bs_bit (buf bs2) i = bs_bit (buf bs) i"
        and new: "\<And>j. j < n \<Longrightarrow> bs_bit (buf bs2) (bs_pos bs + j) = bit c j"
      let ?t = "if t = 0 then 1 else 0 :: nat"
      have step: "fill_loop ops ?bits t p bs o1 plain bm = fill_loop ops ?bits ?t p bs2 o2 (plain + (o2 - o1)) bm"
        using True r(1) o2 t2 e(1) by (simp add: unf flip: o2_def)
      have v2: "o2 < ?bits \<Longrightarrow> view bm o2 = (?t = 0)" using r(4) by (auto simp: o2_def)
      have m: "?bits - o2 < ?bits - o1" "?t = 0 \<or> ?t = 1" using o2 by auto
      obtain ex bs' o3 rs where ih: "fill_loop ops ?bits ?t p bs2 o2 (plain + (o2 - o1)) bm =
            Some (ex, p, bs', o3, plain + (o2 - o1) + (o3 - o2), bm)"
          "ex \<noteq> Zero_run" "o3 \<le> ?bits" "runs_ok (view bm) o2 (?t = 0) rs o3"
          "coded (buf bs') (bs_pos bs2) rs (bs_pos bs')" "stream_ok bs'" "length (buf bs') = length (buf bs2)"
          and keep: "\<forall>i < bs_pos bs2. bs_bit (buf bs') i = bs_bit (buf bs2) i"
        using less.hyps [OF m(1) less.prems(1,2) o2(2) e(3) m(2) v2] by blast
      have "runs_ok (view bm) o1 (t = 0) ((o2 - o1) # rs) o3"
        using ih(4) r(3) o2 by (auto simp: o2_def [symmetric])
      moreover have "coded (buf bs') (bs_pos bs) ((o2 - o1) # rs) (bs_pos bs')"
        using e(2) new keep ih(5) less.prems(2) o2 by (auto simp: e(4))
      moreover have "plain + (o2 - o1) + (o3 - o2) = plain + (o3 - o1)" using o2 runs_ok_le [OF ih(4)] by simp
      ultimately show ?thesis using step ih(1-3,6,7) keep old e(4,5)
        by (intro exI [of _ ex] exI [of _ bs'] exI [of _ o3] exI [of _ "(o2 - o1) # rs"])
          (simp del: runs_ok.simps(2) coded.simps(2))
    qed
  qed
qed

end

section \<open>The receiver\<close>

text \<open>The look-ahead of \<open>have\<close> bits at position \<open>q\<close> of the stream.\<close>

definition ahead :: "bitstream \<Rightarrow> nat \<Rightarrow> nat \<Rightarrow> u64 \<Rightarrow> bool" where
  "ahead bs q have look \<longleftrightarrow> cur_bit bs < 8 \<and> pad_bits bs < 8 \<and> bs_pos bs = q + have \<and>
     q + have + pad_bits bs \<le> 8 * length (buf bs) \<and> have = min 64 (8 * length (buf bs) - pad_bits bs - q) \<and>
     (\<forall>j. bit look j \<longleftrightarrow> j < have \<and> bs_bit (buf bs) (q + j))"

lemma get_bits_ahead:
  assumes "cur_bit bs < 8" and "pad_bits bs < 8" and "bs_pos bs + pad_bits bs \<le> 8 * length (buf bs)"
    and "0 < req" and "req \<le> 64"
  shows "\<exists>m val bs'. bitstream_get_bits bs req = Some (Inr (m, val, bs')) \<and>
    m = min req (8 * length (buf bs) - pad_bits bs - bs_pos bs) \<and> cur_bit bs' < 8 \<and> pad_bits bs' = pad_bits bs \<and>
    bs_pos bs' = bs_pos bs + m \<and> buf bs' = buf bs \<and> (\<forall>j. bit val j \<longleftrightarrow> j < m \<and> bs_bit (buf bs) (bs_pos bs + j))"
proof -
  define m where "m = min req (8 * length (buf bs) - pad_bits bs - bs_pos bs)"
  define bs' where "bs' = (if m = 0 then bs else bitstream_cursor_advance m bs)"
  obtain val where "bitstream_get_bits bs req = Some (Inr (m, val, bs'))"
    "\<And>j. bit val j \<longleftrightarrow> j < m \<and> bs_bit (buf bs) (bs_pos bs + j)"
    using bitstream_get_bits_bit [OF assms] unfolding m_def bs'_def by blast
  moreover have "cur_bit bs' < 8" "pad_bits bs' = pad_bits bs" "bs_pos bs' = bs_pos bs + m" "buf bs' = buf bs"
    using assms(1) by (auto simp: bs'_def bs_pos_advance)
  ultimately show ?thesis unfolding m_def [symmetric] by blast
qed

lemma ahead_init:
  assumes "pad < 8" and "bf \<noteq> []"
  shows "\<exists>have look bs. bitstream_get_bits (bitstream_init bf pad) 64 = Some (Inr (have, look, bs)) \<and> ahead bs 0 have look \<and>
    buf bs = bf \<and> pad_bits bs = pad"
proof -
  let ?bs = "bitstream_init bf pad"
  have bs: "cur_bit ?bs < 8" "pad_bits ?bs = pad" "bs_pos ?bs = 0" "buf ?bs = bf"
    by (simp_all add: bitstream_init_def bitstream_cursor_reset_def bs_pos_def)
  have "0 < length bf" using assms by simp
  then have p: "bs_pos ?bs + pad_bits ?bs \<le> 8 * length (buf ?bs)" using assms(1) unfolding bs by linarith
  have "pad_bits ?bs < 8" using assms(1) by (simp add: bs)
  from get_bits_ahead [OF bs(1) this p, of 64] obtain m val bs' where
    g: "bitstream_get_bits ?bs 64 = Some (Inr (m, val, bs'))" "m = min 64 (8 * length bf - pad)" "cur_bit bs' < 8"
      "pad_bits bs' = pad" "bs_pos bs' = m" "buf bs' = bf" "\<forall>j. bit val j \<longleftrightarrow> j < m \<and> bs_bit bf j"
    by (auto simp: bs)
  then have "ahead bs' 0 m val" using assms(1) p by (simp add: ahead_def bs)
  then show ?thesis using g by blast
qed

lemma look_ahead_length:
  fixes E q h n m :: nat
  assumes "h = min 64 (E - q)" and "q + h \<le> E" and "0 < n" and "n \<le> h" and "m = min (64 - (h - n)) (E - (q + h))"
  shows "h - n + m = min 64 (E - (q + n))" and "q + n + (h - n + m) \<le> E"
  using assms(2-) unfolding assms(5) by (cases "64 \<le> E - q"; use assms(1) in \<open>simp add: min_def; linarith\<close>)+

lemma ahead_consume:
  assumes a: "ahead bs q have look" and n: "0 < n" "n \<le> have"
  shows "\<exists>m tmp bs'. bitstream_get_bits bs (64 - (have - n)) = Some (Inr (m, tmp, bs')) \<and> buf bs' = buf bs \<and>
    pad_bits bs' = pad_bits bs \<and>
    ahead bs' (q + n) (have - n + m) ((if n < 64 then drop_bit n look else 0) OR push_bit (have - n) tmp)"
proof -
  let ?E = "8 * length (buf bs) - pad_bits bs"
  have h: "cur_bit bs < 8" "pad_bits bs < 8" "bs_pos bs = q + have" "q + have + pad_bits bs \<le> 8 * length (buf bs)"
    "have = min 64 (?E - q)" and look: "\<And>j. bit look j \<longleftrightarrow> j < have \<and> bs_bit (buf bs) (q + j)"
    using a by (simp_all add: ahead_def)
  have h64: "have \<le> 64" unfolding h(5) by simp
  have "0 < 64 - (have - n)" "64 - (have - n) \<le> 64" using n h64 by auto
  then obtain m tmp bs' where g: "bitstream_get_bits bs (64 - (have - n)) = Some (Inr (m, tmp, bs'))"
    "m = min (64 - (have - n)) (?E - bs_pos bs)" "cur_bit bs' < 8" "pad_bits bs' = pad_bits bs"
    "bs_pos bs' = bs_pos bs + m" "buf bs' = buf bs"
    and tmp: "\<And>j. bit tmp j \<longleftrightarrow> j < m \<and> bs_bit (buf bs) (bs_pos bs + j)"
    using get_bits_ahead [OF h(1,2)] h(3,4) by metis
  let ?look = "(if n < 64 then drop_bit n look else 0) OR push_bit (have - n) tmp"
  have len: "have - n + m = min 64 (?E - (q + n))" "q + n + (have - n + m) + pad_bits bs \<le> 8 * length (buf bs)"
  proof -
    have "q + have \<le> ?E" and p: "pad_bits bs \<le> 8 * length (buf bs)" using h(4) by linarith+
    note l = look_ahead_length [OF h(5) this(1) n g(2) [unfolded h(3)]]
    show "have - n + m = min 64 (?E - (q + n))" by (rule l(1))
    show "q + n + (have - n + m) + pad_bits bs \<le> 8 * length (buf bs)" using l(2) p by linarith
  qed
  have "bit ?look j \<longleftrightarrow> j < have - n + m \<and> bs_bit (buf bs) (q + n + j)" for j
  proof (cases "j < have - n")
    case True
    then have "n < 64" using h64 n by simp
    then show ?thesis using True by (auto simp: bit_simps look add_ac)
  next
    case False
    have "\<not> bit (if n < 64 then drop_bit n look else 0) j" using False n by (auto simp: bit_simps look)
    moreover have "j < 64" if "j < have - n + m" using that len(1) by simp
    moreover have "q + have + (j - (have - n)) = q + n + j" using False n by simp
    ultimately show ?thesis using False by (auto simp: bit_simps tmp h(3) add_ac)
  qed
  moreover have "q + have + m = q + n + (have - n + m)" using n by simp
  ultimately have "ahead bs' (q + n) (have - n + m) ?look"
    unfolding ahead_def g(4-6) h(3) using g(3) h(2) len by blast
  then show ?thesis using g by blast
qed

text \<open>Decoding with a look-ahead that covers the code.\<close>

lemma ahead_decode:
  assumes a: "ahead bs q have look" and c: "coded (buf bs) q (r # rs) (8 * length (buf bs) - pad_bits bs)"
  obtains n where "vli_decode_bits look = Some (n, of_nat r)" and "0 < n" and "n \<le> have" and "r < 2 ^ 64"
    and "coded (buf bs) (q + n) rs (8 * length (buf bs) - pad_bits bs)"
proof -
  let ?E = "8 * length (buf bs) - pad_bits bs"
  obtain n c where nc: "r < 2 ^ 64" "vli_encode_bits0 (of_nat r) = Inr (n, c)"
    "\<forall>j < n. bs_bit (buf bs) (q + j) = bit c j" "coded (buf bs) (q + n) rs ?E" using c by auto
  note n = vli_encode_bits0_Inr [OF nc(2)]
  have "q + n \<le> ?E" using nc(4) by (rule coded_le)
  then have nh: "n \<le> have" using a n by (simp add: ahead_def)
  have "take_bit n look = c"
  proof (rule bit_word_eqI)
    fix j
    have "bit c j \<Longrightarrow> j < n" using n by (metis bit_take_bit_iff)
    then show "bit (take_bit n look) j = bit c j" using a nh nc(3) by (auto simp: bit_take_bit_iff ahead_def)
  qed
  then show thesis using that [of n] n nc nh by simp
qed

lemma recv_loop_step:
  assumes "0 < have" and "vli_decode_bits look = Some (n, rl)" and "0 < n" and "n \<le> have"
    and "(s + unat rl + (2 ^ 64 - 1)) mod 2 ^ 64 = e" and "\<not> (t \<and> bits \<le> e)"
    and "(if t then op_set_many_bits ops s e bm else Some bm) = Some bm1"
    and "bitstream_get_bits bs (64 - (have - n)) = Some (Inr (m, tmp, bs'))"
  shows "recv_loop ops bits bs look have s t bm =
    recv_loop ops bits bs' ((if n < 64 then drop_bit n look else 0) OR push_bit (have - n) tmp) (have - n + m)
      ((s + unat rl) mod 2 ^ 64) (\<not> t) bm1"
  unfolding recv_loop.simps [of ops bits bs] Let_def using assms by (cases t) (simp_all del: power_numeral)

lemma vli_decode_cases:
  obtains n rl where "vli_decode_bits look = Some (n, rl)"
  using vli_decode_total [of look] by (cases "vli_decode_bits look") auto

context bitmap_sink
begin

lemma write_run:
  assumes "ok bm"
  shows "\<exists>bm1. (if t then op_set_many_bits ops s e bm else Some bm) = Some bm1 \<and>
    grown ops ok view others (\<lambda>i. t \<and> s \<le> i \<and> i \<le> e) bm bm1"
  using set_many [OF assms, of s e] grown_refl [of ok, OF assms, of ops view others] by (cases t) simp_all

lemma recv_loop_runs:
  assumes "ok bm" and "ahead bs q have look" and "coded (buf bs) q rs (8 * length (buf bs) - pad_bits bs)"
    and "runs_ok v o1 t rs o2" and "o2 \<le> op_bits ops bm" and "op_bits ops bm < 2 ^ 64"
  shows "\<exists>bm'. recv_loop ops (op_bits ops bm) bs look have o1 t bm = Some (Inr o2, bm') \<and>
    grown ops ok view others (\<lambda>i. o1 \<le> i \<and> i < o2 \<and> v i) bm bm'"
  using assms
proof (induction rs arbitrary: bs q "have" look o1 t bm)
  case Nil
  then have "have = 0" "o1 = o2" by (auto simp: ahead_def)
  moreover have "grown ops ok view others (\<lambda>i. o2 \<le> i \<and> i < o2 \<and> v i) bm bm"
    by (rule grown_cong [OF grown_refl [of ok, OF Nil.prems(1)]]) auto
  ultimately show ?case by (simp add: recv_loop.simps)
next
  case (Cons r rs)
  let ?bits = "op_bits ops bm"
  obtain n where d: "vli_decode_bits look = Some (n, of_nat r)" "0 < n" "n \<le> have" "r < 2 ^ 64"
    "coded (buf bs) (q + n) rs (8 * length (buf bs) - pad_bits bs)"
    by (rule ahead_decode [OF Cons.prems(2,3)])
  have r: "0 < r" "runs_ok v (o1 + r) (\<not> t) rs o2" "\<And>i. o1 \<le> i \<Longrightarrow> i < o1 + r \<Longrightarrow> v i = t"
    using Cons.prems(4) by auto
  have le: "o1 + r \<le> o2" using r(2) by (rule runs_ok_le)
  have e: "(o1 + unat (of_nat r :: u64) + (2 ^ 64 - 1)) mod 2 ^ 64 = o1 + r - 1" "(o1 + unat (of_nat r :: u64)) mod 2 ^ 64 = o1 + r"
    using d(4) le r(1) Cons.prems(5,6) by (simp_all add: unat_of_nat mod_if)
  obtain bm1 where bm1: "(if t then op_set_many_bits ops o1 (o1 + r - 1) bm else Some bm) = Some bm1"
    "grown ops ok view others (\<lambda>i. t \<and> o1 \<le> i \<and> i \<le> o1 + r - 1) bm bm1"
    using write_run [OF Cons.prems(1)] by blast
  obtain m tmp bs' where c: "bitstream_get_bits bs (64 - (have - n)) = Some (Inr (m, tmp, bs'))" "buf bs' = buf bs"
    "pad_bits bs' = pad_bits bs"
    "ahead bs' (q + n) (have - n + m) ((if n < 64 then drop_bit n look else 0) OR push_bit (have - n) tmp)"
    using ahead_consume [OF Cons.prems(2) d(2,3)] by blast
  have b1: "ok bm1" "op_bits ops bm1 = ?bits" using bm1(2) by (simp_all add: grown_def)
  obtain bm' where ih: "recv_loop ops ?bits bs' ((if n < 64 then drop_bit n look else 0) OR push_bit (have - n) tmp)
      (have - n + m) (o1 + r) (\<not> t) bm1 = Some (Inr o2, bm')"
    "grown ops ok view others (\<lambda>i. o1 + r \<le> i \<and> i < o2 \<and> v i) bm1 bm'"
    using Cons.IH [OF b1(1) c(4) _ r(2)] d(5) Cons.prems(5,6) unfolding b1(2) c(2,3) by blast
  have "recv_loop ops ?bits bs look have o1 t bm = Some (Inr o2, bm')"
  proof -
    have "\<not> (t \<and> ?bits \<le> o1 + r - 1)" "0 < have" using le r(1) Cons.prems(5) d(2,3) by linarith+
    from recv_loop_step [OF this(2) d(1-3) e(1) this(1) bm1(1) c(1)] show ?thesis using ih(1) by (simp only: e(2))
  qed
  moreover have "grown ops ok view others (\<lambda>i. o1 \<le> i \<and> i < o2 \<and> v i) bm bm'"
    by (rule grown_cong [OF grown_trans [OF bm1(2) ih(2)]]) (use le r(1,3) in \<open>auto simp: not_less\<close>)
  ultimately show ?case by blast
qed


text \<open>Whatever the peer sends, the loop ends, bits are only set, and only those of this bitmap.\<close>

lemma recv_loop_any:
  assumes "ok bm" and "ahead bs q have look"
  shows "\<exists>r bm' P. recv_loop ops (op_bits ops bm) bs look have s t bm = Some (r, bm') \<and> grown ops ok view others P bm bm'"
  using assms
proof (induction "8 * length (buf bs) - q" arbitrary: bs q "have" look s t bm rule: less_induct)
  case less
  let ?bits = "op_bits ops bm"
  obtain n rl where d: "vli_decode_bits look = Some (n, rl)" by (rule vli_decode_cases)
  define e where "e = (s + unat rl + (2 ^ 64 - 1)) mod 2 ^ 64"
  obtain bm1 P where bm1: "(if t then op_set_many_bits ops s e bm else Some bm) = Some bm1"
    "grown ops ok view others P bm bm1"
    using write_run [OF less.prems(1)] by blast
  note self = grown_refl [of ok, OF less.prems(1), of ops view others]
  consider "have = 0 \<or> n = 0 \<or> t \<and> ?bits \<le> e" | "have \<noteq> 0" "n \<noteq> 0" "\<not> (t \<and> ?bits \<le> e)" "have < n"
    | "0 < have" "0 < n" "\<not> (t \<and> ?bits \<le> e)" "n \<le> have" by linarith
  then show ?case
  proof cases
    case 1
    then show ?thesis using self by (auto simp: recv_loop.simps [of ops ?bits bs] d e_def Let_def)
  next
    case 2
    then have "recv_loop ops ?bits bs look have s t bm = Some (Inl EIO, bm1)"
      using bm1(1) d unfolding recv_loop.simps [of ops ?bits bs] Let_def e_def by (cases t) (simp_all del: power_numeral)
    then show ?thesis using bm1(2) by blast
  next
    case 3
    obtain m tmp bs' where c: "bitstream_get_bits bs (64 - (have - n)) = Some (Inr (m, tmp, bs'))" "buf bs' = buf bs"
      "ahead bs' (q + n) (have - n + m) ((if n < 64 then drop_bit n look else 0) OR push_bit (have - n) tmp)"
      using ahead_consume [OF less.prems(2) 3(2,4)] by blast
    have "q + have \<le> 8 * length (buf bs)" using less.prems(2) by (simp add: ahead_def)
    then have less': "8 * length (buf bs') - (q + n) < 8 * length (buf bs) - q" using 3 c(2) by simp
    have b1: "ok bm1" "op_bits ops bm1 = ?bits" using bm1(2) by (simp_all add: grown_def)
    obtain r bm' Q where ih: "recv_loop ops ?bits bs' ((if n < 64 then drop_bit n look else 0) OR push_bit (have - n) tmp)
        (have - n + m) ((s + unat rl) mod 2 ^ 64) (\<not> t) bm1 = Some (r, bm')" "grown ops ok view others Q bm1 bm'"
      using less.hyps [OF less' b1(1) c(3)] unfolding b1(2) by blast
    have "recv_loop ops ?bits bs look have s t bm = Some (r, bm')"
      unfolding recv_loop_step [OF 3(1) d 3(2,4) e_def [symmetric] 3(3) bm1(1) c(1)] by (rule ih(1))
    then show ?thesis using grown_trans [OF bm1(2) ih(2)] by blast
  qed
qed

end


section \<open>Packets\<close>

text \<open>The header byte of a packet that starts with a run of value \<open>t\<close> and has \<open>n\<close> padding bits.\<close>

definition header_byte :: "bool \<Rightarrow> nat \<Rightarrow> u8" where
  "header_byte t n =
     ((0 AND NOT 0x80 OR (if t then 0x80 else 0)) AND push_bit 4 (NOT 7) OR push_bit 4 (of_nat n)) AND NOT 0xf OR RLE_VLI_Bits"

lemma header_byte_fields:
  assumes "n < 8"
  shows "header_byte t n AND 0xf = RLE_VLI_Bits \<and> (header_byte t n AND 0x80 \<noteq> 0) = t \<and> unat (drop_bit 4 (header_byte t n) AND 7) = n"
proof -
  have "list_all (\<lambda>n. list_all (\<lambda>t. header_byte t n AND 0xf = RLE_VLI_Bits \<and> (header_byte t n AND 0x80 \<noteq> 0) = t \<and>
      unat (drop_bit 4 (header_byte t n) AND 7) = n) [True, False]) [0..<8]"
    by code_simp
  then show ?thesis using assms unfolding list_all_iff by (cases t) simp_all
qed

lemma header_fields:
  assumes "encoding p = 0" and "n < 8"
  shows "\<exists>q r. dcbp_set_pad_bits n (dcbp_set_start t p) = Some q \<and> dcbp_set_code RLE_VLI_Bits q = Some r \<and>
    code_bytes q = code_bytes p \<and> code_bytes r = code_bytes p \<and>
    dcbp_get_code r = RLE_VLI_Bits \<and> dcbp_get_start r = t \<and> dcbp_get_pad_bits r = n"
proof -
  have "RLE_VLI_Bits AND NOT 0xf = 0" by code_simp
  then show ?thesis
    using assms header_byte_fields [OF assms(2), of t]
    by (simp add: dcbp_set_pad_bits_def dcbp_set_start_def dcbp_set_code_def dcbp_get_code_def
        dcbp_get_start_def dcbp_get_pad_bits_def header_byte_def)
qed

lemma stream_ok_init: "stream_ok (bitstream_init (replicate n 0) 0)" "bs_pos (bitstream_init bf pad) = 0"
    "buf (bitstream_init bf pad) = bf"
  by (auto simp: stream_ok_def bitstream_init_def bitstream_cursor_reset_def bs_pos_def bs_bit_def)

text \<open>The length of the code and its padding.\<close>

lemma code_length_bits:
  assumes "cur_bit bs < 8"
  shows "8 * code_length bs = bs_pos bs + (8 - cur_bit bs) mod 8" and "(8 - cur_bit bs) mod 8 < 8"
  using assms by (auto simp: code_length_def bs_pos_def mod_if)

lemma bs_bit_take: "i < 8 * n \<Longrightarrow> bs_bit (take n bf) i = bs_bit bf i"
  by (auto simp: bs_bit_def)

text \<open>A compressed packet for the bits of \<open>v\<close> from \<open>o1\<close> to \<open>o2\<close>.\<close>

definition rle_packet :: "(nat \<Rightarrow> bool) \<Rightarrow> nat \<Rightarrow> nat \<Rightarrow> nat \<Rightarrow> p_compressed_bm \<Rightarrow> bool" where
  "rle_packet v o1 o2 len p \<longleftrightarrow> (\<exists>rs n p0. n < 8 \<and> n \<le> 8 * len \<and> o1 < o2 \<and> encoding p0 = 0 \<and>
     runs_ok v o1 (v o1) rs o2 \<and> coded (take len (code_bytes p)) 0 rs (8 * len - n) \<and>
     dcbp_set_pad_bits n (dcbp_set_start (v o1) p0) = Some p)"

context bitmap_source
begin

lemma fill_loop_first:
  assumes "ok bm" and "o1 < op_bits ops bm"
  shows "fill_loop ops (op_bits ops bm) 2 p bs o1 plain bm =
    fill_loop ops (op_bits ops bm) (if view bm o1 then 0 else 1) (dcbp_set_start (view bm o1) p) bs o1 plain bm"
proof -
  let ?bits = "op_bits ops bm" and ?f = "\<lambda>s e. op_range_find_next ops s e bm"
  obtain off tmp where r: "run_end ?f ?bits o1 = Some (off, tmp)" "o1 \<le> min tmp ?bits"
    "\<forall>i. o1 \<le> i \<and> i < min tmp ?bits \<longrightarrow> \<not> view bm i" "tmp < ?bits \<longrightarrow> view bm tmp"
    using run_end_first [OF find_next [OF assms(1)] assms(2)] by blast
  show ?thesis
  proof (cases "view bm o1")
    case True
    then have "min tmp ?bits = o1" using r(2,3) by (metis le_neq_implies_less order_refl)
    then show ?thesis
      using True assms(2) r(1) by (simp add: fill_loop.simps [of ops ?bits 2 p bs o1 plain bm])
  next
    case False
    then have "tmp \<noteq> o1" using r(4) assms(2) by auto
    then have "min tmp ?bits - o1 \<noteq> 0" using r(2) assms(2) by auto
    then show ?thesis
      using False assms(2) r(1)
      by (simp add: fill_loop.simps [of ops ?bits 2 p bs o1 plain bm]
          fill_loop.simps [of ops ?bits 1 "dcbp_set_start False p" bs o1 plain bm] Let_def del: One_nat_def)
  qed
qed

text \<open>Filling a packet: either nothing is sent compressed, or the packet has the runs from here.\<close>

lemma fill_bitmap_spec:
  assumes ok: "ok bm" and bits: "c_bits c = op_bits ops bm" "op_bits ops bm < 2 ^ 64" and o1: "c_bit_offset c \<le> c_bits c"
    and w: "c_word_offset c = c_bit_offset c div 64 \<or> c_bit_offset c = c_bits c"
    and p: "encoding p = 0" "length (code_bytes p) = sz" and sz: "sz < 2 ^ 31"
  shows "\<exists>len p' c'. fill_bitmap_rle_bits ops use_rle pv p sz c bm = Some (int len, p', c', bm) \<and>
    length (code_bytes p') = sz \<and> len \<le> sz \<and>
    (if len = 0 then \<exists>x. c' = c\<lparr>c_bit_offset := x\<rparr>
     else \<exists>o2 \<le> c_bits c. rle_packet (view bm) (c_bit_offset c) o2 len p' \<and>
       c' = bm_xfer_ctx_bit_to_word_offset (c\<lparr>c_bit_offset := o2\<rparr>))"
proof (cases "use_rle \<and> \<not> pv < 90 \<and> c_bit_offset c < c_bits c")
  case False
  then have "fill_bitmap_rle_bits ops use_rle pv p sz c bm = Some (int 0, p, c, bm)"
    by (auto simp: fill_bitmap_rle_bits_def)
  moreover have "c = c\<lparr>c_bit_offset := c_bit_offset c\<rparr>" by simp
  ultimately show ?thesis using p(2) by (metis le0)
next
  case True
  let ?bs0 = "bitstream_init (replicate sz 0) 0" and ?o = "c_bit_offset c" and ?bits = "op_bits ops bm"
  let ?t = "view bm ?o"
  have lt: "?o < ?bits" using True bits by simp
  have tt: "(if ?t then 0 else 1) = (0 :: nat) \<or> (if ?t then 0 else 1) = (1 :: nat)" by simp
  have vt: "((if ?t then 0 else 1 :: nat) = 0) = ?t" by simp
  obtain ex bs o2 rs where f: "fill_loop ops ?bits 2 p ?bs0 ?o 0 bm =
      Some (ex, dcbp_set_start ?t p, bs, o2, 0 + (o2 - ?o), bm)" "ex \<noteq> Zero_run" "o2 \<le> ?bits"
    "runs_ok (view bm) ?o ?t rs o2" "coded (buf bs) (bs_pos ?bs0) rs (bs_pos bs)" "stream_ok bs" "length (buf bs) = sz"
    using fill_loop_runs [OF ok bits(2) less_imp_le [OF lt] stream_ok_init(1) [of sz] tt vt [symmetric], of "dcbp_set_start ?t p" 0]
    unfolding fill_loop_first [OF ok lt] vt stream_ok_init length_replicate by blast
  have o2: "?o \<le> o2" using f(4) by (rule runs_ok_le)
  have b: "cur_bit bs < 8" "bs_pos bs \<le> 8 * sz" using f(6,7) by (simp_all add: stream_ok_def)
  define len where "len = code_length bs"
  define n where "n = (8 - cur_bit bs) mod 8"
  have len: "8 * len = bs_pos bs + n" "n < 8" using code_length_bits [OF b(1)] by (simp_all add: len_def n_def)
  have lsz: "len \<le> sz" using len b(2) by linarith
  have nb: "\<not> 2 ^ 32 - 1 < len" using lsz sz by simp
  define p0 where "p0 = p\<lparr>code_bytes := buf bs\<rparr>"
  have p0: "encoding p0 = 0" "length (code_bytes p0) = sz" using p(1) f(7) by (simp_all add: p0_def)
  have st: "(dcbp_set_start ?t p)\<lparr>code_bytes := buf bs\<rparr> = dcbp_set_start ?t p0" by (simp add: p0_def dcbp_set_start_def)
  have lc: "length (code_bytes (dcbp_set_start ?t p0)) = sz" using p0 by (simp add: dcbp_set_start_def)
  note unf = fill_bitmap_rle_bits_def [of ops use_rle pv p sz c bm] Let_def
  have base: "fill_bitmap_rle_bits ops use_rle pv p sz c bm =
      (case ex of Zero_run \<Rightarrow> Some (-1, dcbp_set_start ?t p0, c\<lparr>c_bit_offset := o2\<rparr>, bm)
       | Encode_error \<Rightarrow> Some (0, dcbp_set_start ?t p0, c\<lparr>c_bit_offset := o2\<rparr>, bm)
       | Filled \<Rightarrow> if o2 - ?o < 8 * len
          then Some (0, dcbp_set_start ?t p0, c\<lparr>c_word_offset := ?o div 64, c_bit_offset := ?o div 64 * 64\<rparr>, bm)
          else do { p \<leftarrow> dcbp_set_pad_bits n (dcbp_set_start ?t p0);
             Some (int len, p, bm_xfer_ctx_bit_to_word_offset (c\<lparr>c_bit_offset := o2\<rparr>), bm) })"
    using True f(1) o2 nb unfolding unf
    by (simp add: bits(1) st bm_xfer_ctx_bit_to_word_offset_def flip: len_def n_def split: fill_exit.split)
  obtain q where q: "dcbp_set_pad_bits n (dcbp_set_start ?t p0) = Some q" "code_bytes q = buf bs"
    using header_fields [OF p0(1) len(2), of ?t] by (auto simp: p0_def)
  show ?thesis
  proof (cases "ex = Filled \<and> 8 * len \<le> o2 - ?o \<and> len \<noteq> 0")
    case True
    have "coded (take len (buf bs)) 0 rs (8 * len - n)"
      using coded_cong [OF f(5), of "take len (buf bs)"] bs_bit_take [of _ len "buf bs"] len
      by (simp add: stream_ok_init)
    then have "rle_packet (view bm) ?o o2 len q"
      using f(4) q p0(1) len True unfolding rle_packet_def by (intro exI [of _ rs] exI [of _ n] exI [of _ p0]) auto
    then show ?thesis using True base q f(3,7) lsz bits(1)
      by (intro exI [of _ len] exI [of _ q] exI [of _ "bm_xfer_ctx_bit_to_word_offset (c\<lparr>c_bit_offset := o2\<rparr>)"]) auto
  next
    case False
    have wo: "c_word_offset c = ?o div 64" using w lt bits by simp
    have cc: "c\<lparr>c_word_offset := ?o div 64, c_bit_offset := x\<rparr> = c\<lparr>c_bit_offset := x\<rparr>" for x using wo by simp
    have z: "o2 = ?o" if "len = 0"
    proof -
      have "coded (buf bs) 0 rs 0" using f(5) len(1) that by (simp add: stream_ok_init)
      then have "rs = []" by (rule coded_empty)
      then show ?thesis using f(4) by simp
    qed
    let ?fill = "fill_bitmap_rle_bits ops use_rle pv p sz c bm"
    have c2: "bm_xfer_ctx_bit_to_word_offset (c\<lparr>c_bit_offset := o2\<rparr>) = c\<lparr>c_bit_offset := ?o\<rparr>" if "len = 0"
      using z [OF that] wo by (simp add: bm_xfer_ctx_bit_to_word_offset_def)
    have "?fill = Some (int 0, dcbp_set_start ?t p0, c\<lparr>c_bit_offset := ?o div 64 * 64\<rparr>, bm) \<or>
        ?fill = Some (int 0, dcbp_set_start ?t p0, c\<lparr>c_bit_offset := o2\<rparr>, bm) \<or>
        ?fill = Some (int 0, q, c\<lparr>c_bit_offset := ?o\<rparr>, bm)"
      unfolding base cc using False f(2) q c2 by (cases ex) (auto simp: not_le)
    then have "\<exists>x p'. ?fill = Some (int 0, p', c\<lparr>c_bit_offset := x\<rparr>, bm) \<and> length (code_bytes p') = sz"
      using lc q(2) f(7) by metis
    then show ?thesis by (metis le0)
  qed
qed

end

context bitmap_sink
begin

text \<open>What the receiver does with a packet that covers the bits from its offset on.\<close>

lemma recv_packet:
  assumes "ok bm" and bits: "c_bits c = op_bits ops bm" "op_bits ops bm < 2 ^ 64" and pk: "rle_packet v (c_bit_offset c) o2 len p"
    and o2: "o2 \<le> c_bits c" and len: "len \<le> length (code_bytes p)" "0 < len"
  shows "\<exists>q bm'. dcbp_set_code RLE_VLI_Bits p = Some q \<and> code_bytes q = code_bytes p \<and>
    decode_bitmap_c ops (q\<lparr>code_bytes := take len (code_bytes q)\<rparr>) c (1 + len) bm =
      Some (Inr (if o2 \<noteq> c_bits c then 1 else 0), bm_xfer_ctx_bit_to_word_offset (c\<lparr>c_bit_offset := o2\<rparr>), bm') \<and>
    grown ops ok view others (\<lambda>i. c_bit_offset c \<le> i \<and> i < o2 \<and> v i) bm bm'"
proof -
  let ?o = "c_bit_offset c" and ?code = "take len (code_bytes p)"
  obtain rs n p0 where r: "n < 8" "n \<le> 8 * len" "encoding p0 = 0" "runs_ok v ?o (v ?o) rs o2"
    "coded ?code 0 rs (8 * len - n)" "dcbp_set_pad_bits n (dcbp_set_start (v ?o) p0) = Some p"
    using pk unfolding rle_packet_def by blast
  obtain q where q: "dcbp_set_code RLE_VLI_Bits p = Some q" "code_bytes q = code_bytes p" "dcbp_get_code q = RLE_VLI_Bits"
    "dcbp_get_start q = v ?o" "dcbp_get_pad_bits q = n"
    using header_fields [OF r(3,1), of "v ?o"] r(6) by auto
  let ?q = "q\<lparr>code_bytes := take len (code_bytes q)\<rparr>"
  have hq: "dcbp_get_code ?q = RLE_VLI_Bits" "dcbp_get_start ?q = v ?o" "dcbp_get_pad_bits ?q = n"
    using q by (simp_all add: dcbp_get_code_def dcbp_get_start_def dcbp_get_pad_bits_def)
  have cl: "length ?code = len" "?code \<noteq> []" using len by auto
  obtain hv look bs where g: "bitstream_get_bits (bitstream_init ?code n) 64 = Some (Inr (hv, look, bs))"
    "ahead bs 0 hv look" "buf bs = ?code" "pad_bits bs = n"
    using ahead_init [OF r(1) cl(2)] by blast
  have "coded (buf bs) 0 rs (8 * length (buf bs) - pad_bits bs)" using r(5) g(3,4) cl(1) by simp
  then obtain bm' where l: "recv_loop ops (op_bits ops bm) bs look hv ?o (v ?o) bm = Some (Inr o2, bm')"
    "grown ops ok view others (\<lambda>i. ?o \<le> i \<and> i < o2 \<and> v i) bm bm'"
    using recv_loop_runs [OF assms(1) g(2) _ r(4)] o2 bits by auto
  have "decode_bitmap_c ops ?q c (1 + len) bm =
      Some (Inr (if o2 \<noteq> c_bits c then 1 else 0), bm_xfer_ctx_bit_to_word_offset (c\<lparr>c_bit_offset := o2\<rparr>), bm')"
    using hq g(1) l(1) bits(1) q(2) by (simp add: decode_bitmap_c_def recv_bm_rle_bits_def)
  then show ?thesis using q(1,2) l(2) by blast
qed

end

end
