(* ===== verification/Bm_Xfer_Exchange.thy ===== *)
theory Bm_Xfer_Exchange
  imports Bm_Xfer_Lemmas
begin

text \<open>
  The bitmap exchange as a whole, over the contract of the bitmap: a sender and a receiver that take turns packet by
  packet stay at the same place of the bitmap, whether packets are compressed or plain, and the
  exchange ends on both sides with the same packet.
\<close>

section \<open>Words in a byte buffer\<close>

lemma le32_bytes_length [simp]: "length (le32_bytes ws) = 4 * length ws"
  by (induction ws) simp_all

lemma le32_word: "(ucast (ucast w :: u8) OR push_bit 8 (ucast (ucast (drop_bit 8 w) :: u8)) OR
    push_bit 16 (ucast (ucast (drop_bit 16 w) :: u8)) OR push_bit 24 (ucast (ucast (drop_bit 24 w) :: u8)) :: u32) = w"
proof (rule bit_word_eqI)
  fix n assume n: "n < LENGTH(32)"
  then consider "n < 8" | "8 \<le> n" "n < 16" | "16 \<le> n" "n < 24" | "24 \<le> n" "n < 32" by fastforce
  then show "bit (ucast (ucast w :: u8) OR push_bit 8 (ucast (ucast (drop_bit 8 w) :: u8)) OR
    push_bit 16 (ucast (ucast (drop_bit 16 w) :: u8)) OR push_bit 24 (ucast (ucast (drop_bit 24 w) :: u8)) :: u32) n = bit w n"
    by cases (auto simp: bit_simps)
qed

lemma le32_words_append: "le32_words (le32_bytes ws @ bs) = ws @ le32_words bs"
proof (induction ws)
  case (Cons w ws)
  then show ?case by (simp only: le32_bytes.simps le32_words.simps append_Cons le32_word)
qed simp

lemma le32_words_length: "length (le32_words bs) = length bs div 4"
  by (induction bs rule: le32_words.induct) simp_all

text \<open>The payload of a plain packet starts with the words of the bitmap.\<close>

lemma payload_words:
  assumes "length ws \<le> 2 * num" and "8 * num \<le> length rest"
  defines "pl \<equiv> take (num * 8) (le32_bytes ws @ drop (length (le32_bytes ws)) rest)"
  shows "length pl = num * 8" and "length (le32_words pl) = 2 * num" and "\<And>j. j < length ws \<Longrightarrow> le32_words pl ! j = ws ! j"
proof -
  show l: "length pl = num * 8" using assms by auto
  then show "length (le32_words pl) = 2 * num" by (simp add: le32_words_length)
  have "pl = le32_bytes ws @ take (num * 8 - 4 * length ws) (drop (length (le32_bytes ws)) rest)"
    using assms(1) by (simp add: pl_def)
  then show "le32_words pl ! j = ws ! j" if "j < length ws" for j
    using that by (simp add: le32_words_append nth_append)
qed

section \<open>One packet\<close>

text \<open>Sender and receiver are at the same place.\<close>

definition in_step :: "bm_xfer_ctx \<Rightarrow> bm_xfer_ctx \<Rightarrow> bool" where
  "in_step c d \<longleftrightarrow> c_bits d = c_bits c \<and> c_words d = c_words c \<and> c_bit_offset d = c_bit_offset c \<and>
     c_word_offset d = c_word_offset c \<and> c_bit_offset c \<le> c_bits c \<and> c_word_offset c \<le> c_words c \<and>
     c_bits c \<le> 64 * c_words c \<and> 64 * c_words c < 2 ^ 64 \<and>
     (c_word_offset c = c_bit_offset c div 64 \<or> c_bit_offset c = c_bits c \<and> c_bits c \<le> 64 * c_word_offset c)"

lemma plain_words_le:
  assumes "c_word_offset c \<le> c_words c" and "64 * c_words c < 2 ^ 64"
  shows "plain_words pv c = min ((BSR_SOCKET_BUFFER_SIZE - bsr_header_size pv) div 8) (c_words c - c_word_offset c)"
proof -
  have "2 ^ 64 + c_words c - c_word_offset c = (c_words c - c_word_offset c) + 2 ^ 64" using assms(1) by simp
  then have "(2 ^ 64 + c_words c - c_word_offset c) mod 2 ^ 64 = c_words c - c_word_offset c"
    by (simp only: mod_add_self2) (use assms(2) in simp)
  then show ?thesis by (simp add: plain_words_def)
qed

lemma pass_words_le:
  assumes "c_word_offset c + n \<le> c_words c" and "64 * c_words c < 2 ^ 64"
  shows "pass_words n c = c\<lparr>c_word_offset := c_word_offset c + n, c_bit_offset := min ((c_word_offset c + n) * 64) (c_bits c)\<rparr>"
  using assms by (simp add: pass_words_def Let_def)

definition finish_result :: "nat \<Rightarrow> bsr_repl_state \<Rightarrow> errno + bm_action list option" where
  "finish_result pv repl = (case fst (receive_bitmap_finished pv repl bm_xfer_ctx0) of Inl e \<Rightarrow> Inl e | Inr a \<Rightarrow> Inr (Some a))"

lemma finish_result_neq [simp]: "finish_result pv repl \<noteq> Inr None"
  by (auto simp: finish_result_def split: sum.splits)

lemma receive_bitmap_ok:
  fixes n :: nat
  assumes "receive_packet ops pv True pkt (recv_ctx ops bm d) bm = Some (Inr n, c, bm')" and "\<not> packet_refused pv True pkt"
  shows "\<exists>d'. receive_bitmap ops pv True repl pkt d bm = Some (if n = 0 then finish_result pv repl else Inr None, d', bm') \<and>
    (n \<noteq> 0 \<longrightarrow> (\<exists>i m. d' = xfer_stats i m c))"
proof -
  have fin: "receive_bitmap_finished pv repl x = (fst (receive_bitmap_finished pv repl bm_xfer_ctx0), x\<lparr>c_count := 0\<rparr>)" for x
    by (simp add: receive_bitmap_finished_def Let_def)
  let ?c = "xfer_stats (is_plain pkt) (bsr_header_size pv + packet_size pkt) c"
  have "receive_bitmap ops pv True repl pkt d bm =
      Some (if n = 0 then finish_result pv repl else Inr None, if n = 0 then ?c\<lparr>c_count := 0\<rparr> else ?c, bm')"
    using assms fin [of ?c] by (simp add: receive_bitmap_def finish_result_def split: sum.split)
  then show ?thesis by auto
qed

section \<open>The exchange\<close>

definition send_ok :: send_env where
  "send_ok = \<lparr>mem_ok = True, send_buffer_ok = True, wire_ok = True\<rparr>"

text \<open>What is left to send.\<close>

definition xfer_left :: "bm_xfer_ctx \<Rightarrow> nat" where
  "xfer_left c = (c_words c - c_word_offset c) + (c_bits c - c_bit_offset c)"

lemma xfer_stats_sel [simp]:
  "c_bits (xfer_stats i n c) = c_bits c" "c_words (xfer_stats i n c) = c_words c"
  "c_bit_offset (xfer_stats i n c) = c_bit_offset c" "c_word_offset (xfer_stats i n c) = c_word_offset c"
  "c_count (xfer_stats i n c) = c_count c"
  by (simp_all add: xfer_stats_def)

locale bitmap_transfer =
  src: bitmap_source sops sok sview + snk: bitmap_sink rops rok rview rothers
  for sops :: "'s bm_ops" and sok sview and rops :: "'r bm_ops" and rok rview and rothers :: "'r \<Rightarrow> 'o"
begin

text \<open>
  One iteration of the sender and the packet at the receiver: the receiver gets bits of the sender
  only, all of those that the sender has passed, and both stay in step.
\<close>

definition exchanged where
  "exchanged pv repl use_rle c d sb rb \<longleftrightarrow> (\<exists>n pkt c' d' rb' P.
     send_bitmap_rle_or_plain sops use_rle pv send_ok c sb = Some (Inr n, [pkt], c', sb) \<and>
     receive_bitmap rops pv True repl pkt d rb = Some (if n = 0 then finish_result pv repl else Inr None, d', rb') \<and>
     grown rops rok rview rothers P rb rb' \<and> (\<forall>i. P i \<longrightarrow> sview sb i) \<and>
     (\<forall>i. c_bit_offset c \<le> i \<and> i < c_bit_offset c' \<and> sview sb i \<longrightarrow> P i) \<and>
     c_bits c' = c_bits c \<and> c_words c' = c_words c \<and> n \<le> 1 \<and> (n = 0 \<longrightarrow> c_bit_offset c' = c_bits c) \<and>
     (n \<noteq> 0 \<longrightarrow> in_step c' d' \<and> c_count d' \<noteq> 0 \<and> xfer_left c' < xfer_left c))"

lemma exchange_rle:
  assumes ok: "sok sb" "rok rb" and bits: "op_bits sops sb = c_bits c" "op_bits rops rb = c_bits c" "c_bits c < 2 ^ 64"
    and st: "in_step c (recv_ctx rops rb d)"
    and f: "fill_bitmap_rle_bits sops use_rle pv \<lparr>encoding = 0, code_bytes = replicate (code_space pv) 0\<rparr> (code_space pv) c sb = Some (int len, p, c1, sb)"
    and len: "0 < len" "len \<le> code_space pv" "length (code_bytes p) = code_space pv"
    and o2: "o2 \<le> c_bits c" "rle_packet (sview sb) (c_bit_offset c) o2 len p"
      "c1 = bm_xfer_ctx_bit_to_word_offset (c\<lparr>c_bit_offset := o2\<rparr>)"
  shows "exchanged pv repl use_rle c d sb rb"
proof -
  let ?d = "recv_ctx rops rb d"
  have d: "c_bits ?d = op_bits rops rb" "c_bit_offset ?d = c_bit_offset c" using st bits by (simp_all add: in_step_def)
  have lc: "len \<le> length (code_bytes p)" using len by simp
  have o2': "o2 \<le> c_bits ?d" using o2(1) d bits by simp
  obtain q rb' where q: "dcbp_set_code RLE_VLI_Bits p = Some q" "code_bytes q = code_bytes p"
    and dec: "decode_bitmap_c rops (q\<lparr>code_bytes := take len (code_bytes q)\<rparr>) ?d (1 + len) rb =
      Some (Inr (if o2 \<noteq> c_bits ?d then 1 else 0), bm_xfer_ctx_bit_to_word_offset (?d\<lparr>c_bit_offset := o2\<rparr>), rb')"
    and g: "grown rops rok rview rothers (\<lambda>i. c_bit_offset c \<le> i \<and> i < o2 \<and> sview sb i) rb rb'"
    using snk.recv_packet [OF ok(2) d(1) _ o2(2) [folded d(2)] o2' lc len(1)] bits unfolding d(2) by auto
  define pkt where "pkt = P_COMPRESSED_BITMAP (q\<lparr>code_bytes := take len (code_bytes q)\<rparr>)"
  define n where "n = (if c_bits c \<le> o2 then 0 else 1 :: nat)"
  have n: "(if o2 \<noteq> c_bits ?d then 1 else 0) = n" using o2(1) st by (auto simp: n_def in_step_def)
  have pl: "length (code_bytes (q\<lparr>code_bytes := take len (code_bytes q)\<rparr>)) = len" using lc q by simp
  have rp: "receive_packet rops pv True pkt ?d rb = Some (Inr n, bm_xfer_ctx_bit_to_word_offset (?d\<lparr>c_bit_offset := o2\<rparr>), rb')"
    using dec unfolding pkt_def receive_packet.simps pl n .
  have nr: "\<not> packet_refused pv True pkt"
    using len unfolding pkt_def packet_refused.simps pl code_space_def by auto
  obtain d' where rec: "receive_bitmap rops pv True repl pkt d rb =
      Some (if n = 0 then finish_result pv repl else Inr None, d', rb')"
    "n \<noteq> 0 \<longrightarrow> (\<exists>i m. d' = xfer_stats i m (bm_xfer_ctx_bit_to_word_offset (?d\<lparr>c_bit_offset := o2\<rparr>)))"
    using receive_bitmap_ok [OF rp nr, of repl] by blast
  let ?c' = "xfer_stats 0 (bsr_header_size pv + 1 + len) c1"
  have send: "send_bitmap_rle_or_plain sops use_rle pv send_ok c sb = Some (Inr n, [pkt], ?c', sb)"
    using f len(1) q o2(3)
    by (simp add: send_bitmap_rle_or_plain_def send_rle_packet_def send_ok_def pkt_def n_def bm_xfer_ctx_bit_to_word_offset_def)
  have lt: "c_bit_offset c < o2" using o2(2) by (auto simp: rle_packet_def)
  have "in_step ?c' d' \<and> c_count d' \<noteq> 0 \<and> xfer_left ?c' < xfer_left c" if n0: "n \<noteq> 0"
  proof -
    obtain i m where d': "d' = xfer_stats i m (bm_xfer_ctx_bit_to_word_offset (?d\<lparr>c_bit_offset := o2\<rparr>))" using rec(2) n0 by blast
    have w: "c_word_offset c = c_bit_offset c div 64" "c_bits c \<le> 64 * c_words c" using st lt o2(1) by (auto simp: in_step_def)
    have w2: "o2 div 64 \<le> c_words c" using o2(1) w(2) by linarith
    have cnt: "c_count ?d \<noteq> 0" by (simp add: recv_ctx_def Let_def)
    have "in_step ?c' d'" using st o2(1) w2 unfolding in_step_def d' o2(3) by (simp add: bm_xfer_ctx_bit_to_word_offset_def)
    moreover have "c_count d' \<noteq> 0" using cnt by (simp add: d' bm_xfer_ctx_bit_to_word_offset_def)
    moreover have "c_words c - o2 div 64 \<le> c_words c - c_word_offset c" using lt by (simp add: w(1) div_le_mono diff_le_mono2)
    then have "xfer_left ?c' < xfer_left c" using lt o2(1) by (simp add: xfer_left_def o2(3) bm_xfer_ctx_bit_to_word_offset_def)
    ultimately show ?thesis by blast
  qed
  moreover have "c_bit_offset ?c' = o2" "c_bits ?c' = c_bits c" "c_words ?c' = c_words c"
    by (simp_all add: o2(3) bm_xfer_ctx_bit_to_word_offset_def)
  moreover have "n = 0 \<Longrightarrow> o2 = c_bits c" using o2(1) by (simp add: n_def split: if_splits)
  moreover have "n \<le> 1" by (simp add: n_def)
  ultimately show ?thesis unfolding exchanged_def using send rec(1) g by blast
qed

lemma exchange_plain:
  assumes ok: "sok sb" "rok rb" and bits: "op_bits sops sb = c_bits c" "op_bits rops rb = c_bits c"
    and st: "in_step c (recv_ctx rops rb d)"
    and f: "fill_bitmap_rle_bits sops use_rle pv \<lparr>encoding = 0, code_bytes = replicate (code_space pv) 0\<rparr> (code_space pv) c sb =
      Some (0, p, c1, sb)"
    and c1: "c1 = c\<lparr>c_bit_offset := x\<rparr>" and len: "length (code_bytes p) = code_space pv"
  shows "exchanged pv repl use_rle c d sb rb"
proof -
  let ?d = "recv_ctx rops rb d" and ?w = "c_word_offset c"
  define num where "num = plain_words pv c"
  have nums: "plain_words pv c1 = num" "plain_words pv ?d = num" "plain_words pv c = num"
    using st by (simp_all add: num_def plain_words_def c1 in_step_def)
  have pw_c: "num = min ((BSR_SOCKET_BUFFER_SIZE - bsr_header_size pv) div 8) (c_words c - ?w)"
    using plain_words_le [of c pv] st by (simp add: num_def in_step_def)
  have in_words: "?w + num \<le> c_words c" "64 * c_words c < 2 ^ 64" using pw_c st unfolding in_step_def by linarith+
  have passed: "pass_words num c1 = c1\<lparr>c_word_offset := ?w + num, c_bit_offset := min ((?w + num) * 64) (c_bits c)\<rparr>"
    using pass_words_le [of c1 num] in_words by (simp add: c1)
  define ws where "ws = (if num = 0 then [] else the (op_get_lel sops ?w num sb))"
  have get: "(if num * 8 \<noteq> 0 then op_get_lel sops ?w num sb else Some []) = Some ws" "length ws \<le> 2 * num"
    and view: "\<And>i. ?w * 64 \<le> i \<Longrightarrow> i < (?w + num) * 64 \<Longrightarrow> i < c_bits c \<Longrightarrow> i div 32 - 2 * ?w < length ws \<and> lel_bit ws ?w i = sview sb i"
    using src.get_lel [OF ok(1), of num ?w] bits(1) by (cases "num = 0"; force simp: ws_def)+
  define pl where "pl = take (num * 8) (le32_bytes ws @ drop (length (le32_bytes ws)) (encoding p # code_bytes p))"
  have room: "8 * num \<le> length (encoding p # code_bytes p)"
  proof -
    have "num \<le> (BSR_SOCKET_BUFFER_SIZE - bsr_header_size pv) div 8" by (simp add: num_def plain_words_def)
    moreover have "1 \<le> BSR_SOCKET_BUFFER_SIZE - bsr_header_size pv" by (simp add: BSR_SOCKET_BUFFER_SIZE_def bsr_header_size_def)
    ultimately show ?thesis using len by (simp add: code_space_def)
  qed
  note pw = payload_words [OF get(2) room, folded pl_def]
  define n where "n = (if num * 8 = 0 then 0 else 1 :: nat)"
  let ?c' = "xfer_stats 1 (bsr_header_size pv + num * 8) (pass_words num c1)"
  have send: "send_bitmap_rle_or_plain sops use_rle pv send_ok c sb = Some (Inr n, [P_BITMAP pl], ?c', sb)"
  proof -
    have w1: "c_word_offset c1 = ?w" by (simp add: c1)
    have "send_plain_packet sops pv send_ok p c1 sb = Some (Inr n, [P_BITMAP pl], ?c')"
      unfolding send_plain_packet_def Let_def nums w1 get(1) pl_def n_def send_ok_def by simp
    then show ?thesis using f by (simp add: send_bitmap_rle_or_plain_def) (simp add: send_ok_def)
  qed
  have step: "c_bit_offset ?c' = min ((?w + num) * 64) (c_bits c)" "c_word_offset ?c' = ?w + num"
    "c_bits ?c' = c_bits c" "c_words ?c' = c_words c"
    unfolding passed by (simp_all add: c1)
  show ?thesis
  proof (cases "num = 0")
    case True
    have "?w = c_words c" using True st pw_c by (auto simp: in_step_def BSR_SOCKET_BUFFER_SIZE_def bsr_header_size_def split: if_splits)
    then have fin: "c_bit_offset ?c' = c_bits c" using st step(1) by (auto simp: in_step_def True)
    have rp: "receive_packet rops pv True (P_BITMAP pl) ?d rb = Some (Inr n, ?d, rb)"
      using True by (simp add: receive_bitmap_plain_def nums pl_def n_def)
    obtain d' where rec: "receive_bitmap rops pv True repl (P_BITMAP pl) d rb =
        Some (if n = 0 then finish_result pv repl else Inr None, d', rb)"
      using receive_bitmap_ok [OF rp, of repl] by auto
    have "c_bits c \<le> c_bit_offset c"
    proof -
      have "c_bits c \<le> 64 * ?w" using st \<open>?w = c_words c\<close> by (simp add: in_step_def)
      moreover have "?w = c_bit_offset c div 64 \<or> c_bit_offset c = c_bits c" using st by (auto simp: in_step_def)
      ultimately show ?thesis by auto
    qed
    then show ?thesis
      unfolding exchanged_def using send rec fin step(3,4) grown_refl [of rok, OF ok(2), of rops rview rothers] True
      by (intro exI [of _ n] exI [of _ "P_BITMAP pl"] exI [of _ ?c'] exI [of _ d'] exI [of _ rb] exI [of _ "\<lambda>i. False"]) (simp add: n_def)
  next
    case False
    let ?P = "\<lambda>i. ?w * 64 \<le> i \<and> i < (?w + num) * 64 \<and> i < c_bits c \<and> sview sb i"
    have n1: "n = 1" using False by (simp add: n_def)
    obtain rb' where mg: "op_merge_lel rops ?w num (le32_words pl) rb = Some rb'"
      "grown rops rok rview rothers (\<lambda>i. ?w * 64 \<le> i \<and> i < (?w + num) * 64 \<and> lel_bit (le32_words pl) ?w i) rb rb'"
      using snk.merge_lel [OF ok(2) _ pw(2), of ?w] False by blast
    have g: "grown rops rok rview rothers ?P rb rb'"
    proof (rule grown_cong [OF mg(2)])
      fix i assume i: "i < op_bits rops rb"
      have "lel_bit (le32_words pl) ?w i = sview sb i" if "?w * 64 \<le> i" "i < (?w + num) * 64"
        using view [OF that] pw(2,3) get(2) i bits(2) by (auto simp: lel_bit_def)
      then show "rview rb i \<or> ?w * 64 \<le> i \<and> i < (?w + num) * 64 \<and> lel_bit (le32_words pl) ?w i \<longleftrightarrow> rview rb i \<or> ?P i"
        using i bits(2) by auto
    qed
    have wd: "c_word_offset ?d = ?w" using st by (simp add: in_step_def)
    have rp: "receive_packet rops pv True (P_BITMAP pl) ?d rb = Some (Inr n, pass_words num ?d, rb')"
      using False mg(1) pw(1) by (simp add: receive_bitmap_plain_def nums n_def wd Let_def)
    obtain d' i m where rec: "receive_bitmap rops pv True repl (P_BITMAP pl) d rb =
        Some (if n = 0 then finish_result pv repl else Inr None, d', rb')" "d' = xfer_stats i m (pass_words num ?d)"
      using receive_bitmap_ok [OF rp, of repl] n1 by auto
    have num: "?w + num \<le> c_words c" "0 < num" using False in_words by linarith+
    have passed': "pass_words num ?d = ?d\<lparr>c_word_offset := ?w + num, c_bit_offset := min ((?w + num) * 64) (c_bits c)\<rparr>"
      using pass_words_le [of ?d num] in_words st by (simp add: in_step_def)
    have low: "?w * 64 \<le> c_bit_offset c \<or> c_bit_offset c = c_bits c" "c_bit_offset c \<le> c_bit_offset ?c'"
      using st num unfolding step(1) in_step_def by auto
    have "in_step ?c' d'" using st num unfolding in_step_def rec(2) passed passed' unfolding c1 by (auto simp: min_def)
    moreover have "c_count d' \<noteq> 0" unfolding rec(2) passed' by (simp add: recv_ctx_def Let_def)
    moreover have "c_words c - (?w + num) < c_words c - ?w" "c_bits c - c_bit_offset ?c' \<le> c_bits c - c_bit_offset c"
      using num low(2) by linarith+
    then have "xfer_left ?c' < xfer_left c" unfolding xfer_left_def step(2-4) by linarith
    moreover have "\<forall>i. c_bit_offset c \<le> i \<and> i < c_bit_offset ?c' \<and> sview sb i \<longrightarrow> ?P i" using low(1) unfolding step(1) by auto
    ultimately show ?thesis
      unfolding exchanged_def using send rec(1) g step(3,4) n1
      by (intro exI [of _ n] exI [of _ "P_BITMAP pl"] exI [of _ ?c'] exI [of _ d'] exI [of _ rb'] exI [of _ ?P]) simp
  qed
qed

lemma exchange_step:
  assumes ok: "sok sb" "rok rb" and bits: "op_bits sops sb = c_bits c" "op_bits rops rb = c_bits c" "c_bits c < 2 ^ 64"
    and st: "in_step c (recv_ctx rops rb d)"
  shows "exchanged pv repl use_rle c d sb rb"
proof -
  have sz: "code_space pv < 2 ^ 31" by (simp add: code_space_def BSR_SOCKET_BUFFER_SIZE_def)
  have w: "c_word_offset c = c_bit_offset c div 64 \<or> c_bit_offset c = c_bits c" "c_bit_offset c \<le> c_bits c"
    using st by (auto simp: in_step_def)
  let ?p = "\<lparr>encoding = 0, code_bytes = replicate (code_space pv) 0\<rparr> :: p_compressed_bm"
  obtain len p c1 where f: "fill_bitmap_rle_bits sops use_rle pv ?p (code_space pv) c sb = Some (int len, p, c1, sb)"
    "length (code_bytes p) = code_space pv" "len \<le> code_space pv"
    and r: "if len = 0 then \<exists>x. c1 = c\<lparr>c_bit_offset := x\<rparr>
     else \<exists>o2 \<le> c_bits c. rle_packet (sview sb) (c_bit_offset c) o2 len p \<and>
       c1 = bm_xfer_ctx_bit_to_word_offset (c\<lparr>c_bit_offset := o2\<rparr>)"
    using src.fill_bitmap_spec [OF ok(1) bits(1) [symmetric] _ w(2,1) _ _ sz, of ?p use_rle pv] bits(1,3) by fastforce
  show ?thesis
  proof (cases "len = 0")
    case True
    then obtain x where "c1 = c\<lparr>c_bit_offset := x\<rparr>" using r by auto
    then show ?thesis using exchange_plain [OF ok bits(1,2) st _ _ f(2)] f(1) True by simp
  next
    case False
    then obtain o2 where "o2 \<le> c_bits c" "rle_packet (sview sb) (c_bit_offset c) o2 len p"
      "c1 = bm_xfer_ctx_bit_to_word_offset (c\<lparr>c_bit_offset := o2\<rparr>)" using r by auto
    then show ?thesis using exchange_rle [OF ok bits st f(1) _ f(3,2)] False by simp
  qed
qed

text \<open>The whole exchange ends, at both sides with the last packet.\<close>

lemma exchange_all:
  assumes "sok sb" and "rok rb" and "op_bits sops sb = c_bits c" and "op_bits rops rb = c_bits c" and "c_bits c < 2 ^ 64"
    and "in_step c (recv_ctx rops rb d)"
  shows "\<exists>pkts c' d' rb' P. send_bitmap_loop sops use_rle pv (\<lambda>i. send_ok) k c sb = Some (Inr 0, pkts, c', sb) \<and>
    receive_all rops pv repl pkts d rb = Some (finish_result pv repl, [], d', rb') \<and>
    grown rops rok rview rothers P rb rb' \<and> (\<forall>i. P i \<longrightarrow> sview sb i) \<and>
    (\<forall>i. c_bit_offset c \<le> i \<and> i < c_bits c \<and> sview sb i \<longrightarrow> P i)"
  using assms
proof (induction "xfer_left c" arbitrary: c d rb k rule: less_induct)
  case less
  obtain n pkt c1 d1 rb1 P where e:
    "send_bitmap_rle_or_plain sops use_rle pv send_ok c sb = Some (Inr n, [pkt], c1, sb)"
    "receive_bitmap rops pv True repl pkt d rb = Some (if n = 0 then finish_result pv repl else Inr None, d1, rb1)"
    "grown rops rok rview rothers P rb rb1" "\<forall>i. P i \<longrightarrow> sview sb i"
    "\<forall>i. c_bit_offset c \<le> i \<and> i < c_bit_offset c1 \<and> sview sb i \<longrightarrow> P i" "c_bits c1 = c_bits c" "c_words c1 = c_words c" "n \<le> 1"
    "n = 0 \<longrightarrow> c_bit_offset c1 = c_bits c" "n \<noteq> 0 \<longrightarrow> in_step c1 d1 \<and> c_count d1 \<noteq> 0 \<and> xfer_left c1 < xfer_left c"
    using exchange_step [OF less.prems, of pv repl use_rle] unfolding exchanged_def by blast
  show ?case
  proof (cases "n = 0")
    case True
    then have "send_bitmap_loop sops use_rle pv (\<lambda>i. send_ok) k c sb = Some (Inr 0, [pkt], c1, sb)"
      using e(1) by (simp add: send_bitmap_loop.simps [of _ _ _ _ k])
    moreover have "receive_all rops pv repl [pkt] d rb = Some (finish_result pv repl, [], d1, rb1)" using e(2) True by simp
    ultimately show ?thesis using e(3,4,5,9) True by metis
  next
    case False
    then have n: "n = 1" using e(8) by simp
    have b: "rok rb1" "op_bits rops rb1 = op_bits rops rb" using e(3) by (simp_all add: grown_def)
    have d1: "in_step c1 (recv_ctx rops rb1 d1)" using e(10) n by (simp add: recv_ctx_def in_step_def)
    obtain pkts c' d' rb' Q where i: "send_bitmap_loop sops use_rle pv (\<lambda>i. send_ok) (k + 1) c1 sb = Some (Inr 0, pkts, c', sb)"
      "receive_all rops pv repl pkts d1 rb1 = Some (finish_result pv repl, [], d', rb')"
      "grown rops rok rview rothers Q rb1 rb'" "\<forall>i. Q i \<longrightarrow> sview sb i"
      "\<forall>i. c_bit_offset c1 \<le> i \<and> i < c_bits c1 \<and> sview sb i \<longrightarrow> Q i"
      using less.hyps [OF _ less.prems(1) b(1) _ _ _ d1, of "k + 1"] e(6,10) n b(2) less.prems(3-5) by auto
    have "send_bitmap_loop sops use_rle pv (\<lambda>i. send_ok) k c sb = Some (Inr 0, pkt # pkts, c', sb)"
      using e(1) i(1) n by (simp add: send_bitmap_loop.simps [of _ _ _ _ k])
    moreover have "receive_all rops pv repl (pkt # pkts) d rb = Some (finish_result pv repl, [], d', rb')"
      using e(2) i(2) n by simp
    moreover have "\<forall>j. c_bit_offset c \<le> j \<and> j < c_bits c \<and> sview sb j \<longrightarrow> P j \<or> Q j"
      using e(5) i(5) e(6) by (metis not_le)
    ultimately show ?thesis using grown_trans [OF e(3) i(3)] e(4) i(4)
      by (intro exI [of _ "pkt # pkts"] exI [of _ c'] exI [of _ d'] exI [of _ rb'] exI [of _ "\<lambda>i. P i \<or> Q i"]) blast
  qed
qed

text \<open>From the start: the receiver ends up with its own bits and those of the sender.\<close>

lemma bitmap_exchange:
  assumes "sok sb" and "rok rb" and "c_count d = 0" and "op_bits sops sb < 2 ^ 64"
    and "op_bits rops rb = op_bits sops sb" and "op_words rops rb = op_words sops sb" and "op_bits sops sb \<le> 64 * op_words sops sb"
    and "64 * op_words sops sb < 2 ^ 64"
  shows "\<exists>pkts d' rb'. bsr_send_bitmap0 sops use_rle pv (\<lambda>i. send_ok) ldev w False sb = Some (True, pkts, False, sb) \<and>
    receive_all rops pv repl pkts d rb = Some (finish_result pv repl, [], d', rb') \<and>
    grown rops rok rview rothers (\<lambda>i. sview sb i) rb rb'"
proof -
  let ?c = "bm_xfer_ctx0\<lparr>c_bits := op_bits sops sb, c_words := op_words sops sb\<rparr>"
  have st: "in_step ?c (recv_ctx rops rb d)" using assms(3,5-) by (simp add: in_step_def recv_ctx_def bm_xfer_ctx0_def)
  obtain pkts c' d' rb' P where e: "send_bitmap_loop sops use_rle pv (\<lambda>i. send_ok) 0 ?c sb = Some (Inr 0, pkts, c', sb)"
    "receive_all rops pv repl pkts d rb = Some (finish_result pv repl, [], d', rb')"
    "grown rops rok rview rothers P rb rb'" "\<forall>i. P i \<longrightarrow> sview sb i"
    "\<forall>i. c_bit_offset ?c \<le> i \<and> i < c_bits ?c \<and> sview sb i \<longrightarrow> P i"
    using exchange_all [OF assms(1,2) _ _ _ st, of use_rle pv 0 repl] assms(4,5) by auto
  have "grown rops rok rview rothers (\<lambda>i. sview sb i) rb rb'"
    by (rule grown_cong [OF e(3)]) (use e(4,5) assms(5) in \<open>auto simp: bm_xfer_ctx0_def\<close>)
  then show ?thesis using e(1,2) by (simp add: bsr_send_bitmap0_def)
qed

end

section \<open>Packets of any content\<close>

context bitmap_sink
begin

lemma decode_any:
  assumes "ok bm" and "c_bits c = op_bits ops bm" and "0 < length (code_bytes p)"
  shows "\<exists>r c' bm' P. decode_bitmap_c ops p c (1 + length (code_bytes p)) bm = Some (r, c', bm') \<and>
    grown ops ok view others P bm bm' \<and> c_bits c' = c_bits c"
proof (cases "dcbp_get_code p = RLE_VLI_Bits")
  case True
  have "drop_bit 4 (encoding p) AND 7 = take_bit 3 (drop_bit 4 (encoding p))" by (simp add: take_bit_eq_mask mask_eq_exp_minus_1)
  then have pad: "dcbp_get_pad_bits p < 8"
    using take_bit_nat_less_exp [of 3 "unat (drop_bit 4 (encoding p))"] by (simp add: dcbp_get_pad_bits_def unsigned_take_bit_eq)
  obtain hv look bs where g: "bitstream_get_bits (bitstream_init (code_bytes p) (dcbp_get_pad_bits p)) 64 = Some (Inr (hv, look, bs))"
    "ahead bs 0 hv look"
    using ahead_init [OF pad, of "code_bytes p"] assms(3) by auto
  obtain r bm' P where l: "recv_loop ops (op_bits ops bm) bs look hv (c_bit_offset c) (dcbp_get_start p) bm = Some (r, bm')"
    "grown ops ok view others P bm bm'"
    using recv_loop_any [OF assms(1) g(2)] by blast
  then show ?thesis
    using True g(1) assms(2)
    by (cases r) (auto simp: decode_bitmap_c_def recv_bm_rle_bits_def bm_xfer_ctx_bit_to_word_offset_def)
next
  case False
  then show ?thesis using grown_refl [of ok, OF assms(1)] by (auto simp: decode_bitmap_c_def)
qed

lemma plain_any:
  assumes "ok bm"
  shows "\<exists>r c' bm' P. receive_bitmap_plain ops pv recv_ok bytes c bm = Some (r, c', bm') \<and>
    grown ops ok view others P bm bm' \<and> c_bits c' = c_bits c"
proof (cases "plain_words pv c * 8 = length bytes \<and> length bytes \<noteq> 0 \<and> recv_ok")
  case True
  then have "length (le32_words bytes) = 2 * plain_words pv c" "0 < plain_words pv c"
    by (simp_all add: le32_words_length flip: True [THEN conjunct1])
  then show ?thesis
    using merge_lel [OF assms, of "plain_words pv c" "le32_words bytes" "c_word_offset c"] True
    by (auto simp: receive_bitmap_plain_def pass_words_def Let_def)
next
  case False
  then show ?thesis using grown_refl [of ok, OF assms] by (auto simp: receive_bitmap_plain_def Let_def)
qed

lemma receive_any:
  assumes "ok bm" and "c_count c \<noteq> 0 \<longrightarrow> c_bits c = op_bits ops bm"
  shows "\<exists>r c' bm' P. receive_bitmap ops pv recv_ok repl pkt c bm = Some (r, c', bm') \<and>
    grown ops ok view others P bm bm' \<and> c_bits c' = op_bits ops bm"
proof -
  let ?c = "recv_ctx ops bm c"
  have b: "c_bits ?c = op_bits ops bm" using assms(2) by (auto simp: recv_ctx_def)
  have fin: "receive_bitmap_finished pv repl x = (fst (receive_bitmap_finished pv repl bm_xfer_ctx0), x\<lparr>c_count := 0\<rparr>)" for x
    by (simp add: receive_bitmap_finished_def Let_def)
  show ?thesis
  proof (cases "packet_refused pv recv_ok pkt")
    case True
    then show ?thesis using grown_refl [of ok, OF assms(1)] b by (auto simp: receive_bitmap_def)
  next
    case False
    then obtain r c' bm' P where p: "receive_packet ops pv recv_ok pkt ?c bm = Some (r, c', bm')"
      "grown ops ok view others P bm bm'" "c_bits c' = op_bits ops bm"
      using decode_any [OF assms(1) b] plain_any [OF assms(1), of pv recv_ok _ ?c] b by (cases pkt) fastforce+
    then show ?thesis
      using False fin [of "xfer_stats (is_plain pkt) (bsr_header_size pv + packet_size pkt) c'"]
      by (cases r; cases "fst (receive_bitmap_finished pv repl bm_xfer_ctx0)") (auto simp: receive_bitmap_def Let_def)
  qed
qed

end

end
