(* ===== verification/Bitmap_Lel.thy ===== *)
theory Bitmap_Lel
  imports Bitmap_Ops
begin

text \<open>
  Reading and merging little endian words (\<^verbatim>\<open>bsr_bm_get_lel\<close>, \<^verbatim>\<open>bsr_bm_merge_lel\<close>): the operations \<open>BM_OP_EXTRACT\<close> and \<open>BM_OP_MERGE\<close> of
  \<open>bm_op4\<close>, whose ranges start at a word.  \<open>lel_walked\<close> is the invariant of their walk over the pages, \<open>lel_step\<close> the work
  on one word.
\<close>

section \<open>One word\<close>

text \<open>
  \<open>data i\<close> is the bit that the buffer \<open>B\<close> has for bit \<open>i\<close> of the peer, when the first word of the buffer belongs to bit \<open>lo\<close>.
\<close>

definition data :: "u32 list \<Rightarrow> nat \<Rightarrow> nat \<Rightarrow> bool" where
  "data B lo i \<longleftrightarrow> bit (B ! ((i - lo) div 32)) (i mod 32)"

definition lel_op :: "bitmap_operations \<Rightarrow> bool" where
  "lel_op op \<longleftrightarrow> op = BM_OP_MERGE \<or> op = BM_OP_EXTRACT"

text \<open>How many words the bits from \<open>lo\<close> to \<open>s\<close> are in.\<close>

definition passed :: "nat \<Rightarrow> nat \<Rightarrow> nat" where
  "passed lo s = (s - lo + 31) div 32"

definition lel_walked ::
  "bitmap_operations \<Rightarrow> u32 list \<Rightarrow> nat \<Rightarrow> nat \<Rightarrow> nat \<Rightarrow> nat \<Rightarrow> (nat \<Rightarrow> bool) \<Rightarrow> nat \<Rightarrow> bm_page list \<Rightarrow> bm_loop \<Rightarrow> bool" where
  "lel_walked op B mp idx lo e G P pages st \<longleftrightarrow>
     32 * length (l_words st) = BITS_PER_PAGE \<and> lo \<le> l_start st \<and> lo mod 32 = 0 \<and>
     (\<forall>a. gbit pages P (l_words st) a \<longleftrightarrow>
        G a \<or> op = BM_OP_MERGE \<and> (\<exists>i. lo \<le> i \<and> i < l_start st \<and> a = lin mp idx i \<and> data B lo i)) \<and>
     l_count st + l_total st =
       card {i. lo \<le> i \<and> i < l_start st \<and> op = BM_OP_MERGE \<and> \<not> G (lin mp idx i) \<and> data B lo i} \<and>
     (op = BM_OP_EXTRACT \<longrightarrow> l_count st = 0) \<and>
     length (l_out st) = (if op = BM_OP_EXTRACT then passed lo (l_start st) else 0) \<and>
     (\<forall>k < length (l_out st). \<forall>m < 32. bit (l_out st ! k) m \<longleftrightarrow> lo + 32 * k + m \<le> e \<and> G (lin mp idx (lo + 32 * k + m))) \<and>
     (op = BM_OP_MERGE \<longrightarrow> l_buffer st = drop (passed lo (l_start st)) B)"

text \<open>Treating the \<open>n\<close> bits of a word, with \<open>d\<close> the word of the buffer.\<close>

definition lel_step :: "bitmap_operations \<Rightarrow> nat \<Rightarrow> bm_loop \<Rightarrow> bm_loop \<Rightarrow> bool" where
  "lel_step op n st st' \<longleftrightarrow>
     (let j = l_bip st div 32; p = l_words st ! j; d = hd (l_buffer st) AND mask n
      in l_words st' = (if op = BM_OP_MERGE then (l_words st)[j := p OR d] else l_words st) \<and>
         l_start st' = l_start st + n \<and> l_total st' = l_total st \<and>
         l_count st' = l_count st + (if op = BM_OP_MERGE then hweight32 (NOT p AND d) else 0) \<and>
         l_out st' = (if op = BM_OP_EXTRACT then l_out st @ [p AND mask n] else l_out st) \<and>
         l_buffer st' = (if op = BM_OP_MERGE then tl (l_buffer st) else l_buffer st))"

lemma word_window: "s mod 32 = 0 \<Longrightarrow> n \<le> 32 \<Longrightarrow> s \<le> i \<Longrightarrow> i < s + n \<Longrightarrow> i div 32 = s div 32 \<and> i mod 32 = i - (s :: nat)"
proof -
  assume h: "s mod 32 = 0" "n \<le> 32" "s \<le> i" "i < s + n"
  then obtain q where q: "s = 32 * q" by (metis mod_0_imp_dvd dvdE)
  then obtain r where r: "i = 32 * q + r" "r < 32" using h by (metis le_Suc_ex nat_add_left_cancel_less less_le_trans)
  then show ?thesis using q by simp
qed

lemma words_passed: "lo \<le> s \<Longrightarrow> lo mod 32 = 0 \<Longrightarrow> s mod 32 = 0 \<Longrightarrow> 0 < n \<Longrightarrow> n \<le> 32 \<Longrightarrow>
    passed lo s = (s - lo) div 32 \<and> passed lo (s + n) = (s - lo) div 32 + 1 \<and> lo + 32 * ((s - lo) div 32) = s"
proof -
  assume h: "lo \<le> s" "lo mod 32 = 0" "s mod 32 = 0" "0 < n" "n \<le> 32"
  then obtain a b where ab: "lo = 32 * a" "s = 32 * b" by (metis mod_0_imp_dvd dvdE)
  then obtain c where c: "b = a + c" using h(1) le_Suc_ex by (metis mult_le_cancel1 zero_less_numeral)
  have s: "s - lo = 32 * c" "s + n - lo = 32 * c + n" using ab c by simp_all
  have "(32 * c + n + 31) div 32 = c + (n + 31) div 32" by simp
  moreover have "(n + 31) div 32 = 1" using h(4,5) by (intro div_nat_eqI) simp_all
  ultimately show ?thesis using s ab c by (simp add: passed_def)
qed

lemma gbit_same: "gbit pages Q (page_words (pages ! Q)) a = page_bit pages a"
  by (simp add: gbit_def page_bit_def)

lemma gbit_word:
  assumes "j < length ws"
  shows "gbit pages P (ws[j := w]) a =
    (if a div BITS_PER_PAGE = P \<and> a mod BITS_PER_PAGE div 32 = j then bit w (a mod BITS_PER_PAGE mod 32) else gbit pages P ws a)"
  using assms by (simp add: gbit_def test_bit_le_def)

text \<open>The addresses of the bits of the current word.\<close>

lemma word_addr:
  assumes at: "at_addr mp idx P st" and s0: "l_start st mod 32 = 0" and b: "l_bip st < BITS_PER_PAGE" and m: "m < 32"
  shows "lin mp idx (l_start st + m) = P * BITS_PER_PAGE + (l_bip st + m)" and "l_bip st + m < BITS_PER_PAGE"
    and "(l_bip st + m) div 32 = l_bip st div 32" and "(l_bip st + m) mod 32 = m"
proof -
  have b0: "l_bip st mod 32 = 0" using at_addr_mod [OF at] s0 by simp
  have "l_bip st + 32 \<le> BITS_PER_PAGE" using b b0 by (intro page_room) simp_all
  then show "l_bip st + m < BITS_PER_PAGE" using m by simp
  show "lin mp idx (l_start st + m) = P * BITS_PER_PAGE + (l_bip st + m)"
    using lin_add [of "l_start st" m mp idx] m s0 at by (simp add: at_addr_def)
  show "(l_bip st + m) div 32 = l_bip st div 32" "(l_bip st + m) mod 32 = m"
    using word_window [OF b0, of 32 "l_bip st + m"] m by simp_all
qed

lemma word_addr_iff:
  assumes at: "at_addr mp idx P st" and s0: "l_start st mod 32 = 0" and b: "l_bip st < BITS_PER_PAGE"
  shows "a div BITS_PER_PAGE = P \<and> a mod BITS_PER_PAGE div 32 = l_bip st div 32 \<longleftrightarrow>
    (\<exists>m < 32. a = lin mp idx (l_start st + m) \<and> a mod BITS_PER_PAGE mod 32 = m)"
proof
  let ?j = "l_bip st div 32" and ?c = "a mod BITS_PER_PAGE"
  assume h: "a div BITS_PER_PAGE = P \<and> ?c div 32 = ?j"
  have "l_bip st mod 32 = 0" using at_addr_mod [OF at] s0 by simp
  then have "l_bip st = 32 * ?j" by (metis add_0_right mult_div_mod_eq)
  moreover have "?c = 32 * ?j + ?c mod 32" using h by (metis mult_div_mod_eq)
  ultimately have "a = P * BITS_PER_PAGE + (l_bip st + ?c mod 32)" using h by (metis div_mult_mod_eq)
  then have "a = lin mp idx (l_start st + ?c mod 32)" using word_addr(1) [OF assms, of "?c mod 32"] by simp
  then show "\<exists>m < 32. a = lin mp idx (l_start st + m) \<and> ?c mod 32 = m" by (metis mod_less_divisor zero_less_numeral)
next
  assume "\<exists>m < 32. a = lin mp idx (l_start st + m) \<and> a mod BITS_PER_PAGE mod 32 = m"
  then obtain m where m: "m < 32" "a = lin mp idx (l_start st + m)" by blast
  note w = word_addr [OF assms m(1)]
  show "a div BITS_PER_PAGE = P \<and> a mod BITS_PER_PAGE div 32 = l_bip st div 32" using m(2) w by simp
qed

lemma lel_fresh:
  assumes "lel_walked op B mp idx lo e G P pages st" and "idx < mp" and "l_start st \<le> i"
  shows "gbit pages P (l_words st) (lin mp idx i) = G (lin mp idx i)"
  using assms lin_inj [of mp idx i idx] by (auto simp: lel_walked_def)

lemma lel_word_bit:
  assumes w: "lel_walked op B mp idx lo e G P pages st" and at: "at_addr mp idx P st" "l_start st mod 32 = 0" "l_bip st < BITS_PER_PAGE"
    and idx: "idx < mp" and m: "m < 32"
  shows "bit (l_words st ! (l_bip st div 32)) m = G (lin mp idx (l_start st + m))"
proof -
  note a = word_addr [OF at m]
  have "test_bit_le (l_bip st + m) (l_words st) = bit (l_words st ! (l_bip st div 32)) m" using a by (simp add: test_bit_le_def)
  then show ?thesis using lel_fresh [OF w idx, of "l_start st + m"] a by (simp add: gbit_def)
qed

lemma lel_data_bit:
  assumes w: "lel_walked BM_OP_MERGE B mp idx lo e G P pages st" and s0: "l_start st mod 32 = 0"
    and n: "0 < n" "n \<le> 32" "l_start st + n \<le> e + 1" and B: "e < lo + 32 * length B"
  shows "bit (hd (l_buffer st) AND mask n) m \<longleftrightarrow> m < n \<and> data B lo (l_start st + m)"
proof -
  let ?k = "(l_start st - lo) div 32"
  have lo: "lo \<le> l_start st" "lo mod 32 = 0" using w by (simp_all add: lel_walked_def)
  note k = words_passed [OF lo s0 n(1,2)]
  have "l_buffer st = drop ?k B" using w k by (simp add: lel_walked_def)
  moreover have "?k < length B" using B n(1,3) k by linarith
  ultimately have h: "hd (l_buffer st) = B ! ?k" by (simp add: hd_drop_conv_nth)
  have "(l_start st + m - lo) div 32 = ?k \<and> (l_start st + m) mod 32 = m" if "m < n"
  proof -
    have "l_start st + m - lo = 32 * ?k + m" using k lo by linarith
    then show ?thesis using that n(2) word_window [OF s0, of 32 "l_start st + m"] by simp
  qed
  then show ?thesis using h n(2) by (auto simp: data_def bit_simps)
qed

lemma lel_merge_word:
  assumes w: "lel_walked BM_OP_MERGE B mp idx lo e G P pages st" and at: "at_addr mp idx P st" "l_start st mod 32 = 0" "l_bip st < BITS_PER_PAGE"
    and idx: "idx < mp" and n: "0 < n" "n \<le> 32" "l_start st + n \<le> e + 1" and B: "e < lo + 32 * length B"
  shows "gbit pages P ((l_words st)[l_bip st div 32 := l_words st ! (l_bip st div 32) OR (hd (l_buffer st) AND mask n)]) a \<longleftrightarrow>
    G a \<or> (\<exists>i. lo \<le> i \<and> i < l_start st + n \<and> a = lin mp idx i \<and> data B lo i)"
proof -
  let ?s = "l_start st" and ?j = "l_bip st div 32"
  have lo: "lo \<le> ?s" using w by (simp add: lel_walked_def)
  have jl: "?j < length (l_words st)" using at(3) w by (simp add: lel_walked_def) linarith
  show ?thesis
  proof (cases "\<exists>m < 32. a = lin mp idx (?s + m) \<and> a mod BITS_PER_PAGE mod 32 = m")
    case True
    then obtain m where m: "m < 32" "a = lin mp idx (?s + m)" "a mod BITS_PER_PAGE mod 32 = m" by blast
    have "i = ?s + m" if "a = lin mp idx i" for i using that m(2) lin_inj [of mp idx i idx "?s + m"] idx by simp
    then have "(\<exists>i. lo \<le> i \<and> i < ?s + n \<and> a = lin mp idx i \<and> data B lo i) \<longleftrightarrow> m < n \<and> data B lo (?s + m)"
      using m(2) lo by (metis nat_add_left_cancel_less trans_le_add1)
    then show ?thesis
      unfolding gbit_word [OF jl] using word_addr_iff [OF at, of a] True m lel_word_bit [OF w at idx m(1)]
        lel_data_bit [OF w at(2) n B, of m] by (simp add: bit_or_iff)
  next
    case False
    have "i < ?s" if i: "i < ?s + n" "a = lin mp idx i" for i
    proof (rule ccontr)
      assume "\<not> i < ?s"
      then obtain m where m: "i = ?s + m" "m < 32" using i(1) n(2) by (metis le_Suc_ex nat_add_left_cancel_less not_le less_le_trans)
      then show False using False i(2) word_addr [OF at m(2)] by simp
    qed
    then have "(\<exists>i. lo \<le> i \<and> i < ?s + n \<and> a = lin mp idx i \<and> data B lo i) = (\<exists>i. lo \<le> i \<and> i < ?s \<and> a = lin mp idx i \<and> data B lo i)"
      using trans_less_add1 by blast
    then show ?thesis unfolding gbit_word [OF jl] using word_addr_iff [OF at, of a] False w by (auto simp: lel_walked_def)
  qed
qed

lemma lel_merge_count:
  assumes w: "lel_walked BM_OP_MERGE B mp idx lo e G P pages st" and at: "at_addr mp idx P st" "l_start st mod 32 = 0" "l_bip st < BITS_PER_PAGE"
    and idx: "idx < mp" and n: "0 < n" "n \<le> 32" "l_start st + n \<le> e + 1" and B: "e < lo + 32 * length B"
  shows "l_count st + hweight32 (NOT (l_words st ! (l_bip st div 32)) AND (hd (l_buffer st) AND mask n)) + l_total st =
    card {i. lo \<le> i \<and> i < l_start st + n \<and> \<not> G (lin mp idx i) \<and> data B lo i}"
proof -
  let ?s = "l_start st"
  have lo: "lo \<le> ?s" using w by (simp add: lel_walked_def)
  have "hweight32 (NOT (l_words st ! (l_bip st div 32)) AND (hd (l_buffer st) AND mask n)) =
      card {m. m < n \<and> \<not> G (lin mp idx (?s + m)) \<and> data B lo (?s + m)}"
    unfolding hweight32_card
  proof (rule arg_cong [where f = card], rule Collect_cong)
    show "m < 32 \<and> bit (NOT (l_words st ! (l_bip st div 32)) AND (hd (l_buffer st) AND mask n)) m \<longleftrightarrow>
        m < n \<and> \<not> G (lin mp idx (?s + m)) \<and> data B lo (?s + m)" for m
      using lel_data_bit [OF w at(2) n B, of m] lel_word_bit [OF w at idx, of m] n(2)
      unfolding bit_and_iff [of "NOT _"] by (auto simp: bit_not_iff)
  qed
  also have "\<dots> = card {i. ?s \<le> i \<and> i < ?s + n \<and> \<not> G (lin mp idx i) \<and> data B lo i}"
    using card_shift_range [of ?s n "\<lambda>i. \<not> G (lin mp idx i) \<and> data B lo i"] by simp
  finally show ?thesis
    using w card_split_range [OF lo, of "?s + n" "\<lambda>i. \<not> G (lin mp idx i) \<and> data B lo i"] by (simp add: lel_walked_def)
qed

lemma lel_walked_step:
  assumes w: "lel_walked op B mp idx lo e G P pages st" and step: "lel_step op n st st'" and op: "lel_op op"
    and at: "at_addr mp idx P st" "l_start st mod 32 = 0" "l_bip st < BITS_PER_PAGE" and idx: "idx < mp"
    and n: "0 < n" "n \<le> 32" "l_start st + n \<le> e + 1" "n = 32 \<or> l_start st + n = e + 1"
    and B: "op = BM_OP_MERGE \<Longrightarrow> e < lo + 32 * length B"
  shows "lel_walked op B mp idx lo e G P pages st'"
proof -
  have lo: "lo \<le> l_start st" "lo mod 32 = 0" using w by (simp_all add: lel_walked_def)
  note k = words_passed [OF lo at(2) n(1,2)] and st' = step [unfolded lel_step_def Let_def]
  from op consider (mg) "op = BM_OP_MERGE" | (ex) "op = BM_OP_EXTRACT" by (auto simp: lel_op_def)
  then show ?thesis
  proof cases
    case mg
    note wm = w [unfolded mg]
    show ?thesis
      using st' w k lel_merge_word [OF wm at idx n(1-3) B [OF mg]] lel_merge_count [OF wm at idx n(1-3) B [OF mg]]
      by (simp add: lel_walked_def mg drop_Suc tl_drop)
  next
    case ex
    have "bit (l_words st ! (l_bip st div 32) AND mask n) m \<longleftrightarrow> l_start st + m \<le> e \<and> G (lin mp idx (l_start st + m))" if "m < 32" for m
      using lel_word_bit [OF w at idx that] n(3,4) that by (auto simp: bit_simps)
    then show ?thesis
      using st' w k by (auto simp: lel_walked_def ex nth_append less_Suc_eq)
  qed
qed

section \<open>The walk\<close>

lemma mask_32: "(mask 32 :: u32) = NOT 0"
  by (rule bit_word_eqI) (simp add: bit_simps)

lemma lel_word: "lel_op op \<Longrightarrow> \<exists>st'. bm_op_word op st = (GO_ON, st') \<and> l_bip st' = l_bip st \<and> l_start st' = l_start st \<and>
    lel_step op 32 st (st'\<lparr>l_start := l_start st + 32, l_bip := b\<rparr>)"
  by (auto simp: lel_op_def bm_op_word_def lel_step_def Let_def mask_32)

lemma lel_tail: "lel_op op \<Longrightarrow> l_start st \<le> e \<Longrightarrow> e < l_start st + 31 \<Longrightarrow>
    \<exists>st'. bm_op_tail op e st = (NEXT_PAGE, st') \<and> lel_step op (e - l_start st + 1) st st' \<and> l_start st' = e + 1"
  by (auto simp: lel_op_def bm_op_tail_def lel_step_def Let_def mask_eq_exp_minus_1 push_bit_eq_mult)

definition lel_words_done where
  "lel_words_done op B mp idx lo e G P pages r \<longleftrightarrow>
     (case r of (j, st) \<Rightarrow> lel_walked op B mp idx lo e G P pages st \<and> at_addr mp idx P st \<and> l_start st \<le> e + 1 \<and>
        l_start st mod 32 = 0 \<and>
        (j = NEXT_PAGE \<and> BITS_PER_PAGE \<le> l_bip st \<and> l_bip st + 32 \<le> BITS_PER_PAGE + 32 * mp \<or>
         j = GO_ON \<and> l_bip st < BITS_PER_PAGE \<and> e < l_start st + 31))"

lemma lel_words_loop:
  assumes "lel_op op" and "lel_walked op B mp idx lo e G P pages st" and "at_addr mp idx P st"
    and "l_bip st < BITS_PER_PAGE" and "idx < mp" and "l_start st mod 32 = 0" and "l_start st \<le> e + 1"
    and "op = BM_OP_MERGE \<Longrightarrow> e < lo + 32 * length B"
  shows "lel_words_done op B mp idx lo e G P pages (bm_words_loop op (32 * mp) e st)"
  using assms
proof (induction op "32 * mp" e st rule: bm_words_loop.induct)
  case (1 op e st)
  note op = 1(2) and w = 1(3) and at = 1(4) and b = 1(5) and idx = 1(6) and s0 = 1(7) and le = 1(8) and B = 1(9)
  show ?case
  proof (cases "l_start st + 31 \<le> e")
    case False
    then show ?thesis using w at b le s0 by (simp add: lel_words_done_def bm_words_loop.simps [of op _ e st])
  next
    case True
    obtain st1 where step: "bm_op_word op st = (GO_ON, st1)" and c: "l_bip st1 = l_bip st" "l_start st1 = l_start st"
      "lel_step op 32 st (st1\<lparr>l_start := l_start st + 32, l_bip := l_bip st1 + 32 * mp\<rparr>)"
      using lel_word [OF op, of st "l_bip st + 32 * mp"] by auto
    define st2 where "st2 = st1\<lparr>l_start := l_start st + 32, l_bip := l_bip st1 + 32 * mp\<rparr>"
    have w2: "lel_walked op B mp idx lo e G P pages st2"
      by (rule lel_walked_step [OF w c(3) [folded st2_def] op at s0 b idx _ _ _ _ B]) (use True in simp_all)
    have "(l_start st div 32 + 1) * 32 = l_start st + 32" using next_word_start [of "l_start st"] s0 by simp
    then have at2: "at_addr mp idx P st2"
      using at lin_next_word [of mp idx "l_start st"] idx c(1) s0
      by (simp add: at_addr_def st2_def add.commute [of "l_start st"])
    have s2: "l_start st2 mod 32 = 0" "l_start st2 \<le> e + 1" using s0 True by (simp_all add: st2_def)
    have unf: "bm_words_loop op (32 * mp) e st =
        (if BITS_PER_PAGE \<le> l_bip st2 then (NEXT_PAGE, st2) else bm_words_loop op (32 * mp) e st2)"
      using True step by (simp add: bm_words_loop.simps [of op _ e st] Let_def st2_def)
    show ?thesis
    proof (cases "BITS_PER_PAGE \<le> l_bip st2")
      case nxt: True
      have "l_bip st + 32 \<le> BITS_PER_PAGE" using b at_addr_mod [OF at] s0 by (intro page_room) simp_all
      then have "l_bip st2 + 32 \<le> BITS_PER_PAGE + 32 * mp" using c(1) by (simp add: st2_def)
      then show ?thesis using nxt unf w2 at2 s2 by (simp add: lel_words_done_def)
    next
      case False
      have "lel_words_done op B mp idx lo e G P pages (bm_words_loop op (32 * mp) e st2)"
        by (rule 1(1) [OF True step [symmetric] refl st2_def False op w2 at2 _ idx s2 B]) (use False in simp_all)
      then show ?thesis using unf False by simp
    qed
  qed
qed

lemma lel_page:
  assumes op: "lel_op op" and w: "lel_walked op B mp idx lo e G P pages st" and at: "at_addr mp idx P st"
    and b: "l_bip st < BITS_PER_PAGE" and idx: "idx < mp" and s0: "l_start st mod 32 = 0" and le: "l_start st \<le> e"
    and B: "op = BM_OP_MERGE \<Longrightarrow> e < lo + 32 * length B"
  shows "\<exists>st'. bm_op_page op (32 * mp) e st = (NEXT_PAGE, st') \<and> lel_walked op B mp idx lo e G P pages st' \<and>
    (l_start st' = e + 1 \<or> l_start st' \<le> e + 1 \<and> at_addr mp idx P st' \<and> l_start st' mod 32 = 0 \<and>
       BITS_PER_PAGE \<le> l_bip st' \<and> l_bip st' + 32 \<le> BITS_PER_PAGE + 32 * mp)"
proof -
  obtain j st1 where l: "bm_words_loop op (32 * mp) e st = (j, st1)" by fastforce
  have "l_start st \<le> e + 1" using le by simp
  note d = lel_words_loop [OF op w at b idx s0 this B, unfolded l lel_words_done_def, simplified]
  have go: "bm_op_page op (32 * mp) e st =
      (case (j, st1) of (GO_ON, st) \<Rightarrow> if e < l_start st then (NEXT_PAGE, st) else bm_op_tail op e st | r \<Rightarrow> r)"
    using bm_op_page_go [of st e op "32 * mp"] s0 op l by (auto simp: lel_op_def)
  show ?thesis
  proof (cases "j = GO_ON \<and> l_start st1 \<le> e")
    case True
    then have t: "l_bip st1 < BITS_PER_PAGE" "e < l_start st1 + 31" using d by auto
    obtain st2 where tl: "bm_op_tail op e st1 = (NEXT_PAGE, st2)" "lel_step op (e - l_start st1 + 1) st1 st2" "l_start st2 = e + 1"
      using lel_tail [OF op _ t(2)] True by auto
    have "lel_walked op B mp idx lo e G P pages st2"
      by (rule lel_walked_step [OF _ tl(2) op _ _ t(1) idx _ _ _ _ B]) (use d t True in auto)
    then show ?thesis using go True tl by simp
  next
    case False
    then show ?thesis using go d by auto
  qed
qed

lemma lel_leave:
  assumes "lel_op op" and "op = BM_OP_EXTRACT \<longrightarrow> l_count st = 0"
  shows "\<exists>pg'. bm_leave_page op st pg = (st\<lparr>l_bip := l_bip st - BITS_PER_PAGE, l_total := l_total st + l_count st\<rparr>, pg') \<and>
    page_words pg' = page_words pg"
  using assms unfolding lel_op_def
  by (elim disjE) (auto simp: bm_leave_page_def Let_def bm_set_page_need_writeout_def)

definition lel_done where
  "lel_done op B mp idx lo e G pages r \<longleftrightarrow>
     (case r of (j, st, pages') \<Rightarrow> j = GO_ON \<and> pages_ok pages' \<and> length pages' = length pages \<and>
        (\<forall>a. page_bit pages' a \<longleftrightarrow> G a \<or> op = BM_OP_MERGE \<and> (\<exists>i. lo \<le> i \<and> i < e + 1 \<and> a = lin mp idx i \<and> data B lo i)) \<and>
        l_total st = card {i. lo \<le> i \<and> i < e + 1 \<and> op = BM_OP_MERGE \<and> \<not> G (lin mp idx i) \<and> data B lo i} \<and>
        length (l_out st) = (if op = BM_OP_EXTRACT then passed lo (e + 1) else 0) \<and>
        (\<forall>k < length (l_out st). \<forall>m < 32. bit (l_out st ! k) m \<longleftrightarrow> lo + 32 * k + m \<le> e \<and> G (lin mp idx (lo + 32 * k + m))))"

lemma lel_loop:
  assumes "lel_op op" and "pages_ok pages" and "idx < mp" and "32 * mp \<le> BITS_PER_PAGE"
    and "\<And>i. i \<le> e \<Longrightarrow> lin mp idx i < length pages * BITS_PER_PAGE" and "l_start st \<le> e + 1" 
    and "l_start st \<le> e \<Longrightarrow> at_addr mp idx P st \<and> l_bip st < BITS_PER_PAGE \<and> l_start st mod 32 = 0"
    and "\<And>P. P < length pages \<Longrightarrow> lel_walked op B mp idx lo e G P pages (st\<lparr>l_count := 0, l_words := page_words (pages ! P)\<rparr>)"
    and "op = BM_OP_MERGE \<Longrightarrow> e < lo + 32 * length B" and "0 < length pages"
  shows "lel_done op B mp idx lo e G pages (bm_op_loop op (32 * mp) e P st pages)"
  using assms
proof (induction op "32 * mp" e P st pages rule: bm_op_loop.induct)
  case (1 op e P st pages)
  note op = 1(2) and ok = 1(3) and idx = 1(4) and mp = 1(5) and bnd = 1(6) and le = 1(7) and at = 1(8) and w = 1(9) and B = 1(10) and ne = 1(11)
  show ?case
  proof (cases "l_start st \<le> e")
    case False
    then have "l_start st = e + 1" using le by simp
    then show ?thesis
      using False w [OF ne] ok by (simp add: bm_op_loop.simps [of op _ e P st pages] lel_done_def lel_walked_def gbit_same)
  next
    case True
    note at = at [OF True]
    have "lin mp idx (l_start st) div BITS_PER_PAGE = P"
      using at unfolding at_addr_def by (metis bpp add.commute div_less div_mult_self3 mult_is_0 numeral_neq_zero add_0_right)
    then have P: "P < length pages" using bnd [OF True] by (metis less_mult_imp_div_less)
    define st0 where "st0 = st\<lparr>l_count := 0, l_words := page_words (pages ! P)\<rparr>"
    obtain st1 where page: "bm_op_page op (32 * mp) e st0 = (NEXT_PAGE, st1)"
      and w1: "lel_walked op B mp idx lo e G P pages st1"
      and nxt: "l_start st1 = e + 1 \<or> l_start st1 \<le> e + 1 \<and> at_addr mp idx P st1 \<and> l_start st1 mod 32 = 0 \<and>
        BITS_PER_PAGE \<le> l_bip st1 \<and> l_bip st1 + 32 \<le> BITS_PER_PAGE + 32 * mp"
      using lel_page [OF op w [OF P] _ _ idx _ _ B] at True by (auto simp: st0_def at_addr_def)
    obtain pg where leave: "bm_leave_page op st1 ((pages ! P)\<lparr>page_words := l_words st1\<rparr>) =
        (st1\<lparr>l_bip := l_bip st1 - BITS_PER_PAGE, l_total := l_total st1 + l_count st1\<rparr>, pg)"
        and pg: "page_words pg = l_words st1"
      using lel_leave [OF op, of st1] w1 by (fastforce simp: lel_walked_def)
    define st2 where "st2 = st1\<lparr>l_bip := l_bip st1 - BITS_PER_PAGE, l_total := l_total st1 + l_count st1\<rparr>"
    have "lel_done op B mp idx lo e G (pages[P := pg]) (bm_op_loop op (32 * mp) e (P + 1) st2 (pages[P := pg]))"
    proof (rule 1(1) [OF True page [unfolded st0_def, symmetric] refl leave [symmetric, folded st2_def] op])
      show ok': "pages_ok (pages[P := pg])"
        using ok w1 pg by (auto simp: pages_ok_def lel_walked_def dest!: subsetD [OF set_update_subset_insert])
      show "l_start st2 \<le> e \<Longrightarrow> at_addr mp idx (P + 1) st2 \<and> l_bip st2 < BITS_PER_PAGE \<and> l_start st2 mod 32 = 0"
        using nxt mp by (auto simp: st2_def at_addr_def)
      fix Q assume Q: "Q < length (pages[P := pg])"
      have "32 * length (page_words (pages[P := pg] ! Q)) = BITS_PER_PAGE" using ok' Q by (auto simp: pages_ok_def)
      moreover have "gbit (pages[P := pg]) Q (page_words (pages[P := pg] ! Q)) a = gbit pages P (l_words st1) a" for a
        unfolding gbit_same using page_bit_update [OF P, of pg a] pg by simp
      ultimately show "lel_walked op B mp idx lo e G Q (pages[P := pg]) (st2\<lparr>l_count := 0, l_words := page_words (pages[P := pg] ! Q)\<rparr>)"
        using w1 by (auto simp: lel_walked_def st2_def add.commute)
    qed (use idx mp bnd w1 nxt B ne in \<open>auto simp: st2_def\<close>)
    then show ?thesis
      using True page leave by (simp add: bm_op_loop.simps [of op _ e P st pages] lel_done_def flip: st0_def st2_def)
  qed
qed

section \<open>The operations on words\<close>

lemma bm_op4_lel:
  fixes start e :: nat
  assumes shape: "bm_shape bm" and idx: "idx < bm_max_peers bm" and op: "lel_op op" and bits: "0 < bm_bits bm"
    and s0: "start mod 32 = 0" and B: "op = BM_OP_MERGE \<Longrightarrow> clip bm e < start + 32 * length B" and le: "start \<le> clip bm e"
  defines "n \<equiv> card {i. start \<le> i \<and> i < clip bm e + 1 \<and> op = BM_OP_MERGE \<and> \<not> bm_view bm idx i \<and> data B start i}"
  shows "\<exists>out bm'. bm_op4 idx start e op B bm = Some (n, out, bm') \<and> bm_shape bm' \<and> bm_bits bm' = bm_bits bm \<and>
    bm_max_peers bm' = bm_max_peers bm \<and> bm_words bm' = bm_words bm \<and> (bm_pages bm' = []) = (bm_pages bm = []) \<and>
    (\<forall>idx' i. idx' < bm_max_peers bm \<longrightarrow> (bm_view bm' idx' i \<longleftrightarrow> bm_view bm idx' i \<or>
       idx' = idx \<and> op = BM_OP_MERGE \<and> start \<le> i \<and> i < clip bm e + 1 \<and> data B start i)) \<and>
    bm_set bm' = (if op = BM_OP_MERGE then (bm_set bm)[idx := bm_set bm ! idx + of_nat n] else bm_set bm) \<and>
    length out = (if op = BM_OP_EXTRACT then passed start (clip bm e + 1) else 0) \<and>
    (\<forall>k < length out. \<forall>m < 32. bit (out ! k) m \<longleftrightarrow> start + 32 * k + m \<le> clip bm e \<and> bm_view bm idx (start + 32 * k + m))"
proof -
  let ?mp = "bm_max_peers bm" and ?e = "clip bm e" and ?pages = "bm_pages bm"
  let ?w = "interleaved_word32 bm idx start"
  define st where "st = \<lparr>l_start = start, l_bip = word32_in_page ?w * 32 + start mod 32, l_count = 0, l_total = 0,
    l_buffer = B, l_out = [], l_words = []\<rparr>"
  have ok: "pages_ok ?pages" "32 * ?mp \<le> BITS_PER_PAGE" using shape by (simp_all add: bm_shape_def)
  have ne: "0 < length ?pages" using bm_shape_pages [OF shape bits] by simp
  have "lel_walked op B ?mp idx start ?e (page_bit ?pages) P ?pages (st\<lparr>l_count := 0, l_words := page_words (?pages ! P)\<rparr>)"
    if "P < length ?pages" for P
    using ok(1) that s0 by (auto simp: lel_walked_def st_def gbit_same passed_def pages_ok_def)
  then have fin: "lel_done op B ?mp idx start ?e (page_bit ?pages) ?pages
      (bm_op_loop op (32 * ?mp) ?e (word32_to_page ?w) st ?pages)"
  proof (intro lel_loop [OF op ok(1) idx ok(2)])
    show "lin ?mp idx i < length ?pages * BITS_PER_PAGE" if "i \<le> ?e" for i
      using lin_bound [OF shape idx, of i] that bits by (simp add: clip_def split: if_splits)
    show "at_addr ?mp idx (word32_to_page ?w) st \<and> l_bip st < BITS_PER_PAGE \<and> l_start st mod 32 = 0"
      using start_addr(1) [of ?w "start mod 32"] start_addr(2) [of "start mod 32" ?w] s0
      by (simp add: at_addr_def st_def lin_def interleaved_word32_def)
  qed (use le B ne in \<open>auto simp: st_def\<close>)
  obtain j st1 pages1 where r: "bm_op_loop op (32 * ?mp) ?e (word32_to_page ?w) st ?pages = (j, st1, pages1)"
    by (metis prod.exhaust)
  note d = fin [unfolded r lel_done_def, simplified]
  have tot: "l_total st1 = n" using d by (simp add: n_def bm_view_def)
  define bm' where "bm' = bm\<lparr>bm_pages := pages1, bm_set :=
    (if op = BM_OP_MERGE then (bm_set bm)[idx := bm_set bm ! idx + of_nat n] else bm_set bm)\<rparr>"
  have eq: "bm_op4 idx start e op B bm = Some (n, l_out st1, bm')"
    using op r d tot unfolding bm_op4_def Let_def lel_op_def
    by (elim disjE) (simp_all add: bm'_def flip: st_def clip_def)
  have view: "bm_view bm' idx' i \<longleftrightarrow> bm_view bm idx' i \<or>
      idx' = idx \<and> op = BM_OP_MERGE \<and> start \<le> i \<and> i < ?e + 1 \<and> data B start i" if "idx' < ?mp" for idx' i
  proof -
    have "(\<exists>k. start \<le> k \<and> k < ?e + 1 \<and> lin ?mp idx' i = lin ?mp idx k \<and> data B start k) \<longleftrightarrow>
        idx' = idx \<and> start \<le> i \<and> i < ?e + 1 \<and> data B start i"
      using lin_inj [OF _ that idx] by blast
    then show ?thesis using d by (auto simp: bm_view_def bm'_def)
  qed
  have "bm_shape bm'" using shape d by (auto simp: bm_shape_def bm'_def)
  moreover have "(pages1 = []) = (?pages = [])" using d by auto
  ultimately show ?thesis using eq view d by (intro exI [of _ "l_out st1"] exI [of _ bm']) (simp add: bm'_def bm_view_def)
qed

lemma bm_op4_beyond: "clip bm e < start \<Longrightarrow> lel_op op \<Longrightarrow> bm_op4 idx start e op B bm =
    Some (0, [], if op = BM_OP_MERGE then bm\<lparr>bm_set := (bm_set bm)[idx := bm_set bm ! idx]\<rparr> else bm)"
  by (auto simp: bm_op4_def Let_def bm_op_loop_empty lel_op_def simp flip: clip_def)

lemma merge_weight:
  fixes f g :: "nat \<Rightarrow> bool"
  shows "card {i. i < n \<and> (f i \<or> s \<le> i \<and> i < t \<and> g i)} = card {i. i < n \<and> f i} + card {i. s \<le> i \<and> i < t \<and> i < n \<and> \<not> f i \<and> g i}"
proof -
  have "{i. i < n \<and> (f i \<or> s \<le> i \<and> i < t \<and> g i)} = {i. i < n \<and> f i} \<union> {i. s \<le> i \<and> i < t \<and> i < n \<and> \<not> f i \<and> g i}" by auto
  moreover have "{i. i < n \<and> f i} \<inter> {i. s \<le> i \<and> i < t \<and> i < n \<and> \<not> f i \<and> g i} = {}" by auto
  ultimately show ?thesis by (simp add: card_Un_disjoint)
qed

lemma bm_merge_lel_spec:
  assumes wf: "bm_wf bm" and idx: "idx < bm_max_peers bm" and bits: "0 < bm_bits bm" and num: "0 < num" "length ws = 2 * num"
  shows "\<exists>bm'. bsr_bm_merge_lel idx off num ws bm = Some bm' \<and> bm_wf bm' \<and> bm_bits bm' = bm_bits bm \<and>
    bm_max_peers bm' = bm_max_peers bm \<and> bsr_bm_words bm' = bsr_bm_words bm \<and>
    (\<forall>k < bm_max_peers bm. \<forall>i < bm_bits bm. bm_view bm' k i \<longleftrightarrow> bm_view bm k i \<or>
       k = idx \<and> off * 64 \<le> i \<and> i < (off + num) * 64 \<and> data ws (off * 64) i)"
proof -
  let ?s = "off * 64" and ?e = "off * 64 + num * 64 - 1"
  have shape: "bm_shape bm" and set: "\<And>k. k < bm_max_peers bm \<Longrightarrow> bm_set bm ! k = of_nat (bm_weight bm k)"
    using wf by (simp_all add: bm_wf_def)
  have eq: "bsr_bm_merge_lel idx off num ws bm = map_option (\<lambda>(r, out, bm). bm) (bm_op4 idx ?s ?e BM_OP_MERGE ws bm)"
    by (simp add: bsr_bm_merge_lel_def bm_op_def bm_op2_eq [OF shape bits] Let_def)
  have mg: "lel_op BM_OP_MERGE" "?s mod 32 = 0" by (simp_all add: lel_op_def)
  have e: "?e + 1 = (off + num) * 64" using num(1) by (simp add: algebra_simps)
  show ?thesis
  proof (cases "?s \<le> clip bm ?e")
    case True
    have "clip bm ?e \<le> ?e" unfolding clip_def by (auto split: if_split)
    then have B: "clip bm ?e < ?s + 32 * length ws" using e num by (simp add: algebra_simps)
    have rng: "i < clip bm ?e + 1 \<longleftrightarrow> i < (off + num) * 64 \<and> i < bm_bits bm" for i using bits e by (auto simp: clip_def)
    define n where "n = card {i. ?s \<le> i \<and> i < clip bm ?e + 1 \<and> \<not> bm_view bm idx i \<and> data ws ?s i}"
    obtain out bm' where r: "bm_op4 idx ?s ?e BM_OP_MERGE ws bm = Some (n, out, bm')" "bm_shape bm'" "bm_bits bm' = bm_bits bm"
      "bm_max_peers bm' = bm_max_peers bm" "bm_words bm' = bm_words bm" "(bm_pages bm' = []) = (bm_pages bm = [])"
      and view: "\<And>k i. k < bm_max_peers bm \<Longrightarrow> bm_view bm' k i \<longleftrightarrow> bm_view bm k i \<or> k = idx \<and> ?s \<le> i \<and> i < clip bm ?e + 1 \<and> data ws ?s i"
      and set': "bm_set bm' = (bm_set bm)[idx := bm_set bm ! idx + of_nat n]"
      using bm_op4_lel [OF shape idx mg(1) bits mg(2) B True] unfolding n_def by auto
    have "bm_set bm' ! k = of_nat (bm_weight bm' k)" if k: "k < bm_max_peers bm" for k
    proof (cases "k = idx")
      case True
      have "{i. i < bm_bits bm \<and> bm_view bm' idx i} =
          {i. i < bm_bits bm \<and> (bm_view bm idx i \<or> ?s \<le> i \<and> i < (off + num) * 64 \<and> data ws ?s i)}"
        using view [OF idx] rng by auto
      moreover have "{i. ?s \<le> i \<and> i < clip bm ?e + 1 \<and> \<not> bm_view bm idx i \<and> data ws ?s i} =
          {i. ?s \<le> i \<and> i < (off + num) * 64 \<and> i < bm_bits bm \<and> \<not> bm_view bm idx i \<and> data ws ?s i}"
        using rng by auto
      ultimately have "bm_weight bm' idx = bm_weight bm idx + n"
        unfolding bm_weight_def r(3) n_def by (simp only: merge_weight)
      moreover have "idx < length (bm_set bm)" using idx shape by (simp add: bm_shape_def)
      ultimately show ?thesis using True set' set [OF idx] by simp
    next
      case False
      then have "bm_weight bm' k = bm_weight bm k" using view [OF k] r(3) by (simp add: bm_weight_def)
      then show ?thesis using False set' set [OF k] by simp
    qed
    then have "bm_wf bm'" using r(2,4) by (simp add: bm_wf_def)
    moreover have "bsr_bm_words bm' = bsr_bm_words bm" using r by (simp add: bsr_bm_words_def)
    ultimately show ?thesis using eq r view rng by auto
  next
    case False
    then have "clip bm ?e < ?s" by simp
    moreover from this have "\<not> (?s \<le> i \<and> i < (off + num) * 64 \<and> data ws ?s i)" if "i < bm_bits bm" for i
      using that e by (auto simp: clip_def split: if_splits)
    ultimately show ?thesis
      using bm_op4_beyond [OF _ mg(1), of bm ?e ?s idx ws] eq wf by (intro exI [of _ bm]) auto
  qed
qed

lemma bm_get_lel_spec:
  assumes shape: "bm_shape bm" and idx: "idx < bm_max_peers bm" and bits: "0 < bm_bits bm" and num: "0 < num"
  shows "\<exists>ws. bsr_bm_get_lel idx off num bm = Some ws \<and> length ws \<le> 2 * num \<and>
    (\<forall>i. off * 64 \<le> i \<and> i < (off + num) * 64 \<and> i < bm_bits bm \<longrightarrow>
      (i - off * 64) div 32 < length ws \<and> data ws (off * 64) i = bm_view bm idx i)"
proof -
  let ?s = "off * 64" and ?e = "off * 64 + num * 64 - 1"
  have eq: "bsr_bm_get_lel idx off num bm = map_option (\<lambda>(r, out, bm). out) (bm_op4 idx ?s ?e BM_OP_EXTRACT [] bm)"
    by (simp add: bsr_bm_get_lel_def bm_op_def bm_op2_eq [OF shape bits] Let_def)
  have ex: "lel_op BM_OP_EXTRACT" "?s mod 32 = 0" by (simp_all add: lel_op_def)
  have e: "?e + 1 = (off + num) * 64" using num by (simp add: algebra_simps)
  have rng: "i \<le> clip bm ?e \<longleftrightarrow> i < (off + num) * 64 \<and> i < bm_bits bm" for i using bits e by (auto simp: clip_def)
  show ?thesis
  proof (cases "?s \<le> clip bm ?e")
    case True
    obtain n out bm' where r: "bm_op4 idx ?s ?e BM_OP_EXTRACT [] bm = Some (n, out, bm')"
      and len: "length out = passed ?s (clip bm ?e + 1)"
      and out: "\<And>k m. k < length out \<Longrightarrow> m < 32 \<Longrightarrow> bit (out ! k) m \<longleftrightarrow> ?s + 32 * k + m \<le> clip bm ?e \<and> bm_view bm idx (?s + 32 * k + m)"
      using bm_op4_lel [OF shape idx ex(1) bits ex(2) _ True, of "[]"] by auto
    have "clip bm ?e + 1 \<le> (off + num) * 64" using rng [of "clip bm ?e"] by simp
    then have "length out \<le> 2 * num" unfolding len passed_def by (simp add: algebra_simps)
    moreover have "(i - ?s) div 32 < length out \<and> data out ?s i = bm_view bm idx i"
      if i: "?s \<le> i" "i \<le> clip bm ?e" for i
    proof -
      let ?k = "(i - ?s) div 32"
      have k: "?k < length out" using i unfolding len passed_def by simp
      have s: "?s = 32 * (2 * off)" by simp
      have "i mod 32 = (i - ?s) mod 32" using i(1) by (metis s le_add_diff_inverse mod_mult_self4)
      then have "?s + 32 * ?k + i mod 32 = i" using i(1) mult_div_mod_eq [of 32 "i - ?s"] by linarith
      then show ?thesis using out [OF k, of "i mod 32"] k i(2) by (simp add: data_def)
    qed
    ultimately show ?thesis using eq r rng by auto
  next
    case False
    then have "clip bm ?e < ?s" by simp
    moreover from this have "\<not> (?s \<le> i \<and> i < (off + num) * 64 \<and> i < bm_bits bm)" for i using rng [of i] by auto
    ultimately show ?thesis using bm_op4_beyond [OF _ ex(1), of bm ?e ?s idx "[]"] eq by auto
  qed
qed

end
