(* ===== verification/Bm_Xfer_Bitmap.thy ===== *)
theory Bm_Xfer_Bitmap
  imports Bm_Xfer_Exchange Bitmap_Lel
begin

text \<open>
  The exchange on the bitmap of \<^verbatim>\<open>bsr/bsr_bitmap.c\<close>: its operations for the slot of a peer meet the contract of the
  transfer, so two nodes exchange their real bitmaps.
\<close>

definition bsr_bm_ops :: "nat \<Rightarrow> bsr_bitmap bm_ops" where
  "bsr_bm_ops idx =
     \<lparr>op_bits = bm_bits, op_words = bsr_bm_words,
      op_range_find_next = bsr_bm_range_find_next idx, op_range_find_next_zero = bsr_bm_range_find_next_zero idx,
      op_set_out_of_sync = (\<lambda>s e bm. map_option snd (bsr_bm_set_bits idx s e bm)),
      op_set_many_bits = bsr_bm_set_many_bits idx, op_get_lel = bsr_bm_get_lel idx, op_merge_lel = bsr_bm_merge_lel idx\<rparr>"

lemma bsr_bm_ops_sel [simp]:
  "op_bits (bsr_bm_ops idx) = bm_bits" "op_words (bsr_bm_ops idx) = bsr_bm_words"
  "op_range_find_next (bsr_bm_ops idx) = bsr_bm_range_find_next idx"
  "op_range_find_next_zero (bsr_bm_ops idx) = bsr_bm_range_find_next_zero idx"
  "op_set_many_bits (bsr_bm_ops idx) = bsr_bm_set_many_bits idx"
  "op_get_lel (bsr_bm_ops idx) = bsr_bm_get_lel idx" "op_merge_lel (bsr_bm_ops idx) = bsr_bm_merge_lel idx"
  by (simp_all add: bsr_bm_ops_def)

definition slot_ok :: "nat \<Rightarrow> bsr_bitmap \<Rightarrow> bool" where
  "slot_ok idx bm \<longleftrightarrow> bm_wf bm \<and> idx < bm_max_peers bm \<and> 0 < bm_bits bm \<and> bm_bits bm \<le> BSR_END_OF_BITMAP"

text \<open>The bits of the other peers.\<close>

definition other_slots :: "nat \<Rightarrow> bsr_bitmap \<Rightarrow> nat \<times> nat \<times> (nat \<Rightarrow> nat \<Rightarrow> bool)" where
  "other_slots idx bm = (bm_bits bm, bm_max_peers bm, \<lambda>k i. k < bm_max_peers bm \<and> k \<noteq> idx \<and> i < bm_bits bm \<and> bm_view bm k i)"

lemma other_slots_view:
  assumes "other_slots idx bm' = other_slots idx bm" and "k < bm_max_peers bm" and "k \<noteq> idx" and "i < bm_bits bm"
  shows "bm_view bm' k i = bm_view bm k i"
proof -
  have h: "bm_bits bm' = bm_bits bm \<and> bm_max_peers bm' = bm_max_peers bm \<and>
      (\<lambda>k i. k < bm_max_peers bm' \<and> k \<noteq> idx \<and> i < bm_bits bm' \<and> bm_view bm' k i) =
      (\<lambda>k i. k < bm_max_peers bm \<and> k \<noteq> idx \<and> i < bm_bits bm \<and> bm_view bm k i)"
    using assms(1) unfolding other_slots_def prod.inject .
  show ?thesis using fun_cong [OF fun_cong [OF h [THEN conjunct2, THEN conjunct2], of k], of i] h assms(2-) by simp
qed

lemma lel_bit_data: "off * 64 \<le> i \<Longrightarrow> (i - off * 64) div 32 < length ws \<Longrightarrow> lel_bit ws off i = data ws (off * 64) i"
  and lel_index: "off * 64 \<le> i \<Longrightarrow> i div 32 - 2 * off = (i - off * 64) div 32" for off i :: nat
proof -
  show ix: "i div 32 - 2 * off = (i - off * 64) div 32" if le: "off * 64 \<le> i" for i
  proof -
    obtain k where "i = off * 64 + k" using le le_Suc_ex by blast
    moreover have "(off * 64 + k) div 32 = 2 * off + k div 32" by (simp add: div_add)
    ultimately show ?thesis by simp
  qed
  show "lel_bit ws off i = data ws (off * 64) i" if "off * 64 \<le> i" "(i - off * 64) div 32 < length ws"
    using that ix [OF that(1)] by (simp add: lel_bit_def data_def)
qed

lemma bm_op4_words: "bm_op4 idx s e op buffer bm = Some (r, out, bm') \<Longrightarrow> bm_words bm' = bm_words bm"
  by (auto simp: bm_op4_def Let_def split: prod.splits bm_jump.splits bitmap_operations.splits)

lemma many_bits_loop_words: "many_bits_loop idx e op b bm = Some bm' \<Longrightarrow> bm_words bm' = bm_words bm"
proof (induction idx e op b bm rule: many_bits_loop.induct)
  case (1 idx e op b bm)
  show ?case
  proof (cases "b \<le> e")
    case True
    define l where "l = min e (last_bit_on_page bm idx b)"
    obtain r out bm1 where o: "bm_op2 idx b l op [] bm = Some (r, out, bm1)" "many_bits_loop idx e op (l + 1) bm1 = Some bm'"
      using 1(2) True by (auto simp: many_bits_loop.simps [of idx e op b bm] Let_def l_def split: option.splits)
    have "bm_words bm1 = bm_words bm" using o(1) bm_op4_words by (fastforce simp: bm_op2_def split: if_splits)
    then show ?thesis using 1(1) [OF True l_def o(1) refl refl o(2)] by simp
  next
    case False
    then show ?thesis using 1(2) by (simp add: many_bits_loop.simps [of idx e op b bm])
  qed
qed

interpretation slot_source: bitmap_source "bsr_bm_ops idx" "slot_ok idx" "\<lambda>bm. bm_view bm idx" for idx
proof
  fix bm and s e :: nat
  assume ok: "slot_ok idx bm" and s: "s < op_bits (bsr_bm_ops idx) bm" "s \<le> e"
  then have f: "bm_shape bm" "idx < bm_max_peers bm" "s < bm_bits bm" "s \<le> e" "bm_bits bm \<le> BSR_END_OF_BITMAP"
    by (simp_all add: slot_ok_def bm_wf_def)
  show "op_range_find_next (bsr_bm_ops idx) s e bm =
      Some (first_or (bm_view bm idx) s (min (e + 1) (op_bits (bsr_bm_ops idx) bm)) (e + 1))"
    "op_range_find_next_zero (bsr_bm_ops idx) s e bm =
      Some (first_or (\<lambda>i. \<not> bm_view bm idx i) s (min (e + 1) (op_bits (bsr_bm_ops idx) bm)) (e + 1))"
    using bm_finds [OF f] by simp_all
next
  fix bm and num off :: nat
  assume ok: "slot_ok idx bm" and num: "0 < num"
  then obtain ws where ws: "bsr_bm_get_lel idx off num bm = Some ws" "length ws \<le> 2 * num"
    "\<And>i. off * 64 \<le> i \<Longrightarrow> i < (off + num) * 64 \<Longrightarrow> i < bm_bits bm \<Longrightarrow>
      (i - off * 64) div 32 < length ws \<and> data ws (off * 64) i = bm_view bm idx i"
    using bm_get_lel_spec [of bm idx num off] by (auto simp: slot_ok_def bm_wf_def)
  then show "\<exists>ws. op_get_lel (bsr_bm_ops idx) off num bm = Some ws \<and> length ws \<le> 2 * num \<and>
      (\<forall>i. off * 64 \<le> i \<and> i < (off + num) * 64 \<and> i < op_bits (bsr_bm_ops idx) bm \<longrightarrow>
        i div 32 - 2 * off < length ws \<and> lel_bit ws off i = bm_view bm idx i)"
    using lel_bit_data lel_index by (intro exI [of _ ws]) auto
qed

interpretation slot_sink: bitmap_sink "bsr_bm_ops idx" "slot_ok idx" "\<lambda>bm. bm_view bm idx" "other_slots idx" for idx
proof
  fix bm and s e :: nat
  assume ok: "slot_ok idx bm"
  then have w: "bm_wf bm" "idx < bm_max_peers bm" "0 < bm_bits bm" by (simp_all add: slot_ok_def)
  obtain bm' where m: "bsr_bm_set_many_bits idx s e bm = Some bm'" "bm_wf bm'" "bm_updated True idx s e bm bm'"
    using bm_many_updates [OF w, of True s e] by auto
  have "bm_words bm' = bm_words bm"
    using m(1) many_bits_loop_words by (simp add: bsr_bm_set_many_bits_def bm_many_bits_op0_def Let_def)
  moreover have "bm_pages bm \<noteq> []" "bm_pages bm' \<noteq> []"
    using w m(2,3) bm_shape_pages [of bm] bm_shape_pages [of bm'] by (auto simp: bm_wf_def bm_updated_def)
  ultimately show "\<exists>bm'. op_set_many_bits (bsr_bm_ops idx) s e bm = Some bm' \<and>
      grown (bsr_bm_ops idx) (slot_ok idx) (\<lambda>bm. bm_view bm idx) (other_slots idx) (\<lambda>i. s \<le> i \<and> i \<le> e) bm bm'"
    using m ok w by (intro exI [of _ bm']) (auto simp: grown_def slot_ok_def bm_updated_def other_slots_def bsr_bm_words_def fun_eq_iff)
next
  fix bm and num off :: nat and ws :: "u32 list"
  assume ok: "slot_ok idx bm" and num: "0 < num" "length ws = 2 * num"
  then have w: "bm_wf bm" "idx < bm_max_peers bm" "0 < bm_bits bm" by (simp_all add: slot_ok_def)
  obtain bm' where m: "bsr_bm_merge_lel idx off num ws bm = Some bm'" "bm_wf bm'" "bm_bits bm' = bm_bits bm"
    "bm_max_peers bm' = bm_max_peers bm" "bsr_bm_words bm' = bsr_bm_words bm"
    and v: "\<And>k i. k < bm_max_peers bm \<Longrightarrow> i < bm_bits bm \<Longrightarrow> bm_view bm' k i \<longleftrightarrow> bm_view bm k i \<or>
       k = idx \<and> off * 64 \<le> i \<and> i < (off + num) * 64 \<and> data ws (off * 64) i"
    using bm_merge_lel_spec [OF w num, of off] by auto
  have ix: "(i - off * 64) div 32 < length ws" if "i < (off + num) * 64" for i using that num by simp
  have "grown (bsr_bm_ops idx) (slot_ok idx) (\<lambda>bm. bm_view bm idx) (other_slots idx)
      (\<lambda>i. off * 64 \<le> i \<and> i < (off + num) * 64 \<and> lel_bit ws off i) bm bm'"
    using m ok v lel_bit_data [OF _ ix] unfolding grown_def slot_ok_def other_slots_def by (auto simp: fun_eq_iff)
  then show "\<exists>bm'. op_merge_lel (bsr_bm_ops idx) off num ws bm = Some bm' \<and>
      grown (bsr_bm_ops idx) (slot_ok idx) (\<lambda>bm. bm_view bm idx) (other_slots idx)
        (\<lambda>i. off * 64 \<le> i \<and> i < (off + num) * 64 \<and> lel_bit ws off i) bm bm'"
    using m(1) by auto
qed

interpretation slots: bitmap_transfer "bsr_bm_ops si" "slot_ok si" "\<lambda>bm. bm_view bm si"
  "bsr_bm_ops ri" "slot_ok ri" "\<lambda>bm. bm_view bm ri" "other_slots ri" for si ri
  by unfold_locales

section \<open>The guarantees\<close>

text \<open>
  C6: When nothing fails on the way, the sender's loop over the bitmap ends, whether the packets are
  compressed or plain; the receiver takes every packet, asks for more after all but the last and
  finishes with it; then its slot has exactly its own bits and those of the sender, and the slots of its
  other peers are as before.
\<close>

theorem bitmap_exchange_completes:
  assumes "bm_wf sbm" and "si < bm_max_peers sbm" and "bm_wf rbm" and "ri < bm_max_peers rbm"
    and "0 < bm_bits sbm" and "bm_bits sbm \<le> BSR_END_OF_BITMAP" and "bm_bits rbm = bm_bits sbm"
    and "bsr_bm_words rbm = bsr_bm_words sbm" and "bm_bits sbm \<le> 64 * bsr_bm_words sbm"
    and "64 * bsr_bm_words sbm < 2 ^ 64" and "c_count d = 0"
  shows "\<exists>pkts d' rbm'.
    bsr_send_bitmap0 (bsr_bm_ops si) use_rle pv (\<lambda>i. send_ok) ldev w False sbm = Some (True, pkts, False, sbm) \<and>
    receive_all (bsr_bm_ops ri) pv repl pkts d rbm = Some (finish_result pv repl, [], d', rbm') \<and> bm_wf rbm' \<and>
    (\<forall>i < bm_bits rbm. bm_view rbm' ri i \<longleftrightarrow> bm_view rbm ri i \<or> bm_view sbm si i) \<and>
    (\<forall>k < bm_max_peers rbm. \<forall>i < bm_bits rbm. k \<noteq> ri \<longrightarrow> bm_view rbm' k i = bm_view rbm k i)"
proof -
  have ok: "slot_ok si sbm" "slot_ok ri rbm" using assms by (simp_all add: slot_ok_def)
  have lt: "op_bits (bsr_bm_ops si) sbm < 2 ^ 64" using assms(6) by (simp add: BSR_END_OF_BITMAP_def)
  obtain pkts d' rbm' where e:
    "bsr_send_bitmap0 (bsr_bm_ops si) use_rle pv (\<lambda>i. send_ok) ldev w False sbm = Some (True, pkts, False, sbm)"
    "receive_all (bsr_bm_ops ri) pv repl pkts d rbm = Some (finish_result pv repl, [], d', rbm')"
    "grown (bsr_bm_ops ri) (slot_ok ri) (\<lambda>bm. bm_view bm ri) (other_slots ri) (\<lambda>i. bm_view sbm si i) rbm rbm'"
    using slots.bitmap_exchange [OF ok assms(11) lt, where use_rle = use_rle and pv = pv and ldev = ldev and w = w and repl = repl] assms(7-10) by auto
  have "other_slots ri rbm' = other_slots ri rbm" using e(3) by (simp add: grown_def)
  note o = other_slots_view [OF this]
  show ?thesis using e o by (auto simp: grown_def slot_ok_def)
qed

theorem bitmap_exchange_completes_witness:
  "\<exists>pkts d' rbm'.
    bsr_send_bitmap0 (bsr_bm_ops 1) True 114 (\<lambda>i. send_ok) True True False ex_bm = Some (True, pkts, False, ex_bm) \<and>
    receive_all (bsr_bm_ops 0) 114 L_WF_BITMAP_S pkts bm_xfer_ctx0 ex_bm =
      Some (Inr (Some [Send_exchange_complete, Start_resync_source, Wait_for_recv_cleared]), [], d', rbm') \<and>
    bm_view rbm' 0 34 \<and> \<not> bm_view rbm' 0 35"
proof -
  have h: "bm_bits ex_bm = 100" "bm_max_peers ex_bm = 2" "bsr_bm_words ex_bm = 4" "100 \<le> BSR_END_OF_BITMAP"
      "c_count bm_xfer_ctx0 = 0"
    by (simp_all add: ex_bm_def bsr_bm_words_def BSR_END_OF_BITMAP_def bm_xfer_ctx0_def)
  have f: "finish_result 114 L_WF_BITMAP_S = Inr (Some [Send_exchange_complete, Start_resync_source, Wait_for_recv_cleared])"
    by (simp add: finish_result_def receive_bitmap_finished_def Let_def)
  show ?thesis
    using bitmap_exchange_completes [OF ex_bm_wf _ ex_bm_wf, of 1 0 bm_xfer_ctx0 True 114 True True L_WF_BITMAP_S] h ex_bm_view
    unfolding f by fastforce
qed



end
