(* ===== verification/Uuid.thy ===== *)
theory Uuid
  imports State
begin

text \<open>
  The data generation UUIDs of \<^verbatim>\<open>bsr/bsr_main.c\<close>: the current UUID of a device, the bitmap UUID it keeps
  for each node, and the history of UUIDs; how they are rotated, sent to a peer and received from it.

  \<open>uuid_md\<close> holds the UUIDs of the meta-data (\<^verbatim>\<open>struct bsr_md\<close>), \<open>uuid_peer\<close> what the device knows of the
  UUIDs of a peer (\<^verbatim>\<open>struct bsr_peer_device\<close>), \<open>uuid_dev\<close> is the device with both.  The states are those in effect
  (\<^verbatim>\<open>[NOW]\<close>); flag words keep their bit positions.  Random numbers, the transport, and the answers of
  \<^verbatim>\<open>bsr_device_stable_ex\<close> and \<^verbatim>\<open>is_consistent_with_primary\<close> are inputs; locks, notifications and log
  messages are left out.
\<close>

unbundle bit_operations_syntax

section \<open>The UUIDs of a device\<close>

definition UUID_JUST_CREATED :: u64 where "UUID_JUST_CREATED = 4"
definition UUID_PRIMARY :: u64 where "UUID_PRIMARY = 1"
definition UUID_NEW_BM_OFFSET :: u64 where "UUID_NEW_BM_OFFSET = 0x0001000000000000"
definition HISTORY_UUIDS :: nat where "HISTORY_UUIDS = BSR_NODE_ID_MAX"

definition MDF_PEER_DIFF_CUR_UUID :: nat where "MDF_PEER_DIFF_CUR_UUID = 5"
definition MDF_CRASHED_PRIMARY_WORK_PENDING :: nat where "MDF_CRASHED_PRIMARY_WORK_PENDING = 6"
definition MDF_PEER_INIT_SYNCT_BEGIN :: nat where "MDF_PEER_INIT_SYNCT_BEGIN = 17"
definition MDF_PEER_IN_PROGRESS_SYNC :: nat where "MDF_PEER_IN_PROGRESS_SYNC = 18"
definition MDF_PEER_PRIMARY_IO_ERROR :: nat where "MDF_PEER_PRIMARY_IO_ERROR = 19"

definition UUID_FLAG_DISCARD_MY_DATA :: nat where "UUID_FLAG_DISCARD_MY_DATA = 0"
definition UUID_FLAG_CRASHED_PRIMARY :: nat where "UUID_FLAG_CRASHED_PRIMARY = 1"
definition UUID_FLAG_INCONSISTENT :: nat where "UUID_FLAG_INCONSISTENT = 2"
definition UUID_FLAG_NEW_DATAGEN :: nat where "UUID_FLAG_NEW_DATAGEN = 4"
definition UUID_FLAG_RECONNECT :: nat where "UUID_FLAG_RECONNECT = 8"
definition UUID_FLAG_CONSISTENT_WITH_PRI :: nat where "UUID_FLAG_CONSISTENT_WITH_PRI = 10"
definition UUID_FLAG_INIT_SYNCT_BEGIN :: nat where "UUID_FLAG_INIT_SYNCT_BEGIN = 12"
definition UUID_FLAG_PRIMARY_IO_ERROR :: nat where "UUID_FLAG_PRIMARY_IO_ERROR = 13"
definition UUID_FLAG_IN_PROGRESS_SYNC :: nat where "UUID_FLAG_IN_PROGRESS_SYNC = 14"

lemmas uuid_flag_defs =
  UUID_FLAG_DISCARD_MY_DATA_def UUID_FLAG_CRASHED_PRIMARY_def UUID_FLAG_INCONSISTENT_def UUID_FLAG_NEW_DATAGEN_def
  UUID_FLAG_STABLE_def UUID_FLAG_RECONNECT_def UUID_FLAG_CONSISTENT_WITH_PRI_def UUID_FLAG_INIT_SYNCT_BEGIN_def
  UUID_FLAG_PRIMARY_IO_ERROR_def UUID_FLAG_IN_PROGRESS_SYNC_def

text \<open>
  The meta-data of a node (\<^verbatim>\<open>struct bsr_peer_md\<close>).  \<open>sl_weight\<close> is the number of bits set in the bitmap slot of the
  node, as \<^verbatim>\<open>bsr_bm_total_weight\<close> counts them.
\<close>

record md_slot =
  sl_bitmap_uuid :: u64
  sl_bitmap_dagtag :: u64
  sl_flags :: u32
  sl_bitmap_index :: int
  sl_weight :: nat

record uuid_md =
  m_current_uuid :: u64
  m_history_uuids :: "u64 list"
  m_slots :: "md_slot list"
  m_node_id :: nat
  m_flags :: u32

record uuid_peer =
  up_node_id :: nat
  up_current_uuid :: u64
  up_bitmap_uuids :: "u64 list"
  up_history_uuids :: "u64 list"
  up_dirty_bits :: u64
  up_uuid_flags :: u64
  up_authoritative_nodes :: u64
  up_uuids_received :: bool
  up_comm_bm_set :: nat
  up_disk_state :: bsr_disk_state
  up_repl_state :: bsr_repl_state
  up_cstate :: "bsr_conn_state two"
  up_peer_role :: bsr_role
  up_agreed_pro_version :: nat
  up_rs_total :: nat
  up_discard_my_data :: bool
  up_uuid_delay_send :: bool
  up_reconnect :: bool
  up_resolve_conflicts :: bool

record uuid_dev =
  ud_node_id :: nat
  ud_role :: bsr_role
  ud_disk_state :: bsr_disk_state
  ud_md :: uuid_md
  ud_exposed_data_uuid :: u64
  ud_dagtag_sector :: u64
  ud_crashed_primary :: bool
  ud_md_dirty :: bool
  ud_peers :: "uuid_peer list"

definition no_pri :: "u64 \<Rightarrow> u64" where
  "no_pri u = u AND NOT UUID_PRIMARY"

definition upd_peer :: "nat \<Rightarrow> (uuid_peer \<Rightarrow> uuid_peer) \<Rightarrow> uuid_dev \<Rightarrow> uuid_dev" where
  "upd_peer k f dev = dev\<lparr>ud_peers := (ud_peers dev)[k := f (ud_peers dev ! k)]\<rparr>"

definition upd_md :: "(uuid_md \<Rightarrow> uuid_md) \<Rightarrow> uuid_dev \<Rightarrow> uuid_dev" where
  "upd_md f dev = dev\<lparr>ud_md := f (ud_md dev)\<rparr>"

definition upd_slot :: "nat \<Rightarrow> (md_slot \<Rightarrow> md_slot) \<Rightarrow> uuid_md \<Rightarrow> uuid_md" where
  "upd_slot i f md = md\<lparr>m_slots := (m_slots md)[i := f (m_slots md ! i)]\<rparr>"

definition bsr_md_mark_dirty :: "uuid_dev \<Rightarrow> uuid_dev" where
  "bsr_md_mark_dirty dev = dev\<lparr>ud_md_dirty := True\<rparr>"

definition bsr_current_uuid :: "uuid_dev \<Rightarrow> u64" where
  "bsr_current_uuid dev = m_current_uuid (ud_md dev)"

definition bsr_bitmap_uuid :: "uuid_peer \<Rightarrow> uuid_dev \<Rightarrow> u64" where
  "bsr_bitmap_uuid p dev = sl_bitmap_uuid (m_slots (ud_md dev) ! up_node_id p)"

definition bsr_history_uuid :: "uuid_dev \<Rightarrow> nat \<Rightarrow> u64" where
  "bsr_history_uuid dev i = (if length (m_history_uuids (ud_md dev)) \<le> i then 0 else m_history_uuids (ud_md dev) ! i)"

text \<open>The index of a peer device, if there is one.\<close>

definition peer_dev_by_node_id :: "uuid_dev \<Rightarrow> nat \<Rightarrow> nat option" where
  "peer_dev_by_node_id dev node_id = List.find (\<lambda>k. up_node_id (ud_peers dev ! k) = node_id) [0..<length (ud_peers dev)]"

definition node_exists :: "md_slot \<Rightarrow> bool" where
  "node_exists s \<longleftrightarrow> sl_bitmap_index s \<noteq> -1 \<or> bit (sl_flags s) MDF_NODE_EXISTS"

definition is_sync_source :: "uuid_peer \<Rightarrow> bool" where
  "is_sync_source p \<longleftrightarrow> up_repl_state p \<in> {L_SYNC_SOURCE, L_PAUSED_SYNC_S, L_WF_BITMAP_S}"

definition md_test_peer_flag :: "uuid_peer \<Rightarrow> nat \<Rightarrow> uuid_dev \<Rightarrow> bool" where
  "md_test_peer_flag p flag dev \<longleftrightarrow> bit (sl_flags (m_slots (ud_md dev) ! up_node_id p)) flag"

definition bm_total_weight :: "uuid_peer \<Rightarrow> uuid_dev \<Rightarrow> nat" where
  "bm_total_weight p dev = sl_weight (m_slots (ud_md dev) ! up_node_id p)"

section \<open>Rotating the UUIDs\<close>

text \<open>\<^verbatim>\<open>_bsr_uuid_push_history\<close>, with the entry that fell off the end if there was a push.\<close>

definition uuid_push_history :: "u64 \<Rightarrow> uuid_md \<Rightarrow> u64 option \<times> uuid_md" where
  "uuid_push_history val md =
     (if val = UUID_JUST_CREATED then (None, md)
      else let val = val AND NOT 1; h = m_history_uuids md
           in if val \<in> set h then (None, md)
              else (Some (last h), md\<lparr>m_history_uuids := val # butlast h\<rparr>))"

definition uuid_pull_history :: "u64 option \<Rightarrow> uuid_md \<Rightarrow> u64 \<times> uuid_md" where
  "uuid_pull_history val md =
     (let h = m_history_uuids md
      in (hd h, md\<lparr>m_history_uuids := tl h @ [case val of Some v \<Rightarrow> v | None \<Rightarrow> 0]\<rparr>))"

definition push_history :: "u64 \<Rightarrow> uuid_dev \<Rightarrow> uuid_dev" where
  "push_history val = upd_md (\<lambda>md. snd (uuid_push_history val md))"

text \<open>\<^verbatim>\<open>__bsr_uuid_set_current\<close>, with the value before.\<close>

definition uuid_set_current0 :: "u64 \<Rightarrow> uuid_dev \<Rightarrow> u64 \<times> uuid_dev" where
  "uuid_set_current0 val dev =
     (let val = (if ud_role dev = R_PRIMARY then val OR UUID_PRIMARY else val AND NOT UUID_PRIMARY)
      in (bsr_current_uuid dev,
          (upd_md (\<lambda>md. md\<lparr>m_current_uuid := val\<rparr>) (bsr_md_mark_dirty dev))\<lparr>ud_exposed_data_uuid := val\<rparr>))"

definition uuid_set_bitmap0 :: "nat \<Rightarrow> u64 \<Rightarrow> uuid_dev \<Rightarrow> uuid_dev" where
  "uuid_set_bitmap0 node val dev =
     upd_md (upd_slot node (\<lambda>s. s\<lparr>sl_bitmap_uuid := val, sl_bitmap_dagtag := (if val \<noteq> 0 then ud_dagtag_sector dev else 0)\<rparr>))
       (bsr_md_mark_dirty dev)"

definition bsr_uuid_set_bitmap :: "nat \<Rightarrow> u64 \<Rightarrow> uuid_dev \<Rightarrow> uuid_dev" where
  "bsr_uuid_set_bitmap node uuid dev =
     (let previous_uuid = sl_bitmap_uuid (m_slots (ud_md dev) ! node)
      in uuid_set_bitmap0 node uuid (if previous_uuid \<noteq> 0 then push_history previous_uuid dev else dev))"

text \<open>
  \<^verbatim>\<open>rotate_current_into_bitmap\<close>: the nodes whose bitmap slot gets the current UUID.  A slot that has a
  bitmap UUID already keeps it.
\<close>

definition rotate_wanted :: "u64 \<Rightarrow> uuid_dev \<Rightarrow> nat \<Rightarrow> bool" where
  "rotate_wanted weak_nodes dev node \<longleftrightarrow>
     (let md = ud_md dev; s = m_slots md ! node
      in node \<noteq> m_node_id md \<and>
         (node_exists s \<or> m_current_uuid md = UUID_JUST_CREATED \<and> ud_peers dev = []) \<and>
         sl_bitmap_uuid s = 0 \<and>
         (case peer_dev_by_node_id dev node of
            None \<Rightarrow> True
          | Some k \<Rightarrow>
              (let p = ud_peers dev ! k; pdsk = up_disk_state p
               in pdsk \<le> D_UNKNOWN \<and> pdsk \<noteq> D_NEGOTIATING \<or> NODE_MASK node AND weak_nodes \<noteq> 0 \<or>
                  new (up_cstate p) < C_CONNECTED \<and> pdsk = D_INCONSISTENT)))"

definition rotate_node :: "u64 \<Rightarrow> u64 \<Rightarrow> nat \<Rightarrow> u64 \<times> uuid_dev \<Rightarrow> u64 \<times> uuid_dev" where
  "rotate_node weak_nodes dagtag node st =
     (case st of (got, dev) \<Rightarrow>
        if rotate_wanted weak_nodes dev node then
          (let cur = m_current_uuid (ud_md dev); uuid = (if cur \<noteq> UUID_JUST_CREATED then cur else 0)
           in (got OR NODE_MASK node,
               bsr_md_mark_dirty (upd_md (upd_slot node (\<lambda>s. s\<lparr>sl_bitmap_uuid := uuid,
                 sl_bitmap_dagtag := (if uuid \<noteq> 0 then dagtag else sl_bitmap_dagtag s)\<rparr>)) dev)))
        else (got, dev))"

definition rotate_current_into_bitmap :: "u64 \<Rightarrow> u64 \<Rightarrow> uuid_dev \<Rightarrow> u64 \<times> uuid_dev" where
  "rotate_current_into_bitmap weak_nodes dagtag dev = fold (rotate_node weak_nodes dagtag) [0..<BSR_NODE_ID_MAX] (0, dev)"

definition initial_resync_nodes :: "uuid_dev \<Rightarrow> u64" where
  "initial_resync_nodes dev =
     fold (\<lambda>p nodes. if up_disk_state p = D_INCONSISTENT \<and> up_repl_state p = L_ESTABLISHED
                     then nodes OR NODE_MASK (up_node_id p) else nodes) (ud_peers dev) 0"

definition bsr_weak_nodes_device :: "uuid_dev \<Rightarrow> u64" where
  "bsr_weak_nodes_device dev =
     NOT (fold (\<lambda>p not_weak.
       (let pdsk = up_disk_state p
        in if \<not> (pdsk \<le> D_FAILED \<or> pdsk = D_UNKNOWN \<or> pdsk = D_OUTDATED) then not_weak OR NODE_MASK (up_node_id p)
           else not_weak)) (ud_peers dev) (NODE_MASK (ud_node_id dev)))"

text \<open>What is sent to a peer device: all UUIDs with extra flags and a node mask, or a current UUID.\<close>

datatype uuid_send =
    Send_uuids (to_node: nat) (extra_flags: u64) (send_mask: u64)
  | Send_current_uuid (to_node: nat) (sent_uuid: u64) (send_mask: u64)
  | Propagate_uuids (to_node: nat)

definition new_current_send :: "bool \<Rightarrow> bool \<Rightarrow> u64 \<Rightarrow> uuid_peer \<Rightarrow> uuid_send list \<times> uuid_peer" where
  "new_current_send forced younger weak_nodes p =
     (if L_ESTABLISHED \<le> up_repl_state p then
        ([Send_uuids (up_node_id p)
            (if \<not> forced \<and> (\<not> younger \<or> up_disk_state p \<noteq> D_INCONSISTENT) then push_bit UUID_FLAG_NEW_DATAGEN 1 else 0) weak_nodes],
         p\<lparr>up_uuid_delay_send := False\<rparr>)
      else ([], if now (up_cstate p) = C_CONNECTED then p\<lparr>up_uuid_delay_send := True\<rparr> else p))"

definition new_current_sends :: "bool \<Rightarrow> bool \<Rightarrow> u64 \<Rightarrow> uuid_dev \<Rightarrow> uuid_send list \<times> uuid_dev" where
  "new_current_sends forced younger weak_nodes dev =
     (concat (map (\<lambda>p. fst (new_current_send forced younger weak_nodes p)) (ud_peers dev)),
      dev\<lparr>ud_peers := map (\<lambda>p. snd (new_current_send forced younger weak_nodes p)) (ud_peers dev)\<rparr>)"

text \<open>\<^verbatim>\<open>__bsr_uuid_new_current\<close> with the random number \<open>val\<close>; \<^verbatim>\<open>bsr_md_sync\<close> writes the meta-data.\<close>

definition uuid_new_current0 :: "bool \<Rightarrow> bool \<Rightarrow> bool \<Rightarrow> u64 \<Rightarrow> uuid_dev \<Rightarrow> uuid_send list \<times> uuid_dev" where
  "uuid_new_current0 forced send younger val dev =
     (let (got, dev) = rotate_current_into_bitmap (if forced then initial_resync_nodes dev else 0) (ud_dagtag_sector dev) dev
      in if got = 0 then ([], dev)
         else let dev = (snd (uuid_set_current0 val dev))\<lparr>ud_md_dirty := False\<rparr>
              in if send then new_current_sends forced younger (bsr_weak_nodes_device dev) dev else ([], dev))"

definition uuid_new_current_diskless :: "u64 \<Rightarrow> uuid_dev \<Rightarrow> uuid_send list \<times> uuid_dev" where
  "uuid_new_current_diskless val dev =
     (let val = val AND NOT UUID_PRIMARY; weak_nodes = bsr_weak_nodes_device dev
      in (map (\<lambda>p. Send_current_uuid (up_node_id p) val weak_nodes) (ud_peers dev),
          dev\<lparr>ud_exposed_data_uuid := val, ud_peers := map (\<lambda>p. p\<lparr>up_current_uuid := val\<rparr>) (ud_peers dev)\<rparr>))"

definition bsr_uuid_new_current :: "bool \<Rightarrow> bool \<Rightarrow> u64 \<Rightarrow> uuid_dev \<Rightarrow> uuid_send list \<times> uuid_dev" where
  "bsr_uuid_new_current forced younger val dev =
     (if ud_disk_state dev \<noteq> D_DISKLESS \<and> D_UP_TO_DATE \<le> ud_disk_state dev then uuid_new_current0 forced True younger val dev
      else uuid_new_current_diskless val dev)"

definition bsr_uuid_new_current_by_user :: "u64 \<Rightarrow> uuid_dev \<Rightarrow> uuid_send list \<times> uuid_dev" where
  "bsr_uuid_new_current_by_user val dev =
     (if ud_disk_state dev \<noteq> D_DISKLESS \<and> D_INCONSISTENT \<le> ud_disk_state dev then uuid_new_current0 False False False val dev
      else ([], dev))"

definition bsr_propagate_uuids :: "u64 \<Rightarrow> uuid_dev \<Rightarrow> uuid_send list" where
  "bsr_propagate_uuids nodes dev =
     map (\<lambda>p. Propagate_uuids (up_node_id p))
       (filter (\<lambda>p. nodes AND NODE_MASK (up_node_id p) \<noteq> 0 \<and> L_ESTABLISHED \<le> up_repl_state p) (ud_peers dev))"

text \<open>
  \<^verbatim>\<open>bsr_uuid_received_new_current\<close> from the peer device \<open>k\<close>.  While this node is the target of a resync, the new UUID is only
  noted for the peers it synchronizes with.
\<close>

definition keeps_current :: "u64 \<Rightarrow> uuid_dev \<Rightarrow> uuid_peer \<Rightarrow> bool" where
  "keeps_current weak_nodes dev p \<longleftrightarrow>
     up_repl_state p = L_SYNC_TARGET \<and> up_rs_total p \<noteq> 0 \<or> up_repl_state p = L_PAUSED_SYNC_T \<or> up_repl_state p = L_BEHIND \<or>
     up_repl_state p = L_WF_BITMAP_T \<and> NODE_MASK (ud_node_id dev) AND weak_nodes \<noteq> 0"

definition bsr_uuid_received_new_current :: "nat \<Rightarrow> u64 \<Rightarrow> u64 \<Rightarrow> u64 \<Rightarrow> uuid_dev \<Rightarrow> uuid_send list \<times> uuid_dev" where
  "bsr_uuid_received_new_current k val weak_nodes dagtag dev =
     (let set_current = (\<not> list_ex (keeps_current weak_nodes dev) (ud_peers dev) \<and>
            \<not> (ud_disk_state dev = D_OUTDATED \<and> NODE_MASK (ud_node_id dev) AND weak_nodes \<noteq> 0));
          dev = dev\<lparr>ud_peers :=
            map (\<lambda>p. if keeps_current weak_nodes dev p then p\<lparr>up_current_uuid := val\<rparr> else p) (ud_peers dev)\<rparr>
      in if set_current then
           (let (got, dev) = rotate_current_into_bitmap weak_nodes dagtag dev; dev = snd (uuid_set_current0 val dev)
            in (Send_current_uuid (up_node_id (ud_peers dev ! k)) val (bsr_weak_nodes_device dev) # bsr_propagate_uuids got dev, dev))
         else ([], dev))"

section \<open>The end of a resync\<close>

text \<open>
  \<^verbatim>\<open>__set_bitmap_slots\<close>: the bitmap UUIDs of \<open>do_nodes\<close> become those of the peer, or zero without a peer.  The state is
  the mask of the changed nodes, the saved slots (if they are to be saved) and the device.
\<close>

definition set_slot ::
  "uuid_peer option \<Rightarrow> u64 \<Rightarrow> nat \<Rightarrow> u64 \<times> md_slot list option \<times> uuid_dev \<Rightarrow> u64 \<times> md_slot list option \<times> uuid_dev" where
  "set_slot peer do_nodes node st =
     (case st of (modified, olds, dev) \<Rightarrow>
        (let uuid = (case peer of Some p \<Rightarrow> up_bitmap_uuids p ! node | None \<Rightarrow> 0); s = m_slots (ud_md dev) ! node
         in if node = m_node_id (ud_md dev) \<or> do_nodes AND NODE_MASK node = 0 \<or> sl_bitmap_uuid s = uuid then st
            else (modified OR NODE_MASK node,
              map_option (\<lambda>old. old[node := (old ! node)\<lparr>sl_bitmap_uuid := sl_bitmap_uuid s, sl_bitmap_dagtag := sl_bitmap_dagtag s\<rparr>]) olds,
              uuid_set_bitmap0 node uuid (push_history (sl_bitmap_uuid s) dev))))"

definition set_bitmap_slots ::
  "uuid_peer option \<Rightarrow> u64 \<Rightarrow> md_slot list option \<Rightarrow> uuid_dev \<Rightarrow> u64 \<times> md_slot list option \<times> uuid_dev" where
  "set_bitmap_slots peer do_nodes olds dev = fold (set_slot peer do_nodes) [0..<BSR_NODE_ID_MAX] (0, olds, dev)"

definition test_bitmap_slots_of_peer :: "uuid_peer \<Rightarrow> uuid_dev \<Rightarrow> u64" where
  "test_bitmap_slots_of_peer p dev =
     fold (\<lambda>node m.
       (case peer_dev_by_node_id dev node of
          Some k \<Rightarrow>
            if up_bitmap_uuids p ! node \<noteq> 0 \<and> no_pri (up_current_uuid p) \<noteq> no_pri (up_current_uuid (ud_peers dev ! k))
            then m OR NODE_MASK node else m
        | None \<Rightarrow> m)) [0..<BSR_NODE_ID_MAX] 0"

text \<open>
  \<^verbatim>\<open>bsr_uuid_resync_finished\<close>: the changed nodes, the saved slots, the history entry that fell off, the current
  UUID before, and the device.
\<close>

definition bsr_uuid_resync_finished ::
  "nat \<Rightarrow> md_slot list option \<Rightarrow> uuid_dev \<Rightarrow> u64 \<times> md_slot list option \<times> u64 option \<times> u64 \<times> uuid_dev" where
  "bsr_uuid_resync_finished k olds dev =
     (let p = ud_peers dev ! k;
          slots = test_bitmap_slots_of_peer p dev;
          (newer, olds, dev) = set_bitmap_slots (Some p) slots olds dev;
          (equal, olds, dev) = set_bitmap_slots None (NOT slots) olds dev;
          (removed, md) = uuid_push_history (bsr_current_uuid dev) (ud_md dev);
          (before, dev) = uuid_set_current0 (up_current_uuid p) (dev\<lparr>ud_md := md\<rparr>)
      in (newer, olds, removed, before, dev))"

text \<open>
  \<^verbatim>\<open>__rollback_bitmap_slots\<close> compares each slot with zero, which is what its local \<^verbatim>\<open>bitmap_uuid\<close> always holds.
\<close>

definition rollback_slot :: "md_slot list \<Rightarrow> u64 \<Rightarrow> nat \<Rightarrow> u64 \<times> uuid_dev \<Rightarrow> u64 \<times> uuid_dev" where
  "rollback_slot olds do_nodes node st =
     (case st of (modified, dev) \<Rightarrow>
        (let s = m_slots (ud_md dev) ! node
         in if node = m_node_id (ud_md dev) \<or> do_nodes AND NODE_MASK node = 0 \<or> sl_bitmap_uuid s = 0 then st
            else (modified OR NODE_MASK node,
              bsr_md_mark_dirty (upd_md (upd_slot node (\<lambda>s. s\<lparr>sl_bitmap_uuid := sl_bitmap_uuid (olds ! node),
                sl_bitmap_dagtag := sl_bitmap_dagtag (olds ! node)\<rparr>)) dev))))"

definition rollback_bitmap_slots :: "md_slot list \<Rightarrow> u64 \<Rightarrow> uuid_dev \<Rightarrow> u64 \<times> uuid_dev" where
  "rollback_bitmap_slots olds do_nodes dev = fold (rollback_slot olds do_nodes) [0..<BSR_NODE_ID_MAX] (0, dev)"

definition bsr_uuid_resync_finished_rollback :: "u64 \<Rightarrow> u64 \<Rightarrow> md_slot list \<Rightarrow> u64 \<Rightarrow> uuid_dev \<Rightarrow> u64 \<times> uuid_dev" where
  "bsr_uuid_resync_finished_rollback do_nodes uuid olds history dev =
     (let dev = upd_md (\<lambda>md. snd (uuid_pull_history (Some history) md)) dev;
          (newer, dev) = rollback_bitmap_slots olds do_nodes dev
      in (newer, (upd_md (\<lambda>md. md\<lparr>m_current_uuid := uuid\<rparr>) dev)\<lparr>ud_exposed_data_uuid := uuid\<rparr>))"

end
