(* ===== verification/Uuid_Packets.thy ===== *)
theory Uuid_Packets
  imports Uuid
begin

text \<open>
  The packet \<^verbatim>\<open>P_UUIDS110\<close> by which a node tells a peer its UUIDs (\<^verbatim>\<open>_bsr_send_uuids110\<close> of
  \<^verbatim>\<open>bsr/bsr_main.c\<close> and \<^verbatim>\<open>receive_uuids110\<close> of \<^verbatim>\<open>bsr/bsr_receiver.c\<close>), and what the receiver concludes about
  resyncs that finished elsewhere.  The fields of the packet are the words as they lie in memory on a little endian
  machine, so that a missing conversion from network byte order is visible.
\<close>

section \<open>The packet\<close>

definition swab64 :: "u64 \<Rightarrow> u64" where
  "swab64 x = foldr (\<lambda>i y. push_bit (56 - 8 * i) (drop_bit (8 * i) x AND 0xff) OR y) [0..<8] 0"

definition cpu_to_be64 :: "u64 \<Rightarrow> u64" where "cpu_to_be64 = swab64"

definition be64_to_cpu :: "u64 \<Rightarrow> u64" where "be64_to_cpu = swab64"

record p_uuids110 =
  pu_current_uuid :: u64
  pu_dirty_bits :: u64
  pu_uuid_flags :: u64
  pu_node_mask :: u64
  pu_bitmap_uuids_mask :: u64
  pu_other_uuids :: "u64 list"

section \<open>The sender\<close>

text \<open>
  \<^verbatim>\<open>__bitmap_uuid\<close>: a bitmap UUID of zero would tell the peer that this node is in sync with that node; -1 is
  sent instead when the current UUIDs differ.
\<close>

definition bitmap_uuid0 :: "nat \<Rightarrow> uuid_dev \<Rightarrow> u64 \<times> uuid_dev" where
  "bitmap_uuid0 node dev =
     (let uuid = sl_bitmap_uuid (m_slots (ud_md dev) ! node)
      in case peer_dev_by_node_id dev node of
           None \<Rightarrow> (uuid, dev)
         | Some k \<Rightarrow>
             (let p = ud_peers dev ! k
              in if uuid = 0 \<and> up_current_uuid p \<noteq> 0 \<and> no_pri (up_current_uuid p) \<noteq> no_pri (bsr_current_uuid dev) then
                   (-1, if now (up_cstate p) = C_CONNECTED
                        then upd_md (upd_slot node (\<lambda>s. s\<lparr>sl_flags := set_bit MDF_PEER_DIFF_CUR_UUID (sl_flags s)\<rparr>)) dev else dev)
                 else (uuid, dev)))"

fun bitmap_uuids_of :: "nat list \<Rightarrow> uuid_dev \<Rightarrow> u64 list \<times> uuid_dev" where
  "bitmap_uuids_of [] dev = ([], dev)"
| "bitmap_uuids_of (i # is) dev =
     (let (uuid, dev) = bitmap_uuid0 i dev; (uuids, dev) = bitmap_uuids_of is dev in (cpu_to_be64 uuid # uuids, dev))"

definition bitmap_uuids_mask :: "uuid_dev \<Rightarrow> u64" where
  "bitmap_uuids_mask dev =
     fold (\<lambda>i m. if node_exists (m_slots (ud_md dev) ! i) then m OR NODE_MASK i else m) [0..<BSR_NODE_ID_MAX] 0"

definition nodes_of_mask :: "u64 \<Rightarrow> nat list" where
  "nodes_of_mask m = filter (\<lambda>i. bit m i) [0..<BSR_NODE_ID_MAX]"

text \<open>
  The environment of a send: whether the buffer is available, the answer of \<^verbatim>\<open>bsr_device_stable_ex\<close> with the
  authoritative nodes, and the answer of \<^verbatim>\<open>is_consistent_with_primary\<close>.
\<close>

record uuid_env =
  env_mem :: bool
  env_stable :: bool
  env_authoritative :: u64
  env_consistent_with_pri :: bool

definition flag_if :: "bool \<Rightarrow> nat \<Rightarrow> u64 \<Rightarrow> u64" where
  "flag_if c n flags = (if c then set_bit n flags else flags)"

definition uuid_flags_of :: "uuid_env \<Rightarrow> u64 \<Rightarrow> uuid_peer \<Rightarrow> uuid_dev \<Rightarrow> u64" where
  "uuid_flags_of env flags p dev =
     flag_if (md_test_peer_flag p MDF_PEER_INIT_SYNCT_BEGIN dev) UUID_FLAG_INIT_SYNCT_BEGIN
    (flag_if (env_consistent_with_pri env) UUID_FLAG_CONSISTENT_WITH_PRI
    (flag_if (md_test_peer_flag p MDF_PEER_IN_PROGRESS_SYNC dev) UUID_FLAG_IN_PROGRESS_SYNC
    (flag_if (env_stable env) UUID_FLAG_STABLE
    (flag_if (md_test_peer_flag p MDF_PEER_PRIMARY_IO_ERROR dev) UUID_FLAG_PRIMARY_IO_ERROR
    (flag_if (up_reconnect p) UUID_FLAG_RECONNECT
    (flag_if (\<not> bit (m_flags (ud_md dev)) MDF_CONSISTENT) UUID_FLAG_INCONSISTENT
    (flag_if (ud_crashed_primary dev \<and> md_test_peer_flag p MDF_CRASHED_PRIMARY_WORK_PENDING dev \<and> \<not> is_sync_source p)
       UUID_FLAG_CRASHED_PRIMARY
    (flag_if (up_discard_my_data p) UUID_FLAG_DISCARD_MY_DATA flags))))))))"

datatype uuid_packet = P_UUIDS110 p_uuids110 | P_CURRENT_UUID u64 u64

definition send_uuids110 :: "uuid_env \<Rightarrow> nat \<Rightarrow> u64 \<Rightarrow> u64 \<Rightarrow> uuid_dev \<Rightarrow> (errno + uuid_packet) \<times> uuid_dev" where
  "send_uuids110 env k flags node_mask dev =
     (if \<not> (ud_disk_state dev \<noteq> D_DISKLESS \<and> D_NEGOTIATING \<le> ud_disk_state dev) then
        (Inr (P_CURRENT_UUID (ud_exposed_data_uuid dev) (bsr_weak_nodes_device dev)), dev)
      else if \<not> env_mem env then (Inl EIO, dev)
      else let cur = bsr_current_uuid dev;
               nodes = bitmap_uuids_mask dev;
               (uuids, dev) = bitmap_uuids_of (nodes_of_mask nodes) dev;
               history = map (\<lambda>i. cpu_to_be64 (bsr_history_uuid dev i)) [0..<HISTORY_UUIDS];
               dev = upd_peer k (\<lambda>p. p\<lparr>up_comm_bm_set := bm_total_weight p dev\<rparr>) dev;
               p = ud_peers dev ! k
           in (Inr (P_UUIDS110 \<lparr>pu_current_uuid = cpu_to_be64 cur,
                  pu_dirty_bits = cpu_to_be64 (of_nat (up_comm_bm_set p)),
                  pu_uuid_flags = cpu_to_be64 (uuid_flags_of env flags p dev),
                  pu_node_mask = cpu_to_be64 (if env_stable env then node_mask else env_authoritative env),
                  pu_bitmap_uuids_mask = cpu_to_be64 nodes,
                  pu_other_uuids = uuids @ history\<rparr>), dev))"

section \<open>The receiver\<close>

text \<open>
  \<^verbatim>\<open>update_bitmap_slot_of_peer\<close>: when the peer \<open>k\<close> has no bitmap against a node any more, that node has none
  against the peer either.
\<close>

definition update_bitmap_slot_of_peer :: "nat \<Rightarrow> nat \<Rightarrow> u64 \<Rightarrow> uuid_dev \<Rightarrow> uuid_dev" where
  "update_bitmap_slot_of_peer k node uuid dev =
     (let p = ud_peers dev ! k;
          dev = (if up_bitmap_uuids p ! node \<noteq> 0 \<and> uuid = 0 then
                   (case peer_dev_by_node_id dev node of
                      None \<Rightarrow> dev
                    | Some k2 \<Rightarrow> upd_peer k2 (\<lambda>q. q\<lparr>up_bitmap_uuids := (up_bitmap_uuids q)[up_node_id p := 0]\<rparr>) dev)
                 else dev)
      in upd_peer k (\<lambda>q. q\<lparr>up_bitmap_uuids := (up_bitmap_uuids q)[node := uuid]\<rparr>) dev)"

text \<open>
  The loop over the bitmap UUIDs of the packet: \<open>us\<close> are those not yet read.  \<^verbatim>\<open>peer_md\<close> is set while there is a
  local disk.
\<close>

fun receive_bitmap_uuids :: "nat \<Rightarrow> u64 \<Rightarrow> nat list \<Rightarrow> u64 list \<Rightarrow> uuid_dev \<Rightarrow> uuid_dev" where
  "receive_bitmap_uuids k nodes [] us dev = dev"
| "receive_bitmap_uuids k nodes (i # is) us dev =
     (if bit nodes i then
        (let dev = (if D_INCONSISTENT \<le> ud_disk_state dev \<and> sl_bitmap_index (m_slots (ud_md dev) ! i) = -1
                    then upd_md (upd_slot i (\<lambda>s. s\<lparr>sl_flags := set_bit MDF_NODE_EXISTS (sl_flags s)\<rparr>)) dev else dev)
         in receive_bitmap_uuids k nodes is (tl us) (update_bitmap_slot_of_peer k i (be64_to_cpu (hd us)) dev))
      else receive_bitmap_uuids k nodes is us (update_bitmap_slot_of_peer k i 0 dev))"

text \<open>
  \<^verbatim>\<open>receive_uuids110\<close> up to the call of \<^verbatim>\<open>__receive_uuids\<close>.  The test for \<^verbatim>\<open>UUID_FLAG_STABLE\<close> reads the flags
  in network byte order, as in the code.
\<close>

definition uuids110_fields :: "p_uuids110 \<Rightarrow> uuid_peer \<Rightarrow> uuid_peer" where
  "uuids110_fields pk p =
     p\<lparr>up_current_uuid := be64_to_cpu (pu_current_uuid pk),
       up_dirty_bits := be64_to_cpu (pu_dirty_bits pk),
       up_authoritative_nodes := (if bit (pu_uuid_flags pk) UUID_FLAG_STABLE then 0 else be64_to_cpu (pu_node_mask pk)),
       up_uuid_flags := be64_to_cpu (pu_uuid_flags pk)\<rparr>"

definition receive_uuids110_data :: "bool \<Rightarrow> nat \<Rightarrow> p_uuids110 \<Rightarrow> uuid_dev \<Rightarrow> errno option \<times> uuid_dev" where
  "receive_uuids110_data recv_ok k pk dev =
     (let dev = upd_peer k (uuids110_fields pk) dev;
          nodes = be64_to_cpu (pu_bitmap_uuids_mask pk);
          n = length (filter (bit nodes) [0..<64]);
          others = length (pu_other_uuids pk)
      in if nodes AND NOT (NODE_MASK BSR_NODE_ID_MAX - 1) \<noteq> 0 \<or> others < n \<or> \<not> recv_ok then (Some EIO, dev)
         else let history = take HISTORY_UUIDS (drop n (pu_other_uuids pk));
                  dev = receive_bitmap_uuids k nodes [0..<BSR_NODE_ID_MAX] (take n (pu_other_uuids pk)) dev
              in (None, upd_peer k (\<lambda>p. p\<lparr>up_history_uuids := map be64_to_cpu history @ replicate (HISTORY_UUIDS - length history) 0,
                    up_uuids_received := True\<rparr>) dev))"

section \<open>Resyncs that finished elsewhere\<close>

definition isForgettableReplState :: "bsr_repl_state \<Rightarrow> bool" where
  "isForgettableReplState r \<longleftrightarrow>
     \<not> (r < L_ESTABLISHED \<or> r \<in> {L_SYNC_SOURCE, L_AHEAD, L_WF_BITMAP_S, L_STARTING_SYNC_S, L_STARTING_SYNC_T})"

text \<open>\<^verbatim>\<open>forget_bitmap\<close>: the slot of the node is cleared.\<close>

definition forget_bitmap :: "nat \<Rightarrow> uuid_dev \<Rightarrow> uuid_dev" where
  "forget_bitmap node dev =
     (if sl_weight (m_slots (ud_md dev) ! node) = 0 then dev
      else bsr_md_mark_dirty (upd_md (upd_slot node (\<lambda>s. s\<lparr>sl_weight := 0\<rparr>)) dev))"

text \<open>
  One round of the loop of \<^verbatim>\<open>bsr_uuid_detect_finished_resyncs\<close>: the peer \<open>p\<close> has no bitmap against the node and is
  at the current UUID of this device, so this device needs none either.  The first component is \<^verbatim>\<open>write_bm\<close>.
\<close>

definition forget_other :: "uuid_peer \<Rightarrow> nat \<Rightarrow> uuid_dev \<Rightarrow> uuid_dev" where
  "forget_other p node dev =
     (if node = up_node_id p \<or> sl_bitmap_index (m_slots (ud_md dev) ! node) = -1 then dev
      else case peer_dev_by_node_id dev node of
             None \<Rightarrow> dev
           | Some k \<Rightarrow>
               if isForgettableReplState (up_repl_state (ud_peers dev ! k)) \<and> \<not> md_test_peer_flag p MDF_PEER_PRIMARY_IO_ERROR dev
               then forget_bitmap node dev else dev)"

definition detect_node :: "uuid_peer \<Rightarrow> nat \<Rightarrow> bool \<times> uuid_dev \<Rightarrow> bool \<times> uuid_dev" where
  "detect_node p node st =
     (case st of (write_bm, dev) \<Rightarrow>
        (let s = m_slots (ud_md dev) ! node; diff = bit (sl_flags s) MDF_PEER_DIFF_CUR_UUID
         in if node = m_node_id (ud_md dev) \<or> \<not> node_exists s \<or> up_bitmap_uuids p ! node \<noteq> 0 \<or>
               sl_bitmap_uuid s = 0 \<and> \<not> diff \<or> no_pri (up_current_uuid p) \<noteq> no_pri (bsr_current_uuid dev) then st
            else
              (let dev = (if sl_bitmap_uuid s = 0 then dev
                          else bsr_md_mark_dirty (forget_other p node
                            (upd_md (upd_slot node (\<lambda>s. s\<lparr>sl_bitmap_uuid := 0\<rparr>)) (push_history (sl_bitmap_uuid s) dev))))
               in (True, upd_md (upd_slot node (\<lambda>s. s\<lparr>sl_flags := unset_bit MDF_PEER_DIFF_CUR_UUID (sl_flags s)\<rparr>)) dev))))"

text \<open>The two cases in which the bitmap against the peer itself is cleared.\<close>

definition clear_own_bitmap :: "uuid_peer \<Rightarrow> uuid_dev \<Rightarrow> uuid_dev" where
  "clear_own_bitmap p dev =
     (let s = m_slots (ud_md dev) ! up_node_id p;
          dev = (if sl_bitmap_uuid s \<noteq> 0 then push_history (sl_bitmap_uuid s) dev else dev)
      in bsr_md_mark_dirty
           (if sl_bitmap_index s \<noteq> -1 \<and> \<not> md_test_peer_flag p MDF_PEER_PRIMARY_IO_ERROR dev then forget_bitmap (up_node_id p) dev
            else dev))"

definition peer_cleared_bitmap :: "uuid_peer \<Rightarrow> uuid_dev \<Rightarrow> bool" where
  "peer_cleared_bitmap p dev \<longleftrightarrow>
     bm_total_weight p dev \<noteq> 0 \<and> up_dirty_bits p = 0 \<and> isForgettableReplState (up_repl_state p) \<and> D_OUTDATED < ud_disk_state dev \<and>
     \<not> (up_disk_state p = D_CONSISTENT \<and> bit (up_uuid_flags p) UUID_FLAG_GOT_STABLE) \<and> ud_disk_state dev = up_disk_state p \<and>
     up_authoritative_nodes p AND NODE_MASK (ud_node_id dev) = 0 \<and> no_pri (up_current_uuid p) = no_pri (bsr_current_uuid dev)"

definition both_with_primary :: "bool \<Rightarrow> uuid_peer \<Rightarrow> uuid_dev \<Rightarrow> bool" where
  "both_with_primary consistent_with_pri p dev \<longleftrightarrow>
     bm_total_weight p dev \<noteq> 0 \<and> bit (up_uuid_flags p) UUID_FLAG_CONSISTENT_WITH_PRI \<and> consistent_with_pri \<and>
     no_pri (up_current_uuid p) = no_pri (bsr_current_uuid dev)"

text \<open>The result has the nodes to which the UUIDs are propagated, if any; then the bitmap is written too.\<close>

definition bsr_uuid_detect_finished_resyncs :: "bool \<Rightarrow> nat \<Rightarrow> uuid_dev \<Rightarrow> u64 option \<times> uuid_dev" where
  "bsr_uuid_detect_finished_resyncs consistent_with_pri k dev =
     (let p = ud_peers dev ! k;
          (write_bm, dev) = fold (detect_node p) [0..<BSR_NODE_ID_MAX] (False, dev);
          dev = (if peer_cleared_bitmap p dev then clear_own_bitmap p dev else dev);
          filled = (both_with_primary consistent_with_pri p dev \<and> up_dirty_bits p \<noteq> 0);
          dev = (if both_with_primary consistent_with_pri p dev then clear_own_bitmap p dev else dev)
      in (if write_bm \<or> filled then Some (if filled then -1 else NOT (NODE_MASK (up_node_id p))) else None, dev))"

end
