(* ===== verification/Handshake.thy ===== *)
theory Handshake
  imports Uuid_Packets
begin

text \<open>
  How two nodes that meet decide whether and in which direction to synchronize: the comparison of
  their UUIDs, the recovery after a split brain, and the handshake that turns the result into a
  replication state (\<^verbatim>\<open>bsr/bsr_receiver.c\<close>).

  The result \<open>hg\<close> of the comparison is the number of the code: positive to become sync source, negative to
  become sync target, 100 and -100 for a split brain, -1000 for unrelated data, below for a protocol that is too
  old.  The peer is the peer device \<open>k\<close> of the device.  Configuration, user mode helpers, the result of a role change
  and the answers of \<^verbatim>\<open>bsr_inspect_resync_side\<close>, \<^verbatim>\<open>disk_state_from_md\<close> and of the file system are inputs.
\<close>

section \<open>Comparing UUIDs\<close>

definition find_uuid :: "u64 \<Rightarrow> u64 list \<Rightarrow> nat option" where
  "find_uuid u us = List.find (\<lambda>i. no_pri (us ! i) = u) [0..<length us]"

text \<open>
  The corrections for old protocols, each with the result, the rule and the device; -2000 means that there
  was nothing to correct.
\<close>

definition fixup_source :: "nat \<Rightarrow> nat \<Rightarrow> uuid_dev \<Rightarrow> int \<times> nat \<times> uuid_dev" where
  "fixup_source k rule_nr dev =
     (let p = ud_peers dev ! k; bm = bsr_bitmap_uuid p dev; h0 = no_pri (up_history_uuids p ! 0)
      in if up_agreed_pro_version p < 91 then (-1091, rule_nr, dev)
         else if no_pri bm = h0 \<and> no_pri (bsr_history_uuid dev 0) = h0 then
           (2, 34, upd_md (upd_slot (up_node_id p) (\<lambda>s. s\<lparr>sl_bitmap_uuid := 0\<rparr>)) (push_history bm dev))
         else (2, 36, dev))"

definition fixup_target :: "nat \<Rightarrow> nat \<Rightarrow> uuid_dev \<Rightarrow> int \<times> nat \<times> uuid_dev" where
  "fixup_target k rule_nr dev =
     (let p = ud_peers dev ! k; peer_bm = up_bitmap_uuids p ! ud_node_id dev
      in if up_agreed_pro_version p < 91 then (-1091, rule_nr, dev)
         else if no_pri (bsr_history_uuid dev 0) = no_pri peer_bm \<and>
                 no_pri (bsr_history_uuid dev 1) = no_pri (up_history_uuids p ! 0) then
           (-2, 35, upd_peer k (\<lambda>p. p\<lparr>up_history_uuids := peer_bm # butlast (up_history_uuids p),
              up_bitmap_uuids := (up_bitmap_uuids p)[ud_node_id dev := 0]\<rparr>) dev)
         else (-2, 37, dev))"

definition uuid_fixup_resync_end :: "nat \<Rightarrow> nat \<Rightarrow> uuid_dev \<Rightarrow> int \<times> nat \<times> uuid_dev" where
  "uuid_fixup_resync_end k rule_nr dev =
     (let p = ud_peers dev ! k; bm = bsr_bitmap_uuid p dev; peer_bm = up_bitmap_uuids p ! ud_node_id dev
      in if peer_bm = 0 \<and> bm \<noteq> 0 then fixup_source k rule_nr dev
         else if bm = 0 \<and> peer_bm \<noteq> 0 then fixup_target k rule_nr dev
         else (-2000, rule_nr, dev))"

definition uuid_fixup_resync_start1 :: "nat \<Rightarrow> nat \<Rightarrow> uuid_dev \<Rightarrow> int \<times> nat \<times> uuid_dev" where
  "uuid_fixup_resync_start1 k rule_nr dev =
     (let p = ud_peers dev ! k; self = no_pri (bsr_current_uuid dev); peer = no_pri (up_history_uuids p ! 0)
      in if self = peer \<and>
            (if up_agreed_pro_version p < 96 then no_pri (bsr_history_uuid dev 0) = no_pri (up_history_uuids p ! 1)
             else peer + UUID_NEW_BM_OFFSET = no_pri (up_bitmap_uuids p ! ud_node_id dev)) then
           if up_agreed_pro_version p < 91 then (-1091, 51, dev)
           else (-2, 51, upd_peer k (\<lambda>p. p\<lparr>up_bitmap_uuids := (up_bitmap_uuids p)[ud_node_id dev := up_history_uuids p ! 0],
                  up_history_uuids := tl (up_history_uuids p) @ [0]\<rparr>) dev)
         else (-2000, rule_nr, dev))"

definition uuid_fixup_resync_start2 :: "nat \<Rightarrow> nat \<Rightarrow> uuid_dev \<Rightarrow> int \<times> nat \<times> uuid_dev" where
  "uuid_fixup_resync_start2 k rule_nr dev =
     (let p = ud_peers dev ! k; self = no_pri (bsr_history_uuid dev 0); peer = no_pri (up_current_uuid p)
      in if self = peer \<and>
            (if up_agreed_pro_version p < 96 then no_pri (bsr_history_uuid dev 1) = no_pri (up_history_uuids p ! 0)
             else self + UUID_NEW_BM_OFFSET = no_pri (bsr_bitmap_uuid p dev)) then
           if up_agreed_pro_version p < 91 then (-1091, 71, dev)
           else let (bitmap_uuid, md) = uuid_pull_history None (ud_md dev)
                in (2, 71, uuid_set_bitmap0 (up_node_id p) bitmap_uuid (dev\<lparr>ud_md := md\<rparr>))
         else (-2000, rule_nr, dev))"

text \<open>The rules 38 and 40, for equal current UUIDs.\<close>

definition compare_crashed :: "uuid_peer \<Rightarrow> uuid_dev \<Rightarrow> int \<times> nat" where
  "compare_crashed p dev =
     (if bit (up_uuid_flags p) UUID_FLAG_RECONNECT \<and> up_reconnect p then (0, 38)
      else if is_sync_source p then (0, 40)
      else if ud_crashed_primary dev \<and> md_test_peer_flag p MDF_CRASHED_PRIMARY_WORK_PENDING dev then
        (if bit (up_uuid_flags p) UUID_FLAG_CRASHED_PRIMARY \<and> up_resolve_conflicts p then -1 else 1, 40)
      else if bit (up_uuid_flags p) UUID_FLAG_CRASHED_PRIMARY then (-1, 40)
      else (0, 40))"

text \<open>The rules 80 to 100, after all rules by which one node is an ancestor of the other.\<close>

definition compare_unrelated :: "uuid_peer \<Rightarrow> uuid_dev \<Rightarrow> int \<times> nat" where
  "compare_unrelated p dev =
     (let bm = no_pri (bsr_bitmap_uuid p dev); history = map no_pri (map (bsr_history_uuid dev) [0..<HISTORY_UUIDS])
      in if no_pri (up_current_uuid p) \<in> set history then (3, 80)
         else if bm = no_pri (up_bitmap_uuids p ! ud_node_id dev) \<and> bm \<noteq> 0 then (100, 90)
         else if set history \<inter> set (map no_pri (up_history_uuids p)) \<noteq> {} then (-100, 100)
         else (-1000, 100))"

text \<open>The rules 70 and 72: the nodes for which the current UUID of the peer is the bitmap UUID.\<close>

definition find_slot :: "uuid_peer \<Rightarrow> uuid_dev \<Rightarrow> nat option" where
  "find_slot p dev =
     List.find (\<lambda>i. i \<noteq> up_node_id p \<and> i \<noteq> m_node_id (ud_md dev) \<and>
       no_pri (sl_bitmap_uuid (m_slots (ud_md dev) ! i)) = no_pri (up_current_uuid p)) [0..<BSR_NODE_ID_MAX]"

definition compare_newer :: "nat \<Rightarrow> uuid_dev \<Rightarrow> int \<times> nat \<times> nat option \<times> uuid_dev" where
  "compare_newer k dev =
     (let p = ud_peers dev ! k
      in if no_pri (bsr_bitmap_uuid p dev) = no_pri (up_current_uuid p) then (2, 70, None, dev)
         else case find_slot p dev of
           Some i \<Rightarrow> (4, 72, Some i, dev)
         | None \<Rightarrow>
             (let (rv, rule_nr, dev) =
                (if up_agreed_pro_version p < 110 then uuid_fixup_resync_start2 k 72 dev else (-2000, 72, dev))
              in if -2000 < rv then (rv, rule_nr, None, dev)
                 else let (hg, rule_nr) = compare_unrelated (ud_peers dev ! k) dev in (hg, rule_nr, None, dev)))"

text \<open>The rules 50 to 60: the current UUID of this node is known to the peer.\<close>

definition compare_older :: "nat \<Rightarrow> uuid_dev \<Rightarrow> int \<times> nat \<times> nat option \<times> uuid_dev" where
  "compare_older k dev =
     (let p = ud_peers dev ! k; self = no_pri (bsr_current_uuid dev)
      in if self = no_pri (up_bitmap_uuids p ! ud_node_id dev) then (-2, 50, None, dev)
         else case find_uuid self (up_bitmap_uuids p) of
           Some i \<Rightarrow> (-4, 52, Some i, dev)
         | None \<Rightarrow>
             (let (rv, rule_nr, dev) =
                (if up_agreed_pro_version p < 110 then uuid_fixup_resync_start1 k 52 dev else (-2000, 52, dev))
              in if -2000 < rv then (rv, rule_nr, None, dev)
                 else if self \<in> set (map no_pri (up_history_uuids (ud_peers dev ! k))) then (-3, 60, None, dev)
                 else compare_newer k dev))"

definition or_just_created :: "u64 \<Rightarrow> u64" where
  "or_just_created u = (if u = 0 then UUID_JUST_CREATED else u)"

definition bsr_uuid_compare :: "nat \<Rightarrow> uuid_dev \<Rightarrow> int \<times> nat \<times> nat option \<times> uuid_dev" where
  "bsr_uuid_compare k dev =
     (let p = ud_peers dev ! k;
          self = or_just_created (no_pri (bsr_current_uuid dev));
          peer = or_just_created (no_pri (up_current_uuid p))
      in if self = UUID_JUST_CREATED \<and> peer = UUID_JUST_CREATED then (0, 10, None, dev)
         else if self = UUID_JUST_CREATED then (-3, 20, None, dev)
         else if peer = UUID_JUST_CREATED then (3, 30, None, dev)
         else if self = peer then
           (let (rv, rule_nr, dev) = (if up_agreed_pro_version p < 110 then uuid_fixup_resync_end k 30 dev else (-2000, 30, dev))
            in if -2000 < rv then (rv, rule_nr, None, dev)
               else let (hg, rule_nr) = compare_crashed (ud_peers dev ! k) dev in (hg, rule_nr, None, dev))
         else compare_older k dev)"

section \<open>Recovery after a split brain\<close>

datatype bsr_after_sb_p =
    ASB_DISCONNECT | ASB_DISCARD_YOUNGER_PRI | ASB_DISCARD_OLDER_PRI | ASB_DISCARD_ZERO_CHG | ASB_DISCARD_LEAST_CHG
  | ASB_DISCARD_LOCAL | ASB_DISCARD_REMOTE | ASB_CONSENSUS | ASB_DISCARD_SECONDARY | ASB_CALL_HELPER | ASB_VIOLENTLY

record hs_env =
  after_sb_0p :: bsr_after_sb_p
  after_sb_1p :: bsr_after_sb_p
  after_sb_2p :: bsr_after_sb_p
  always_asbp :: bool
  rr_conflict :: bsr_after_sb_p
  demotes :: bool
  md_disk_state :: bsr_disk_state
  inspect_source :: bool
  inspect_target :: bool
  dry_run :: bool
  fast_sync :: bool
  set_oos :: bool
  oos_needs_all :: bool
  bm_io_ok :: bool
  bm_all_bits :: nat

definition by_conflicts :: "uuid_peer \<Rightarrow> int" where
  "by_conflicts p = (if up_resolve_conflicts p then -2 else 2)"

definition discard_least :: "uuid_peer \<Rightarrow> int" where
  "discard_least p =
     (let ch_self = up_comm_bm_set p; ch_peer = unat (up_dirty_bits p)
      in if ch_self < ch_peer then -2 else if ch_peer < ch_self then 2 else by_conflicts p)"

definition discard_zero :: "bsr_after_sb_p \<Rightarrow> uuid_peer \<Rightarrow> int" where
  "discard_zero asb p =
     (let ch_self = up_comm_bm_set p; ch_peer = unat (up_dirty_bits p)
      in if ch_peer = 0 \<and> ch_self = 0 then by_conflicts p
         else if ch_peer = 0 then 2
         else if ch_self = 0 then -2
         else if asb = ASB_DISCARD_ZERO_CHG then -100
         else discard_least p)"

definition asb_recover_0p :: "hs_env \<Rightarrow> uuid_peer \<Rightarrow> uuid_dev \<Rightarrow> int" where
  "asb_recover_0p env p dev =
     (let self = bit (bsr_bitmap_uuid p dev) 0;
          peer = bit (up_bitmap_uuids p ! ud_node_id dev) 0
      in case after_sb_0p env of
           ASB_DISCARD_YOUNGER_PRI \<Rightarrow>
             if \<not> self \<and> peer then -2 else if self \<and> \<not> peer then 2 else discard_zero ASB_DISCARD_YOUNGER_PRI p
         | ASB_DISCARD_OLDER_PRI \<Rightarrow>
             if \<not> self \<and> peer then 2 else if self \<and> \<not> peer then -2 else discard_zero ASB_DISCARD_OLDER_PRI p
         | ASB_DISCARD_ZERO_CHG \<Rightarrow> discard_zero ASB_DISCARD_ZERO_CHG p
         | ASB_DISCARD_LEAST_CHG \<Rightarrow> discard_least p
         | ASB_DISCARD_LOCAL \<Rightarrow> -2
         | ASB_DISCARD_REMOTE \<Rightarrow> 2
         | _ \<Rightarrow> -100)"

text \<open>
  With a helper for the lost primary, this node is demoted if it would lose its data; \<open>demotes\<close> is whether
  that role change succeeds.
\<close>

definition demote_or_refuse :: "hs_env \<Rightarrow> int \<Rightarrow> uuid_dev \<Rightarrow> int \<times> uuid_dev" where
  "demote_or_refuse env hg dev = (if demotes env then (hg, dev\<lparr>ud_role := R_SECONDARY\<rparr>) else (-100, dev))"

definition asb_recover_1p :: "hs_env \<Rightarrow> uuid_peer \<Rightarrow> uuid_dev \<Rightarrow> int \<times> uuid_dev" where
  "asb_recover_1p env p dev =
     (let hg = asb_recover_0p env p dev
      in case after_sb_1p env of
           ASB_CONSENSUS \<Rightarrow>
             (if hg = -2 \<and> ud_role dev = R_SECONDARY \<or> hg = 2 \<and> ud_role dev = R_PRIMARY then hg else -100, dev)
         | ASB_VIOLENTLY \<Rightarrow> (hg, dev)
         | ASB_DISCARD_SECONDARY \<Rightarrow> (if ud_role dev = R_PRIMARY then 2 else -2, dev)
         | ASB_CALL_HELPER \<Rightarrow> if hg = -2 \<and> ud_role dev = R_PRIMARY then demote_or_refuse env hg dev else (hg, dev)
         | _ \<Rightarrow> (-100, dev))"

definition asb_recover_2p :: "hs_env \<Rightarrow> uuid_peer \<Rightarrow> uuid_dev \<Rightarrow> int \<times> uuid_dev" where
  "asb_recover_2p env p dev =
     (let hg = asb_recover_0p env p dev
      in case after_sb_2p env of
           ASB_VIOLENTLY \<Rightarrow> (hg, dev)
         | ASB_CALL_HELPER \<Rightarrow> if hg = -2 then demote_or_refuse env hg dev else (hg, dev)
         | _ \<Rightarrow> (-100, dev))"

section \<open>The handshake\<close>

definition is_resync_running :: "uuid_dev \<Rightarrow> bool" where
  "is_resync_running dev \<longleftrightarrow> list_ex (\<lambda>p. up_repl_state p \<in> {L_SYNC_TARGET, L_PAUSED_SYNC_T}) (ud_peers dev)"

definition eff_disk_state :: "hs_env \<Rightarrow> uuid_dev \<Rightarrow> bsr_disk_state" where
  "eff_disk_state env dev = (if ud_disk_state dev = D_NEGOTIATING then md_disk_state env else ud_disk_state dev)"

definition disk_states_to_goodness :: "hs_env \<Rightarrow> bsr_disk_state \<Rightarrow> nat \<Rightarrow> uuid_dev \<Rightarrow> int \<Rightarrow> int" where
  "disk_states_to_goodness env peer_disk_state rule_nr dev hg =
     (let disk_state = eff_disk_state env dev
      in if hg \<noteq> 0 \<and> rule_nr \<noteq> 40 \<or> peer_disk_state = D_UNKNOWN then hg
         else if disk_state = D_INCONSISTENT \<and> D_INCONSISTENT < peer_disk_state \<or>
                 peer_disk_state = D_INCONSISTENT \<and> D_INCONSISTENT < disk_state
         then if D_INCONSISTENT < disk_state then 2 else -2
         else hg)"

text \<open>\<^verbatim>\<open>various_states_to_goodness\<close>, with the device because it may forget a bitmap.\<close>

definition various_states_to_goodness ::
  "hs_env \<Rightarrow> bsr_disk_state \<Rightarrow> bsr_role \<Rightarrow> uuid_peer \<Rightarrow> uuid_dev \<Rightarrow> int \<Rightarrow> int \<times> uuid_dev" where
  "various_states_to_goodness env peer_disk_state prole p dev hg =
     (let disk_state = eff_disk_state env dev
      in if hg \<noteq> 0 \<or> bm_total_weight p dev = 0 \<and> up_dirty_bits p = 0 then (hg, dev)
         else if ud_role dev = R_PRIMARY \<or> prole = R_PRIMARY then (if ud_role dev = R_PRIMARY then 2 else -2, dev)
         else if peer_disk_state = D_CONSISTENT \<or> disk_state = D_CONSISTENT then (hg, dev)
         else if peer_disk_state \<noteq> D_UNKNOWN \<and> peer_disk_state \<noteq> disk_state \<and>
                 (D_OUTDATED \<le> peer_disk_state \<or> D_OUTDATED \<le> disk_state)
         then (if peer_disk_state < disk_state then 2 else -2, dev)
         else (hg, if ud_disk_state dev = D_UP_TO_DATE \<and> peer_disk_state = D_UP_TO_DATE \<and> up_dirty_bits p = 0
                   then clear_own_bitmap p dev else dev))"

text \<open>The automatic recovery; a result that no strategy found stays at 100 or -100.\<close>

definition auto_recover :: "hs_env \<Rightarrow> bsr_role \<Rightarrow> uuid_peer \<Rightarrow> uuid_dev \<Rightarrow> int \<Rightarrow> int \<times> uuid_dev" where
  "auto_recover env prole p dev hg =
     (if hg = 100 \<or> hg = -100 \<and> always_asbp env then
        (let (rv, dev) = (if ud_role dev = R_PRIMARY \<and> prole = R_PRIMARY then asb_recover_2p env p dev
                          else if ud_role dev = R_PRIMARY \<or> prole = R_PRIMARY then asb_recover_1p env p dev
                          else (asb_recover_0p env p dev, dev))
         in (if \<bar>rv\<bar> < 100 \<and> hg = -100 then (if 0 < rv then rv + 1 else rv - 1) else rv, dev))
      else (hg, dev))"

text \<open>
  The user's decision to discard the data of one node: the result, whether a new current UUID is due, and the
  \<^verbatim>\<open>DISCARD_MY_DATA\<close> flag; \<open>None\<close> if both nodes have the flag.
\<close>

definition discard_my_data :: "uuid_peer \<Rightarrow> uuid_dev \<Rightarrow> int \<Rightarrow> (int \<times> bool \<times> bool) option" where
  "discard_my_data p dev hg =
     (let mine = up_discard_my_data p; theirs = bit (up_uuid_flags p) UUID_FLAG_DISCARD_MY_DATA
      in if hg = -100 then
           if mine \<and> theirs then None
           else Some (if mine then -2 else if theirs then 2 else hg, False, mine)
         else if (hg \<le> -2 \<or> 2 \<le> hg) \<and> (ud_role dev = R_PRIMARY \<or> up_peer_role p = R_PRIMARY) then
           (let hg = (if up_peer_role p = R_PRIMARY \<and> mine \<and> \<not> theirs then -2 else hg);
                source = (ud_role dev = R_PRIMARY \<and> \<not> mine \<and> theirs)
            in Some (if source then 2 else hg, source, mine))
         else Some (hg, False, False))"

text \<open>The reasons to give up the connection after the direction is known.\<close>

definition handshake_refused :: "hs_env \<Rightarrow> uuid_peer \<Rightarrow> uuid_dev \<Rightarrow> int \<Rightarrow> bool" where
  "handshake_refused env p dev hg \<longleftrightarrow>
     hg = -100 \<or>
     hg \<le> -2 \<and> ud_role dev = R_PRIMARY \<and> D_CONSISTENT \<le> ud_disk_state dev \<and> rr_conflict env \<in> {ASB_CALL_HELPER, ASB_DISCONNECT} \<or>
     hg = 3 \<and> ud_disk_state dev < D_OUTDATED \<and> bsr_current_uuid dev \<noteq> UUID_JUST_CREATED \<and> inspect_source env \<or>
     hg = -3 \<and> bit (up_uuid_flags p) UUID_FLAG_INCONSISTENT \<and> inspect_target env \<or>
     dry_run env"

text \<open>
  \<^verbatim>\<open>bitmap_mod_after_handshake\<close>: a full resync sets every bit, unless only the allocated clusters are
  out of sync.  \<open>fast_sync\<close> is whether they are asked for, \<open>set_oos\<close> whether that worked, \<open>oos_needs_all\<close> the
  \<^verbatim>\<open>bSync\<close> it leaves.  The result is whether writing the bitmap failed.
\<close>

definition bitmap_mod_after_handshake :: "hs_env \<Rightarrow> uuid_peer \<Rightarrow> int \<Rightarrow> uuid_dev \<Rightarrow> bool \<times> uuid_dev" where
  "bitmap_mod_after_handshake env p hg dev =
     (if \<bar>hg\<bar> < 3 \<or> \<bar>hg\<bar> = 4 then (False, dev)
      else if hg = -3 \<and> bsr_current_uuid dev = UUID_JUST_CREATED \<and> (is_resync_running dev \<or> \<not> inspect_target env) then (False, dev)
      else if hg = 3 \<and> bit (up_uuid_flags p) UUID_FLAG_INIT_SYNCT_BEGIN \<or>
              hg = -3 \<and> md_test_peer_flag p MDF_PEER_INIT_SYNCT_BEGIN dev then (False, dev)
      else if fast_sync env \<and> set_oos env then (False, dev)
      else if fast_sync env \<and> \<not> oos_needs_all env then (False, dev)
      else (\<not> bm_io_ok env, upd_md (upd_slot (up_node_id p) (\<lambda>s. s\<lparr>sl_weight := bm_all_bits env\<rparr>)) dev))"

text \<open>\<^verbatim>\<open>goodness_to_repl_state\<close>.\<close>

definition clear_bitmap :: "uuid_peer \<Rightarrow> uuid_dev \<Rightarrow> uuid_dev" where
  "clear_bitmap p dev = upd_md (upd_slot (up_node_id p) (\<lambda>s. s\<lparr>sl_weight := 0\<rparr>)) (bsr_uuid_set_bitmap (up_node_id p) 0 dev)"

definition no_resync_state :: "uuid_peer \<Rightarrow> uuid_dev \<Rightarrow> bsr_repl_state \<times> uuid_dev" where
  "no_resync_state p dev =
     (if bsr_bitmap_uuid p dev \<noteq> 0 then (L_ESTABLISHED, clear_bitmap p dev)
      else if bm_total_weight p dev = 0 then (L_ESTABLISHED, dev)
      else if md_test_peer_flag p MDF_PEER_PRIMARY_IO_ERROR dev then (L_WF_BITMAP_S, dev)
      else if bit (up_uuid_flags p) UUID_FLAG_PRIMARY_IO_ERROR then (L_WF_BITMAP_T, dev)
      else if md_test_peer_flag p MDF_PEER_IN_PROGRESS_SYNC dev \<or> bit (up_uuid_flags p) UUID_FLAG_IN_PROGRESS_SYNC
      then (L_ESTABLISHED, clear_bitmap p dev)
      else (L_ESTABLISHED, dev))"

definition clear_in_progress :: "uuid_peer \<Rightarrow> uuid_dev \<Rightarrow> uuid_dev" where
  "clear_in_progress p =
     upd_md (upd_slot (up_node_id p) (\<lambda>s. s\<lparr>sl_flags := unset_bit MDF_PEER_IN_PROGRESS_SYNC (sl_flags s)\<rparr>))"

definition goodness_to_repl_state :: "uuid_peer \<Rightarrow> bsr_role \<Rightarrow> int \<Rightarrow> uuid_dev \<Rightarrow> bsr_repl_state \<times> uuid_dev" where
  "goodness_to_repl_state p prole hg dev =
     (if \<bar>hg\<bar> = 1 \<and> (ud_role dev = R_PRIMARY \<or> prole = R_PRIMARY) then
        (if prole = R_SECONDARY then L_WF_BITMAP_S else if ud_role dev = R_SECONDARY then L_WF_BITMAP_T else L_ESTABLISHED, dev)
      else
        (let (rv, dev) = (if 0 < hg then (L_WF_BITMAP_S, dev) else if hg < 0 then (L_WF_BITMAP_T, dev) else no_resync_state p dev)
         in (rv, clear_in_progress p dev)))"

text \<open>
  \<^verbatim>\<open>bsr_sync_handshake\<close>: the new replication state, or \<open>None\<close> for -1.  The last component is whether the
  device gets the flag \<^verbatim>\<open>NEW_CUR_UUID\<close>.
\<close>

definition handshake_decided ::
  "hs_env \<Rightarrow> bsr_role \<Rightarrow> nat \<Rightarrow> uuid_dev \<Rightarrow> int \<Rightarrow> bsr_repl_state option \<times> bool \<times> uuid_dev" where
  "handshake_decided env prole k dev hg =
     (case discard_my_data (ud_peers dev ! k) dev hg of
        None \<Rightarrow> (None, False, dev)
      | Some (hg, new_cur, flag) \<Rightarrow>
          (let dev = upd_peer k (\<lambda>p. p\<lparr>up_discard_my_data := flag\<rparr>) dev; p = ud_peers dev ! k
           in if handshake_refused env p dev hg then (None, new_cur, dev)
              else let (failed, dev) = bitmap_mod_after_handshake env p hg dev
                   in if failed then (None, new_cur, dev)
                      else let (rv, dev) = goodness_to_repl_state p prole hg dev in (Some rv, new_cur, dev)))"

definition bsr_sync_handshake ::
  "hs_env \<Rightarrow> bsr_role \<Rightarrow> bsr_disk_state \<Rightarrow> nat \<Rightarrow> uuid_dev \<Rightarrow> bsr_repl_state option \<times> bool \<times> uuid_dev" where
  "bsr_sync_handshake env prole peer_disk_state k dev =
     (let (hg, rule_nr, peer_node_id, dev) = bsr_uuid_compare k dev
      in if hg \<le> -1000 then (None, False, dev)
         else let hg = disk_states_to_goodness env peer_disk_state rule_nr dev hg;
                  (hg, dev) = various_states_to_goodness env peer_disk_state prole (ud_peers dev ! k) dev hg;
                  (hg, dev) = auto_recover env prole (ud_peers dev ! k) dev hg
              in handshake_decided env prole k dev hg)"

definition bsr_attach_handshake :: "hs_env \<Rightarrow> bsr_disk_state \<Rightarrow> nat \<Rightarrow> uuid_dev \<Rightarrow> bsr_repl_state option \<times> uuid_dev" where
  "bsr_attach_handshake env peer_disk_state k dev =
     (let (hg, rule_nr, peer_node_id, dev) = bsr_uuid_compare k dev; p = ud_peers dev ! k
      in if hg < -4 \<or> 4 < hg then (None, dev)
         else let (failed, dev) = bitmap_mod_after_handshake env p hg dev;
                  hg = disk_states_to_goodness env peer_disk_state rule_nr dev hg;
                  (rv, dev) = goodness_to_repl_state p (up_peer_role p) hg dev
              in (Some rv, dev))"

definition convert_after_sb :: "bsr_after_sb_p \<Rightarrow> bsr_after_sb_p" where
  "convert_after_sb peer =
     (case peer of ASB_DISCARD_REMOTE \<Rightarrow> ASB_DISCARD_LOCAL | ASB_DISCARD_LOCAL \<Rightarrow> ASB_DISCARD_REMOTE | _ \<Rightarrow> peer)"

end
