(* ===== verification/Uuid_Lemmas.thy ===== *)
theory Uuid_Lemmas
  imports Handshake
begin

text \<open>
  The type invariant of the UUIDs of a device, kept by every operation on them, and the round trip of
  the UUID packet.
\<close>

section \<open>Words\<close>

lemma no_pri_simps [simp]: "no_pri 0 = 0" "no_pri (no_pri u) = no_pri u" "no_pri (u OR 1) = no_pri u"
  "no_pri (u AND NOT 1) = no_pri u" "no_pri (u OR UUID_PRIMARY) = no_pri u" "no_pri (u AND NOT UUID_PRIMARY) = no_pri u"
  by (auto intro!: bit_eqI simp: no_pri_def UUID_PRIMARY_def bit_simps)

lemma not_bit_no_pri [simp]: "\<not> bit (no_pri u) 0"
  by (simp add: no_pri_def UUID_PRIMARY_def bit_simps)

lemma bit_swab64: "bit (swab64 x) n \<longleftrightarrow> n < 64 \<and> bit x (8 * (7 - n div 8) + n mod 8)"
proof (cases "n < 64")
  case True
  define q r where "q = n div 8" and "r = n mod 8"
  have n: "n = 8 * q + r" "r < 8" by (simp_all add: q_def r_def)
  have ff: "(0xff :: u64) = mask 8" by (simp add: mask_eq_exp_minus_1)
  have "q \<in> set [0..<8]" using True by (auto simp: q_def)
  then show ?thesis
    using n unfolding swab64_def ff q_def [symmetric] r_def [symmetric]
    by (simp add: upt_rec bit_simps True) (elim disjE; force simp: add.commute)
next
  case False
  then show ?thesis using bit_imp_le_length [of "swab64 x" n] by auto
qed

lemma swab64_swab64: "swab64 (swab64 x) = x"
proof (rule bit_eqI)
  fix n assume "possible_bit TYPE(u64) n"
  then have n: "n < 64" by (simp add: possible_bit_word)
  then have "n div 8 < 8" by linarith
  then have "8 * (7 - n div 8) + n mod 8 < 64" "(8 * (7 - n div 8) + n mod 8) div 8 = 7 - n div 8"
     "(8 * (7 - n div 8) + n mod 8) mod 8 = n mod 8" "7 - (7 - n div 8) = n div 8"
    by auto
  then show "bit (swab64 (swab64 x)) n = bit x n" using n by (simp add: bit_swab64)
qed

lemma be64_cpu [simp]: "be64_to_cpu (cpu_to_be64 x) = x"
  by (simp add: be64_to_cpu_def cpu_to_be64_def swab64_swab64)

lemma NODE_MASK_bit [simp]: "bit (NODE_MASK i) j \<longleftrightarrow> i = j \<and> j < 64"
  by (auto simp: NODE_MASK_def bit_simps)

lemma and_NODE_MASK: "m AND NODE_MASK i = 0 \<longleftrightarrow> \<not> bit m i" if "i < 64" for m :: u64
proof
  show "\<not> bit m i" if "m AND NODE_MASK i = 0"
    using arg_cong [OF that, of "\<lambda>w. bit w i"] \<open>i < 64\<close> by (simp add: bit_simps)
qed (auto intro: bit_word_eqI simp: bit_simps)

lemma NODE_MASK_and: "NODE_MASK i AND m = 0 \<longleftrightarrow> \<not> bit m i" if "i < 64" for m :: u64
  using and_NODE_MASK [OF that, of m] by (simp add: and.commute)

section \<open>The type invariant\<close>

definition history_ok :: "u64 list \<Rightarrow> bool" where
  "history_ok h \<longleftrightarrow> length h = HISTORY_UUIDS \<and> (\<forall>u \<in> set h. \<not> bit u 0) \<and> distinct (filter (\<lambda>u. u \<noteq> 0) h)"

text \<open>
  The history has its fixed length, no primary bits, and no UUID twice; there is a slot for every
  node, and none of the node's UUIDs is in its own slot.
\<close>

definition md_ok :: "uuid_md \<Rightarrow> bool" where
  "md_ok md \<longleftrightarrow> history_ok (m_history_uuids md) \<and> length (m_slots md) = BSR_NODE_ID_MAX \<and> m_node_id md < BSR_NODE_ID_MAX \<and>
     sl_bitmap_uuid (m_slots md ! m_node_id md) = 0"

definition peer_ok :: "nat \<Rightarrow> uuid_peer \<Rightarrow> bool" where
  "peer_ok me p \<longleftrightarrow> up_node_id p < BSR_NODE_ID_MAX \<and> up_node_id p \<noteq> me \<and> length (up_bitmap_uuids p) = BSR_NODE_ID_MAX \<and>
     length (up_history_uuids p) = HISTORY_UUIDS"

definition dev_ok :: "uuid_dev \<Rightarrow> bool" where
  "dev_ok dev \<longleftrightarrow> md_ok (ud_md dev) \<and> ud_node_id dev = m_node_id (ud_md dev) \<and> list_all (peer_ok (ud_node_id dev)) (ud_peers dev)"

lemma node_max_simps [simp]: "BSR_NODE_ID_MAX = 32" "HISTORY_UUIDS = 32"
  by (simp_all add: BSR_NODE_ID_MAX_def HISTORY_UUIDS_def)

lemma dev_okD:
  assumes "dev_ok dev"
  shows "md_ok (ud_md dev)" "ud_node_id dev = m_node_id (ud_md dev)" "ud_node_id dev < 32"
    "length (m_slots (ud_md dev)) = 32" "length (m_history_uuids (ud_md dev)) = 32"
    "k < length (ud_peers dev) \<Longrightarrow> peer_ok (ud_node_id dev) (ud_peers dev ! k)"
  using assms by (auto simp: dev_ok_def md_ok_def history_ok_def list_all_length)

lemma dev_ok_own: "dev_ok dev \<Longrightarrow> m_node_id (ud_md dev) = ud_node_id dev"
  by (simp add: dev_ok_def)

lemma dev_ok_fields [simp]:
  "dev_ok (dev\<lparr>ud_md_dirty := a\<rparr>) = dev_ok dev" "dev_ok (dev\<lparr>ud_exposed_data_uuid := u\<rparr>) = dev_ok dev"
  "dev_ok (dev\<lparr>ud_role := r\<rparr>) = dev_ok dev" "dev_ok (bsr_md_mark_dirty dev) = dev_ok dev"
  by (simp_all add: dev_ok_def bsr_md_mark_dirty_def)

lemma upd_md_simps [simp]:
  "ud_md (upd_md f dev) = f (ud_md dev)" "ud_peers (upd_md f dev) = ud_peers dev" "ud_node_id (upd_md f dev) = ud_node_id dev"
  "ud_disk_state (upd_md f dev) = ud_disk_state dev" "ud_role (upd_md f dev) = ud_role dev"
  "ud_crashed_primary (upd_md f dev) = ud_crashed_primary dev" "ud_dagtag_sector (upd_md f dev) = ud_dagtag_sector dev"
  by (simp_all add: upd_md_def)

lemma upd_peer_simps [simp]:
  "ud_md (upd_peer k g dev) = ud_md dev" "ud_node_id (upd_peer k g dev) = ud_node_id dev"
  "length (ud_peers (upd_peer k g dev)) = length (ud_peers dev)" "ud_role (upd_peer k g dev) = ud_role dev"
  "ud_disk_state (upd_peer k g dev) = ud_disk_state dev" "ud_crashed_primary (upd_peer k g dev) = ud_crashed_primary dev"
  by (simp_all add: upd_peer_def)

lemma mark_dirty_simps [simp]:
  "ud_md (bsr_md_mark_dirty dev) = ud_md dev" "ud_peers (bsr_md_mark_dirty dev) = ud_peers dev"
  "ud_node_id (bsr_md_mark_dirty dev) = ud_node_id dev" "ud_role (bsr_md_mark_dirty dev) = ud_role dev"
  "ud_disk_state (bsr_md_mark_dirty dev) = ud_disk_state dev" "ud_dagtag_sector (bsr_md_mark_dirty dev) = ud_dagtag_sector dev"
  by (simp_all add: bsr_md_mark_dirty_def)

lemma upd_slot_simps [simp]:
  "m_node_id (upd_slot i f md) = m_node_id md" "m_history_uuids (upd_slot i f md) = m_history_uuids md"
  "m_current_uuid (upd_slot i f md) = m_current_uuid md" "length (m_slots (upd_slot i f md)) = length (m_slots md)"
  "m_flags (upd_slot i f md) = m_flags md"
  by (simp_all add: upd_slot_def)

lemma dev_ok_upd_md: "dev_ok dev \<Longrightarrow> md_ok (f (ud_md dev)) \<Longrightarrow> m_node_id (f (ud_md dev)) = m_node_id (ud_md dev) \<Longrightarrow> dev_ok (upd_md f dev)"
  by (auto simp: dev_ok_def)

lemma md_ok_upd_slot:
  assumes "md_ok md" and "i = m_node_id md \<Longrightarrow> sl_bitmap_uuid (f (m_slots md ! i)) = sl_bitmap_uuid (m_slots md ! i)"
  shows "md_ok (upd_slot i f md)"
  using assms by (cases "i = m_node_id md") (auto simp: md_ok_def upd_slot_def)

lemma md_ok_push: "md_ok md \<Longrightarrow> md_ok (snd (uuid_push_history val md))"
proof (cases "val = UUID_JUST_CREATED \<or> val AND NOT 1 \<in> set (m_history_uuids md)")
  case False
  assume ok: "md_ok md"
  let ?h = "m_history_uuids md"
  have "distinct (filter (\<lambda>u. u \<noteq> 0) (butlast ?h))"
    using ok by (cases ?h rule: rev_cases) (auto simp: md_ok_def history_ok_def)
  moreover have "val AND NOT 1 \<notin> set (butlast ?h)" using False by (auto dest: in_set_butlastD)
  moreover have "\<forall>u \<in> set (butlast ?h). \<not> bit u 0" using ok by (auto simp: md_ok_def history_ok_def dest: in_set_butlastD)
  ultimately have "history_ok ((val AND NOT 1) # butlast ?h)" using ok by (auto simp: md_ok_def history_ok_def bit_simps)
  then show ?thesis using False ok by (simp add: uuid_push_history_def md_ok_def Let_def)
qed (auto simp: uuid_push_history_def Let_def)

lemma push_history_simps [simp]:
  "m_node_id (snd (uuid_push_history val md)) = m_node_id md" "m_slots (snd (uuid_push_history val md)) = m_slots md"
  "m_current_uuid (snd (uuid_push_history val md)) = m_current_uuid md" "m_flags (snd (uuid_push_history val md)) = m_flags md"
  by (simp_all add: uuid_push_history_def Let_def)

lemma push_history_dev [simp]:
  "ud_peers (push_history val dev) = ud_peers dev" "ud_node_id (push_history val dev) = ud_node_id dev"
  "m_node_id (ud_md (push_history val dev)) = m_node_id (ud_md dev)" "m_slots (ud_md (push_history val dev)) = m_slots (ud_md dev)"
  "m_current_uuid (ud_md (push_history val dev)) = m_current_uuid (ud_md dev)" "ud_role (push_history val dev) = ud_role dev"
  "ud_disk_state (push_history val dev) = ud_disk_state dev" "ud_dagtag_sector (push_history val dev) = ud_dagtag_sector dev"
  by (simp_all add: push_history_def)

lemma dev_ok_push [intro]: "dev_ok dev \<Longrightarrow> dev_ok (push_history val dev)"
  unfolding push_history_def by (rule dev_ok_upd_md) (simp_all add: md_ok_push dev_okD)

lemma dev_ok_slot [intro]:
  assumes "dev_ok dev" and "i = ud_node_id dev \<Longrightarrow> sl_bitmap_uuid (f (m_slots (ud_md dev) ! i)) = sl_bitmap_uuid (m_slots (ud_md dev) ! i)"
  shows "dev_ok (upd_md (upd_slot i f) dev)"
  using assms by (intro dev_ok_upd_md md_ok_upd_slot) (auto simp: dev_okD)

lemma dev_ok_peer [intro]:
  assumes "dev_ok dev" and "k < length (ud_peers dev) \<Longrightarrow> peer_ok (ud_node_id dev) (g (ud_peers dev ! k))"
  shows "dev_ok (upd_peer k g dev)"
  using assms by (cases "k < length (ud_peers dev)") (auto simp: dev_ok_def upd_peer_def list_all_length nth_list_update)

lemma dev_ok_peers [intro]:
  "dev_ok dev \<Longrightarrow> list_all (\<lambda>p. peer_ok (ud_node_id dev) (g p)) (ud_peers dev) \<Longrightarrow> dev_ok (dev\<lparr>ud_peers := map g (ud_peers dev)\<rparr>)"
  by (simp add: dev_ok_def list.pred_map comp_def)

lemma dev_ok_set_current [intro]: "dev_ok dev \<Longrightarrow> dev_ok (snd (uuid_set_current0 val dev))"
  by (auto simp: uuid_set_current0_def Let_def dev_ok_def md_ok_def)

lemma dev_ok_set_bitmap0 [intro]: "dev_ok dev \<Longrightarrow> node \<noteq> ud_node_id dev \<or> val = 0 \<Longrightarrow> dev_ok (uuid_set_bitmap0 node val dev)"
  unfolding uuid_set_bitmap0_def by (rule dev_ok_slot) (auto simp: dev_ok_def md_ok_def)

lemma set_bitmap0_simps [simp]:
  "ud_peers (uuid_set_bitmap0 node val dev) = ud_peers dev" "ud_node_id (uuid_set_bitmap0 node val dev) = ud_node_id dev"
  "m_node_id (ud_md (uuid_set_bitmap0 node val dev)) = m_node_id (ud_md dev)"
  by (simp_all add: uuid_set_bitmap0_def)

lemma dev_ok_set_bitmap [intro]: "dev_ok dev \<Longrightarrow> node \<noteq> ud_node_id dev \<or> val = 0 \<Longrightarrow> dev_ok (bsr_uuid_set_bitmap node val dev)"
  by (auto simp: bsr_uuid_set_bitmap_def Let_def)

lemma set_current_simps [simp]:
  "ud_peers (snd (uuid_set_current0 val dev)) = ud_peers dev" "ud_node_id (snd (uuid_set_current0 val dev)) = ud_node_id dev"
  by (simp_all add: uuid_set_current0_def Let_def)

text \<open>A fold over the nodes keeps what each of its steps keeps.\<close>

lemma fold_keeps: "P st \<Longrightarrow> (\<And>i st. i \<in> set is \<Longrightarrow> P st \<Longrightarrow> P (f i st)) \<Longrightarrow> P (fold f is st)"
  by (rule fold_invariant [where Q = "\<lambda>i. i \<in> set is"]) simp_all

definition same_peers :: "uuid_dev \<Rightarrow> uuid_dev \<Rightarrow> bool" where
  "same_peers dev dev' \<longleftrightarrow> dev_ok dev' \<and> ud_peers dev' = ud_peers dev \<and> ud_node_id dev' = ud_node_id dev"

lemma rotate_keeps:
  assumes "dev_ok dev"
  shows "same_peers dev (snd (rotate_current_into_bitmap weak dagtag dev))"
  unfolding rotate_current_into_bitmap_def
proof (rule fold_keeps [where P = "\<lambda>st. same_peers dev (snd st)"])
  show "same_peers dev (snd (rotate_node weak dagtag i st))" if "same_peers dev (snd st)" for i st
    using that by (auto simp: same_peers_def rotate_node_def rotate_wanted_def Let_def dev_ok_own split: prod.splits
        intro!: dev_ok_slot)
qed (use assms in \<open>simp add: same_peers_def\<close>)

lemma dev_ok_new_current_sends: "dev_ok dev \<Longrightarrow> dev_ok (snd (new_current_sends forced younger weak dev))"
  unfolding new_current_sends_def snd_conv
  by (rule dev_ok_peers) (auto simp: new_current_send_def dev_ok_def list_all_iff peer_ok_def)

lemma dev_ok_new_current0: "dev_ok dev \<Longrightarrow> dev_ok (snd (uuid_new_current0 forced send younger val dev))"
  using rotate_keeps [of dev "if forced then initial_resync_nodes dev else 0" "ud_dagtag_sector dev"]
  by (auto simp: uuid_new_current0_def Let_def same_peers_def split: prod.splits intro!: dev_ok_new_current_sends)

lemma dev_ok_new_current [intro]: "dev_ok dev \<Longrightarrow> dev_ok (snd (bsr_uuid_new_current forced younger val dev))"
proof -
  assume ok: "dev_ok dev"
  have "dev_ok (snd (uuid_new_current_diskless val dev))"
    using dev_ok_peers [OF ok, of "\<lambda>p. p\<lparr>up_current_uuid := val AND NOT UUID_PRIMARY\<rparr>"] ok
    by (auto simp: uuid_new_current_diskless_def Let_def dev_ok_def list_all_iff peer_ok_def)
  then show ?thesis using ok dev_ok_new_current0 by (simp add: bsr_uuid_new_current_def)
qed

lemma dev_ok_received_new_current [intro]:
  assumes ok: "dev_ok dev"
  shows "dev_ok (snd (bsr_uuid_received_new_current k val weak dagtag dev))"
proof -
  let ?d = "dev\<lparr>ud_peers := map (\<lambda>p. if keeps_current weak dev p then p\<lparr>up_current_uuid := val\<rparr> else p) (ud_peers dev)\<rparr>"
  have "dev_ok ?d" using ok by (intro dev_ok_peers) (auto simp: dev_ok_def list_all_iff peer_ok_def)
  then show ?thesis
    using rotate_keeps [of ?d weak dagtag]
    by (auto simp: bsr_uuid_received_new_current_def Let_def same_peers_def split: prod.splits)
qed

lemma set_slots_keep:
  assumes "dev_ok dev"
  shows "same_peers dev (snd (snd (set_bitmap_slots peer nodes olds dev)))"
  unfolding set_bitmap_slots_def
proof (rule fold_keeps [where P = "\<lambda>st. same_peers dev (snd (snd st))"])
  show "same_peers dev (snd (snd (set_slot peer nodes i st)))" if "same_peers dev (snd (snd st))" for i st
    using that by (auto simp: same_peers_def set_slot_def Let_def dev_ok_own split: prod.splits intro!: dev_ok_set_bitmap0 dev_ok_push)
qed (use assms in \<open>simp add: same_peers_def\<close>)

text \<open>The end of a resync, as the device after the slots, the history and the current UUID have been updated.\<close>

lemma resync_finished_parts:
  assumes ok: "dev_ok dev" and f: "bsr_uuid_resync_finished k olds dev = (newer, olds', removed, before, dev')"
  obtains d where "same_peers dev d" and "before = bsr_current_uuid d" and "removed = fst (uuid_push_history before (ud_md d))"
    and "dev' = snd (uuid_set_current0 (up_current_uuid (ud_peers dev ! k)) (push_history before d))"
proof -
  let ?p = "ud_peers dev ! k"
  let ?s = "test_bitmap_slots_of_peer ?p dev"
  obtain n1 o1 d1 where s1: "set_bitmap_slots (Some ?p) ?s olds dev = (n1, o1, d1)" by (metis prod_cases3)
  obtain n2 o2 d2 where s2: "set_bitmap_slots None (NOT ?s) o1 d1 = (n2, o2, d2)" by (metis prod_cases3)
  have "same_peers dev d1" using set_slots_keep [OF ok, of "Some ?p" ?s olds] s1 by simp
  then have d2: "same_peers dev d2" using set_slots_keep [of d1 None "NOT ?s" o1] s2 by (simp add: same_peers_def)
  obtain r md where u: "uuid_push_history (bsr_current_uuid d2) (ud_md d2) = (r, md)" by (metis prod.exhaust)
  then have "md = snd (uuid_push_history (bsr_current_uuid d2) (ud_md d2))" by simp
  then have "m_current_uuid md = bsr_current_uuid d2" by (simp add: bsr_current_uuid_def)
  then have "before = bsr_current_uuid d2" "removed = fst (uuid_push_history before (ud_md d2))"
    "dev' = snd (uuid_set_current0 (up_current_uuid ?p) (push_history before d2))"
    using f u by (auto simp: bsr_uuid_resync_finished_def Let_def s1 s2 uuid_set_current0_def push_history_def upd_md_def
        bsr_current_uuid_def bsr_md_mark_dirty_def)
  then show ?thesis using d2 that by blast
qed

lemma dev_ok_resync_finished: "dev_ok dev \<Longrightarrow> bsr_uuid_resync_finished k olds dev = (newer, olds', removed, before, dev') \<Longrightarrow> dev_ok dev'"
  by (erule (1) resync_finished_parts) (auto simp: same_peers_def)

lemma push_pull:
  assumes "md_ok md" and "uuid_push_history val md = (removed, md')" and "history = (case removed of Some h \<Rightarrow> h | None \<Rightarrow> 0)"
  shows "history_ok (tl (m_history_uuids md') @ [history])"
proof (cases removed)
  case None
  then have "md' = md" using assms(2) by (auto simp: uuid_push_history_def Let_def split: if_splits)
  then show ?thesis using assms None by (cases "m_history_uuids md") (auto simp: md_ok_def history_ok_def split: if_splits)
next
  case (Some h)
  then have "m_history_uuids md' = (val AND NOT 1) # butlast (m_history_uuids md)" "h = last (m_history_uuids md)"
    using assms(2) by (auto simp: uuid_push_history_def Let_def split: if_splits)
  moreover have "m_history_uuids md \<noteq> []" using assms(1) by (auto simp: md_ok_def history_ok_def)
  ultimately show ?thesis using assms(1,3) Some by (simp add: md_ok_def)
qed

lemma rollback_slots_keep:
  assumes "dev_ok dev"
  shows "same_peers dev (snd (rollback_bitmap_slots olds nodes dev))"
  unfolding rollback_bitmap_slots_def
proof (rule fold_keeps [where P = "\<lambda>st. same_peers dev (snd st)"])
  show "same_peers dev (snd (rollback_slot olds nodes i st))" if "same_peers dev (snd st)" for i st
    using that by (auto simp: same_peers_def rollback_slot_def Let_def dev_ok_own split: prod.splits intro!: dev_ok_slot)
qed (use assms in \<open>simp add: same_peers_def\<close>)

lemma dev_ok_rollback:
  assumes ok: "dev_ok dev" and f: "bsr_uuid_resync_finished k olds dev = (newer, olds', removed, before, dev')"
    and h: "history = (case removed of Some h \<Rightarrow> h | None \<Rightarrow> 0)"
  shows "dev_ok (snd (bsr_uuid_resync_finished_rollback newer before os history dev'))"
proof -
  obtain d where d: "same_peers dev d" "removed = fst (uuid_push_history before (ud_md d))"
    "dev' = snd (uuid_set_current0 (up_current_uuid (ud_peers dev ! k)) (push_history before d))"
    using resync_finished_parts [OF ok f] by metis
  let ?md = "snd (uuid_push_history before (ud_md d))"
  have "history_ok (tl (m_history_uuids ?md) @ [history])"
    using push_pull [of "ud_md d" before removed ?md] d h by (simp add: same_peers_def dev_okD(1))
  moreover have "m_history_uuids (ud_md dev') = m_history_uuids ?md"
    by (simp add: d(3) uuid_set_current0_def Let_def push_history_def)
  moreover have "dev_ok dev'" using dev_ok_resync_finished [OF ok f] .
  ultimately have "dev_ok (upd_md (\<lambda>md. snd (uuid_pull_history (Some history) md)) dev')"
    by (intro dev_ok_upd_md) (auto simp: uuid_pull_history_def Let_def md_ok_def dev_ok_def)
  note this [THEN rollback_slots_keep, of os newer]
  then show ?thesis
    by (auto simp: bsr_uuid_resync_finished_rollback_def Let_def same_peers_def dev_ok_def md_ok_def split: prod.splits)
qed

end
