(* ===== verification/Uuid_Reach.thy ===== *)
theory Uuid_Reach
  imports Uuid_Lemmas
begin

text \<open>
  All operations on the UUIDs of a device as the steps of a relation, and that every device reached by
  them is of the right type.
\<close>

section \<open>The operations keep the type\<close>

lemma dev_ok_slot0 [intro]: "dev_ok dev \<Longrightarrow> dev_ok (upd_md (upd_slot i (\<lambda>s. s\<lparr>sl_bitmap_uuid := 0\<rparr>)) dev)"
  by (rule dev_ok_slot) (auto simp: dev_ok_def md_ok_def)

lemma dev_ok_weight [intro]: "dev_ok dev \<Longrightarrow> dev_ok (upd_md (upd_slot i (\<lambda>s. s\<lparr>sl_weight := w\<rparr>)) dev)"
  by (rule dev_ok_slot) auto

lemma dev_ok_flags [intro]: "dev_ok dev \<Longrightarrow> dev_ok (upd_md (upd_slot i (\<lambda>s. s\<lparr>sl_flags := f (sl_flags s)\<rparr>)) dev)"
  by (rule dev_ok_slot) auto

lemma pull_history_ok: "dev_ok dev \<Longrightarrow> dev_ok (dev\<lparr>ud_md := snd (uuid_pull_history None (ud_md dev))\<rparr>)"
  by (cases "m_history_uuids (ud_md dev)")
    (auto simp: dev_ok_def md_ok_def history_ok_def uuid_pull_history_def Let_def split: if_splits)

lemma dev_ok_peer_keeps: "dev_ok dev \<Longrightarrow> (\<And>p. peer_ok (ud_node_id dev) p \<Longrightarrow> peer_ok (ud_node_id dev) (g p)) \<Longrightarrow> dev_ok (upd_peer k g dev)"
  by (rule dev_ok_peer) (auto dest: dev_okD(6))

lemmas dev_ok_intros = dev_ok_slot0 dev_ok_weight dev_ok_flags dev_ok_push dev_ok_set_bitmap dev_ok_peer_keeps

lemma bitmap_uuid0_keeps: "dev_ok dev \<Longrightarrow> same_peers dev (snd (bitmap_uuid0 i dev))"
  by (auto simp: same_peers_def bitmap_uuid0_def Let_def split: option.splits)

lemma bitmap_uuids_of_keeps: "dev_ok dev \<Longrightarrow> same_peers dev (snd (bitmap_uuids_of is dev))"
proof (induction "is" arbitrary: dev)
  case (Cons i "is")
  show ?case
    using bitmap_uuid0_keeps [OF Cons.prems, of i] Cons.IH [of "snd (bitmap_uuid0 i dev)"]
    by (auto simp: same_peers_def Let_def split: prod.splits)
qed (simp add: same_peers_def)

lemma dev_ok_send: "dev_ok dev \<Longrightarrow> dev_ok (snd (send_uuids110 env k flags nodes dev))"
  using bitmap_uuids_of_keeps [of dev "nodes_of_mask (bitmap_uuids_mask dev)"]
  by (auto simp: send_uuids110_def Let_def same_peers_def peer_ok_def split: prod.splits intro!: dev_ok_peer_keeps)

lemma dev_ok_update_slot_of_peer: "dev_ok dev \<Longrightarrow> dev_ok (update_bitmap_slot_of_peer k node uuid dev)"
proof -
  assume ok: "dev_ok dev"
  have *: "dev_ok (upd_peer k (\<lambda>q. q\<lparr>up_bitmap_uuids := (up_bitmap_uuids q)[n := v]\<rparr>) dev)" if "dev_ok dev" for k n v dev
    using that by (auto simp: peer_ok_def intro!: dev_ok_peer_keeps)
  show ?thesis using ok by (auto simp: update_bitmap_slot_of_peer_def Let_def * split: option.splits)
qed

lemma dev_ok_receive_bitmap_uuids: "dev_ok dev \<Longrightarrow> dev_ok (receive_bitmap_uuids k nodes is us dev)"
  by (induction k nodes "is" us dev rule: receive_bitmap_uuids.induct) (auto simp: dev_ok_update_slot_of_peer dev_ok_flags Let_def)

lemma dev_ok_receive: "dev_ok dev \<Longrightarrow> dev_ok (snd (receive_uuids110_data recv_ok k pk dev))"
proof -
  assume ok: "dev_ok dev"
  then have f: "dev_ok (upd_peer k (uuids110_fields pk) dev)"
    by (auto simp: peer_ok_def uuids110_fields_def intro!: dev_ok_peer_keeps)
  have h: "dev_ok (upd_peer k (\<lambda>p. p\<lparr>up_history_uuids := us, up_uuids_received := True\<rparr>) dev)"
    if "dev_ok dev" "length us = 32" for us dev
    using that by (auto simp: peer_ok_def intro!: dev_ok_peer_keeps)
  show ?thesis using f by (auto simp: receive_uuids110_data_def Let_def intro!: h dev_ok_receive_bitmap_uuids)
qed

lemma dev_ok_forget [intro]: "dev_ok dev \<Longrightarrow> dev_ok (forget_bitmap i dev)"
  by (auto simp: forget_bitmap_def)

lemma dev_ok_detect_node: "dev_ok (snd st) \<Longrightarrow> dev_ok (snd (detect_node p i st))"
  by (auto simp: detect_node_def forget_other_def Let_def split: prod.splits option.splits intro!: dev_ok_intros dev_ok_forget)

lemma dev_ok_clear_own [intro]: "dev_ok dev \<Longrightarrow> dev_ok (clear_own_bitmap p dev)"
  by (auto simp: clear_own_bitmap_def Let_def)

lemma dev_ok_detect: "dev_ok dev \<Longrightarrow> dev_ok (snd (bsr_uuid_detect_finished_resyncs c k dev))"
  using fold_keeps [of "\<lambda>st. dev_ok (snd st)" "(False, dev)" "[0..<BSR_NODE_ID_MAX]" "detect_node (ud_peers dev ! k)"] dev_ok_detect_node
  by (auto simp: bsr_uuid_detect_finished_resyncs_def Let_def split: prod.splits intro!: dev_ok_clear_own)

lemma dev_ok_fixup_end: "dev_ok dev \<Longrightarrow> dev_ok (snd (snd (uuid_fixup_resync_end k n dev)))"
  by (auto simp: uuid_fixup_resync_end_def fixup_source_def fixup_target_def Let_def peer_ok_def intro!: dev_ok_intros)

lemma dev_ok_fixup_start1: "dev_ok dev \<Longrightarrow> dev_ok (snd (snd (uuid_fixup_resync_start1 k n dev)))"
  by (auto simp: uuid_fixup_resync_start1_def Let_def peer_ok_def intro!: dev_ok_intros)

lemma dev_ok_fixup_start2: "dev_ok dev \<Longrightarrow> k < length (ud_peers dev) \<Longrightarrow> dev_ok (snd (snd (uuid_fixup_resync_start2 k n dev)))"
  using pull_history_ok [of dev] dev_okD(6) [of dev k]
  by (auto simp: uuid_fixup_resync_start2_def Let_def peer_ok_def split: prod.splits)

lemma fixup_peers:
  "length (ud_peers (snd (snd (uuid_fixup_resync_start1 k n dev)))) = length (ud_peers dev)"
  by (auto simp: uuid_fixup_resync_start1_def Let_def)

lemma dev_ok_compare: 
  assumes "dev_ok dev" "k < length (ud_peers dev)"
  shows "dev_ok (snd (snd (snd (bsr_uuid_compare k dev))))"
proof -
  have newer: "dev_ok (snd (snd (snd (compare_newer k d))))" if "dev_ok d" "k < length (ud_peers d)" for d
    using that dev_ok_fixup_start2 [OF that, of 72] by (auto simp: compare_newer_def Let_def split: prod.splits option.splits)
  have "dev_ok (snd (snd (snd (compare_older k dev))))"
    using assms dev_ok_fixup_start1 [of dev k 52] fixup_peers [of k 52 dev] newer
    by (simp add: compare_older_def Let_def case_prod_unfold split: option.split)
  then show ?thesis
    using assms dev_ok_fixup_end [of dev k 30] by (simp add: bsr_uuid_compare_def Let_def case_prod_unfold)
qed

lemma dev_ok_asb: "dev_ok dev \<Longrightarrow> dev_ok (snd (asb_recover_1p env p dev))" "dev_ok dev \<Longrightarrow> dev_ok (snd (asb_recover_2p env p dev))"
  by (cases "after_sb_1p env"; simp add: asb_recover_1p_def demote_or_refuse_def Let_def)
    (cases "after_sb_2p env"; simp add: asb_recover_2p_def demote_or_refuse_def Let_def)

lemma dev_ok_recover: "dev_ok dev \<Longrightarrow> dev_ok (snd (auto_recover env prole p dev hg))"
  using dev_ok_asb [of dev env p] by (auto simp: auto_recover_def Let_def split: prod.splits)

lemma dev_ok_various: "dev_ok dev \<Longrightarrow> dev_ok (snd (various_states_to_goodness env pd prole p dev hg))"
  by (auto simp: various_states_to_goodness_def Let_def)

lemma dev_ok_mod_bitmap: "dev_ok dev \<Longrightarrow> dev_ok (snd (bitmap_mod_after_handshake env p hg dev))"
  by (auto simp: bitmap_mod_after_handshake_def intro!: dev_ok_intros)

lemma dev_ok_clear_bitmap: "dev_ok dev \<Longrightarrow> dev_ok (clear_bitmap p dev)" "dev_ok dev \<Longrightarrow> dev_ok (clear_in_progress p dev)"
  by (auto simp: clear_bitmap_def clear_in_progress_def intro!: dev_ok_intros)

lemma dev_ok_goodness: "dev_ok dev \<Longrightarrow> dev_ok (snd (goodness_to_repl_state p prole hg dev))"
proof -
  assume ok: "dev_ok dev"
  then have "dev_ok (snd (no_resync_state p dev))" by (simp add: no_resync_state_def dev_ok_clear_bitmap)
  then show ?thesis using ok by (auto simp: goodness_to_repl_state_def Let_def dev_ok_clear_bitmap split: prod.splits)
qed

lemma dev_ok_decided: "dev_ok dev \<Longrightarrow> dev_ok (snd (snd (handshake_decided env prole k dev hg)))"
proof (cases "discard_my_data (ud_peers dev ! k) dev hg")
  case (Some r)
  assume ok: "dev_ok dev"
  obtain hg' new_cur f where r: "r = (hg', new_cur, f)" by (metis prod_cases3)
  let ?d = "upd_peer k (\<lambda>p. p\<lparr>up_discard_my_data := f\<rparr>) dev"
  have d: "dev_ok ?d" using ok by (auto simp: peer_ok_def intro!: dev_ok_intros)
  obtain failed d' where m: "bitmap_mod_after_handshake env (ud_peers ?d ! k) hg' ?d = (failed, d')" by (metis prod.exhaust)
  then have "dev_ok d'" using dev_ok_mod_bitmap [OF d, of env "ud_peers ?d ! k" hg'] by simp
  then show ?thesis
    using d dev_ok_goodness [of d' "ud_peers ?d ! k" prole hg'] by (simp add: handshake_decided_def Some r m Let_def case_prod_unfold)
qed (simp add: handshake_decided_def)

lemma dev_ok_handshake:
  assumes "dev_ok dev" and "k < length (ud_peers dev)"
  shows "dev_ok (snd (snd (bsr_sync_handshake env prole pd k dev)))"
  using dev_ok_compare [OF assms]
  by (simp add: bsr_sync_handshake_def Let_def case_prod_unfold dev_ok_decided dev_ok_recover dev_ok_various)

lemma dev_ok_attach:
  assumes "dev_ok dev" and "k < length (ud_peers dev)"
  shows "dev_ok (snd (bsr_attach_handshake env pd k dev))"
  using dev_ok_compare [OF assms]
  by (simp add: bsr_attach_handshake_def Let_def case_prod_unfold dev_ok_mod_bitmap dev_ok_goodness)

section \<open>The steps\<close>

text \<open>
  A rollback follows the end of the resync that it takes back, with the values that this saved (\<^verbatim>\<open>bsr_resync_finished\<close>
  of \<^verbatim>\<open>bsr/bsr_sender.c\<close>).
\<close>

inductive uuid_step :: "uuid_dev \<Rightarrow> uuid_dev \<Rightarrow> bool" where
  New_current: "uuid_step dev (snd (bsr_uuid_new_current forced younger val dev))"
| New_current_by_user: "uuid_step dev (snd (bsr_uuid_new_current_by_user val dev))"
| Received_new_current: "uuid_step dev (snd (bsr_uuid_received_new_current k val weak dagtag dev))"
| Set_bitmap: "k < length (ud_peers dev) \<Longrightarrow> uuid_step dev (bsr_uuid_set_bitmap (up_node_id (ud_peers dev ! k)) val dev)"
| Resync_finished: "bsr_uuid_resync_finished k olds dev = (newer, olds', removed, before, dev') \<Longrightarrow> uuid_step dev dev'"
| Resync_rolled_back:
    "bsr_uuid_resync_finished k (Some olds) dev = (newer, Some olds', removed, before, dev') \<Longrightarrow>
     uuid_step dev (snd (bsr_uuid_resync_finished_rollback newer before olds' (case removed of Some h \<Rightarrow> h | None \<Rightarrow> 0) dev'))"
| Send_uuids: "uuid_step dev (snd (send_uuids110 env k flags nodes dev))"
| Receive_uuids: "uuid_step dev (snd (receive_uuids110_data recv_ok k pk dev))"
| Detect_finished: "uuid_step dev (snd (bsr_uuid_detect_finished_resyncs c k dev))"
| Sync_handshake: "k < length (ud_peers dev) \<Longrightarrow> uuid_step dev (snd (snd (bsr_sync_handshake henv prole pd k dev)))"
| Attach_handshake: "k < length (ud_peers dev) \<Longrightarrow> uuid_step dev (snd (bsr_attach_handshake henv pd k dev))"

lemma uuid_step_keeps: "uuid_step dev dev' \<Longrightarrow> dev_ok dev \<Longrightarrow> dev_ok dev'"
proof (induction rule: uuid_step.induct)
  case (New_current_by_user dev val)
  then show ?case by (simp add: bsr_uuid_new_current_by_user_def dev_ok_new_current0)
next
  case (Set_bitmap k dev val)
  then show ?case using dev_okD(6) [of dev k] by (intro dev_ok_set_bitmap) (simp_all add: peer_ok_def)
qed (auto simp: dev_ok_resync_finished dev_ok_rollback dev_ok_send dev_ok_receive dev_ok_detect dev_ok_handshake dev_ok_attach)

text \<open>
  Cu1: Whatever the sequence of operations on the UUIDs of a device, of packets received and of handshakes, the
  history keeps its length, holds no UUID twice and no primary bit, there is a slot for each node, the slot of
  the node itself stays empty, and what is known of each peer has its fixed size.
\<close>

theorem uuid_reach_typed:
  assumes "uuid_step\<^sup>*\<^sup>* dev dev'" and "dev_ok dev"
  shows "dev_ok dev'"
  using assms by (induction rule: rtranclp_induct) (auto intro: uuid_step_keeps)

definition ex_slot :: md_slot where
  "ex_slot = \<lparr>sl_bitmap_uuid = 0, sl_bitmap_dagtag = 0, sl_flags = 0, sl_bitmap_index = -1, sl_weight = 0\<rparr>"

definition ex_peer :: "nat \<Rightarrow> uuid_peer" where
  "ex_peer n = \<lparr>up_node_id = n, up_current_uuid = 0, up_bitmap_uuids = replicate 32 0, up_history_uuids = replicate 32 0,
     up_dirty_bits = 0, up_uuid_flags = 0, up_authoritative_nodes = 0, up_uuids_received = False, up_comm_bm_set = 0,
     up_disk_state = D_UNKNOWN, up_repl_state = L_OFF, up_cstate = Two C_CONNECTING C_CONNECTING, up_peer_role = R_SECONDARY,
     up_agreed_pro_version = 114, up_rs_total = 0, up_discard_my_data = False, up_uuid_delay_send = False,
     up_reconnect = False, up_resolve_conflicts = (n = 0)\<rparr>"

text \<open>A node of a cluster of two: its own number, that of the other one, and its current UUID.\<close>

definition ex_dev :: "nat \<Rightarrow> nat \<Rightarrow> u64 \<Rightarrow> uuid_dev" where
  "ex_dev me other cur = \<lparr>ud_node_id = me, ud_role = R_SECONDARY, ud_disk_state = D_UP_TO_DATE,
     ud_md = \<lparr>m_current_uuid = cur, m_history_uuids = replicate 32 0,
       m_slots = (replicate 32 ex_slot)[other := ex_slot\<lparr>sl_bitmap_index := 0\<rparr>], m_node_id = me, m_flags = 1\<rparr>,
     ud_exposed_data_uuid = cur, ud_dagtag_sector = 0, ud_crashed_primary = False, ud_md_dirty = False,
     ud_peers = [ex_peer other]\<rparr>"

lemma ex_dev_ok: "me < 32 \<Longrightarrow> other < 32 \<Longrightarrow> me \<noteq> other \<Longrightarrow> dev_ok (ex_dev me other cur)"
  by (simp add: dev_ok_def md_ok_def history_ok_def peer_ok_def ex_dev_def ex_peer_def ex_slot_def)

theorem uuid_reach_typed_witness:
  "dev_ok (ex_dev 0 1 0x1230) \<and>
   dev_ok (snd (bsr_uuid_new_current False False 0x4560 (bsr_uuid_set_bitmap 1 0x7890 (ex_dev 0 1 0x1230))))"
proof -
  let ?d = "ex_dev 0 1 0x1230"
  have "uuid_step ?d (bsr_uuid_set_bitmap 1 0x7890 ?d)"
    using Set_bitmap [of 0 ?d "0x7890"] by (simp add: ex_dev_def ex_peer_def)
  then have "uuid_step\<^sup>*\<^sup>* ?d (snd (bsr_uuid_new_current False False 0x4560 (bsr_uuid_set_bitmap 1 0x7890 ?d)))"
    using New_current by (rule converse_rtranclp_into_rtranclp [OF _ r_into_rtranclp])
  then show ?thesis using uuid_reach_typed ex_dev_ok [of 0 1 "0x1230"] by simp
qed

end
