(* ===== verification/Uuid_Told.thy ===== *)
theory Uuid_Told
  imports Uuid_Reach
begin
unbundle bit_operations_syntax

text \<open>
  What a node knows of the UUIDs of a peer after it received them: the round trip of the UUID packet.
\<close>

lemma nth_upd: "i < length xs \<Longrightarrow> xs[j := v] ! i = (if j = i then v else xs ! i)"
  by (simp add: nth_list_update)

section \<open>What a peer is told\<close>

text \<open>The value that stands for a slot in the packet.\<close>

definition tells :: "md_slot \<Rightarrow> u64 \<Rightarrow> bool" where
  "tells s u \<longleftrightarrow> u = (if node_exists s then sl_bitmap_uuid s else 0) \<or> node_exists s \<and> sl_bitmap_uuid s = 0 \<and> u = -1"

definition flags_told :: "uuid_dev \<Rightarrow> uuid_peer \<Rightarrow> u64 \<Rightarrow> bool" where
  "flags_told d q flags \<longleftrightarrow>
     bit flags UUID_FLAG_CRASHED_PRIMARY =
       (ud_crashed_primary d \<and> md_test_peer_flag q MDF_CRASHED_PRIMARY_WORK_PENDING d \<and> \<not> is_sync_source q) \<and>
     bit flags UUID_FLAG_RECONNECT = up_reconnect q \<and> bit flags UUID_FLAG_DISCARD_MY_DATA = up_discard_my_data q \<and>
     bit flags UUID_FLAG_PRIMARY_IO_ERROR = md_test_peer_flag q MDF_PEER_PRIMARY_IO_ERROR d"

text \<open>\<open>p\<close> is the peer device that stands for \<open>d\<close> on the other node, \<open>q\<close> the one that stands for the other node on \<open>d\<close>.\<close>

definition told :: "uuid_dev \<Rightarrow> uuid_peer \<Rightarrow> uuid_peer \<Rightarrow> bool" where
  "told d q p \<longleftrightarrow>
     up_current_uuid p = bsr_current_uuid d \<and> up_history_uuids p = m_history_uuids (ud_md d) \<and>
     (\<forall>i < BSR_NODE_ID_MAX. tells (m_slots (ud_md d) ! i) (up_bitmap_uuids p ! i)) \<and>
     unat (up_dirty_bits p) = bm_total_weight q d \<and> up_comm_bm_set q = bm_total_weight q d \<and>
     flags_told d q (up_uuid_flags p)"

section \<open>The sender\<close>

text \<open>Marking a slot with \<^verbatim>\<open>MDF_PEER_DIFF_CUR_UUID\<close> changes nothing that the peer is told.\<close>

definition same_slots :: "uuid_dev \<Rightarrow> uuid_dev \<Rightarrow> bool" where
  "same_slots d d' \<longleftrightarrow> ud_peers d' = ud_peers d \<and> ud_crashed_primary d' = ud_crashed_primary d \<and>
     m_current_uuid (ud_md d') = m_current_uuid (ud_md d) \<and> m_history_uuids (ud_md d') = m_history_uuids (ud_md d) \<and>
     length (m_slots (ud_md d')) = length (m_slots (ud_md d)) \<and>
     (\<forall>i < length (m_slots (ud_md d)). sl_bitmap_uuid (m_slots (ud_md d') ! i) = sl_bitmap_uuid (m_slots (ud_md d) ! i) \<and>
        node_exists (m_slots (ud_md d') ! i) = node_exists (m_slots (ud_md d) ! i) \<and>
        sl_weight (m_slots (ud_md d') ! i) = sl_weight (m_slots (ud_md d) ! i))"

lemma node_exists_diff [simp]: "node_exists (s\<lparr>sl_flags := set_bit MDF_PEER_DIFF_CUR_UUID (sl_flags s)\<rparr>) = node_exists s"
  by (simp add: node_exists_def MDF_PEER_DIFF_CUR_UUID_def MDF_NODE_EXISTS_def bit_set_bit_iff)

lemma bitmap_uuid0_same: "same_slots d (snd (bitmap_uuid0 i d))"
  by (auto simp: same_slots_def bitmap_uuid0_def upd_slot_def Let_def nth_upd split: option.splits)

lemma same_slots_trans: "same_slots a b \<Longrightarrow> same_slots b c \<Longrightarrow> same_slots a c"
  by (simp add: same_slots_def)

lemma peer_dev_same: "ud_peers d' = ud_peers d \<Longrightarrow> peer_dev_by_node_id d' = peer_dev_by_node_id d"
  by (simp add: peer_dev_by_node_id_def fun_eq_iff)

lemma bitmap_uuid0_fst: "same_slots d d' \<Longrightarrow> i < length (m_slots (ud_md d)) \<Longrightarrow> fst (bitmap_uuid0 i d') = fst (bitmap_uuid0 i d)"
  by (simp add: bitmap_uuid0_def same_slots_def peer_dev_same [of d' d] bsr_current_uuid_def Let_def split: option.splits)

lemma bitmap_uuids_of_same:
  "\<forall>i \<in> set is. i < length (m_slots (ud_md d)) \<Longrightarrow> same_slots d (snd (bitmap_uuids_of is d)) \<and>
     fst (bitmap_uuids_of is d) = map (\<lambda>i. cpu_to_be64 (fst (bitmap_uuid0 i d))) is"
proof (induction "is" arbitrary: d)
  case (Cons i "is")
  let ?d = "snd (bitmap_uuid0 i d)"
  have s: "same_slots d ?d" by (rule bitmap_uuid0_same)
  then have l: "length (m_slots (ud_md ?d)) = length (m_slots (ud_md d))" by (simp add: same_slots_def)
  have "\<forall>j \<in> set is. fst (bitmap_uuid0 j ?d) = fst (bitmap_uuid0 j d)" using Cons.prems bitmap_uuid0_fst [OF s] by simp
  then show ?case
    using Cons.IH [of ?d] Cons.prems l same_slots_trans [OF s] by (auto simp: Let_def case_prod_unfold)
qed (simp add: same_slots_def)

lemma bitmap_uuid0_tells: "node_exists (m_slots (ud_md d) ! i) \<Longrightarrow> tells (m_slots (ud_md d) ! i) (fst (bitmap_uuid0 i d))"
  by (simp add: tells_def bitmap_uuid0_def Let_def split: option.splits)

lemma bit_bitmap_uuids_mask: "bit (bitmap_uuids_mask d) i \<longleftrightarrow> i < 32 \<and> node_exists (m_slots (ud_md d) ! i)"
proof -
  have "bit (fold (\<lambda>i m. if E i then m OR NODE_MASK i else m) [0..<n] m) j \<longleftrightarrow> bit m j \<or> j < n \<and> E j"
    if "n \<le> 64" for n :: nat and m :: u64 and j E
    using that by (induction n) (auto simp: bit_or_iff less_Suc_eq)
  from this [of 32 "\<lambda>i. node_exists (m_slots (ud_md d) ! i)" 0 i] show ?thesis by (simp add: bitmap_uuids_mask_def)
qed

lemma bit_flag_if: "n < 64 \<Longrightarrow> bit (flag_if c n flags) m \<longleftrightarrow> bit flags m \<or> c \<and> m = n"
  by (auto simp: flag_if_def bit_set_bit_iff)

lemma flags_of_told:
  assumes "\<not> bit flags UUID_FLAG_CRASHED_PRIMARY" "\<not> bit flags UUID_FLAG_RECONNECT" "\<not> bit flags UUID_FLAG_DISCARD_MY_DATA"
    "\<not> bit flags UUID_FLAG_PRIMARY_IO_ERROR"
  shows "flags_told d q (uuid_flags_of env flags q d)"
  using assms by (simp add: flags_told_def uuid_flags_of_def bit_flag_if uuid_flag_defs)

section \<open>The receiver\<close>

lemma update_slot_peer:
  assumes "k < length (ud_peers d)"
  shows "ud_peers (update_bitmap_slot_of_peer k i u d) ! k =
    (ud_peers d ! k)\<lparr>up_bitmap_uuids := (up_bitmap_uuids (ud_peers d ! k))[i := u]\<rparr>"
    "length (ud_peers (update_bitmap_slot_of_peer k i u d)) = length (ud_peers d)"
proof -
  have "up_node_id (ud_peers d ! k2) = i" if "peer_dev_by_node_id d i = Some k2" for k2
    using that by (auto simp: peer_dev_by_node_id_def find_Some_iff)
  then show "ud_peers (update_bitmap_slot_of_peer k i u d) ! k =
    (ud_peers d ! k)\<lparr>up_bitmap_uuids := (up_bitmap_uuids (ud_peers d ! k))[i := u]\<rparr>"
    using assms by (auto simp: update_bitmap_slot_of_peer_def upd_peer_def Let_def nth_upd split: option.splits)
  show "length (ud_peers (update_bitmap_slot_of_peer k i u d)) = length (ud_peers d)"
    by (simp add: update_bitmap_slot_of_peer_def Let_def split: option.splits)
qed

lemma receive_bitmap_uuids_peer:
  "k < length (ud_peers d) \<Longrightarrow>
   ud_peers (receive_bitmap_uuids k nodes is (map f (filter (bit nodes) is)) d) ! k =
     (ud_peers d ! k)\<lparr>up_bitmap_uuids :=
       fold (\<lambda>i us. us[i := if bit nodes i then be64_to_cpu (f i) else 0]) is (up_bitmap_uuids (ud_peers d ! k))\<rparr> \<and>
   length (ud_peers (receive_bitmap_uuids k nodes is (map f (filter (bit nodes) is)) d)) = length (ud_peers d)"
  by (induction "is" arbitrary: d) (simp_all add: update_slot_peer Let_def)

lemma fold_update_nth: "n \<le> length us \<Longrightarrow> i < length us \<Longrightarrow> fold (\<lambda>i us. us[i := g i]) [0..<n] us ! i = (if i < n then g i else us ! i) \<and>
    length (fold (\<lambda>i us. us[i := g i]) [0..<n] us) = length us"
  by (induction n) (auto simp: nth_list_update)

lemma filter_bits_64: "(\<And>i. bit nodes i \<Longrightarrow> i < 32) \<Longrightarrow> filter (bit nodes) [0..<64] = filter (bit nodes) [0..<32]"
proof -
  assume "\<And>i. bit nodes i \<Longrightarrow> i < 32"
  then have "\<forall>i \<in> set [32..<64]. \<not> bit nodes i" by (metis atLeastLessThan_iff not_less set_upt)
  then have "filter (bit nodes) [32..<64] = []" unfolding filter_empty_conv .
  moreover have "[0..<64] = [0..<32] @ [32..<64]" using upt_add_eq_append [of 0 32 32] by simp
  ultimately show ?thesis by (metis append_Nil2 filter_append)
qed

lemma mask_in_range: "(\<And>i. bit nodes i \<Longrightarrow> i < 32) \<Longrightarrow> nodes AND NOT (NODE_MASK 32 - 1) = 0" for nodes :: u64
proof -
  assume *: "\<And>i. bit nodes i \<Longrightarrow> i < 32"
  have "NODE_MASK 32 - 1 = mask 32" by (simp add: NODE_MASK_def mask_eq_exp_minus_1)
  then show ?thesis using * by (auto intro!: bit_word_eqI simp: bit_simps)
qed

text \<open>What the receiver stores of a packet with the bitmap UUIDs \<open>f i\<close> of the nodes in the mask.\<close>

lemma receive_stores:
  assumes k: "k < length (ud_peers b)" and len: "length (up_bitmap_uuids (ud_peers b ! k)) = 32"
    and nodes: "be64_to_cpu (pu_bitmap_uuids_mask pk) = nodes" "\<And>i. bit nodes i \<Longrightarrow> i < 32"
    and others: "pu_other_uuids pk = map f (filter (bit nodes) [0..<32]) @ history" "length history = 32"
  obtains b' where "receive_uuids110_data True k pk b = (None, b')"
    and "up_current_uuid (ud_peers b' ! k) = be64_to_cpu (pu_current_uuid pk)"
    and "up_dirty_bits (ud_peers b' ! k) = be64_to_cpu (pu_dirty_bits pk)"
    and "up_uuid_flags (ud_peers b' ! k) = be64_to_cpu (pu_uuid_flags pk)"
    and "up_history_uuids (ud_peers b' ! k) = map be64_to_cpu history"
    and "\<forall>i < 32. up_bitmap_uuids (ud_peers b' ! k) ! i = (if bit nodes i then be64_to_cpu (f i) else 0)"
proof -
  let ?b = "upd_peer k (uuids110_fields pk) b" and ?is = "[0..<32]"
  let ?r = "receive_bitmap_uuids k nodes ?is (map f (filter (bit nodes) ?is)) ?b"
  let ?b' = "upd_peer k (\<lambda>p. p\<lparr>up_history_uuids := map be64_to_cpu history, up_uuids_received := True\<rparr>) ?r"
  have p: "ud_peers ?b ! k = uuids110_fields pk (ud_peers b ! k)" using k by (simp add: upd_peer_def)
  have r: "ud_peers ?r ! k = (uuids110_fields pk (ud_peers b ! k))\<lparr>up_bitmap_uuids :=
      fold (\<lambda>i us. us[i := if bit nodes i then be64_to_cpu (f i) else 0]) ?is (up_bitmap_uuids (ud_peers b ! k))\<rparr>"
    "k < length (ud_peers ?r)"
    using receive_bitmap_uuids_peer [of k ?b nodes ?is f] k p by (simp_all add: uuids110_fields_def)
  have n: "filter (bit nodes) [0..<64] = filter (bit nodes) ?is" by (rule filter_bits_64 [OF nodes(2)])
  have "take (length (filter (bit nodes) [0..<64])) (pu_other_uuids pk) = map f (filter (bit nodes) ?is)"
    "drop (length (filter (bit nodes) [0..<64])) (pu_other_uuids pk) = history"
    "length (filter (bit nodes) [0..<64]) \<le> length (pu_other_uuids pk)"
    using others unfolding n by simp_all
  then have "receive_uuids110_data True k pk b = (None, ?b')"
    using others(2) mask_in_range [OF nodes(2)] unfolding receive_uuids110_data_def Let_def nodes(1) node_max_simps by simp
  then show ?thesis
    using that r fold_update_nth [of 32 "up_bitmap_uuids (ud_peers b ! k)" _ "\<lambda>i. if bit nodes i then be64_to_cpu (f i) else 0"] len
    by (simp add: upd_peer_def uuids110_fields_def)
qed

text \<open>The packet that \<open>a\<close> sends to the peer device \<open>q\<close>, with the device \<open>a'\<close> after it.\<close>

definition sent_packet :: "uuid_env \<Rightarrow> u64 \<Rightarrow> u64 \<Rightarrow> uuid_dev \<Rightarrow> uuid_dev \<Rightarrow> uuid_peer \<Rightarrow> p_uuids110" where
  "sent_packet env flags nodes a a' q = \<lparr>pu_current_uuid = cpu_to_be64 (bsr_current_uuid a),
     pu_dirty_bits = cpu_to_be64 (of_nat (up_comm_bm_set q)), pu_uuid_flags = cpu_to_be64 (uuid_flags_of env flags q a'),
     pu_node_mask = cpu_to_be64 (if env_stable env then nodes else env_authoritative env),
     pu_bitmap_uuids_mask = cpu_to_be64 (bitmap_uuids_mask a),
     pu_other_uuids = map (\<lambda>i. cpu_to_be64 (fst (bitmap_uuid0 i a))) (filter (bit (bitmap_uuids_mask a)) [0..<32]) @
       map cpu_to_be64 (m_history_uuids (ud_md a))\<rparr>"

definition sent :: "uuid_env \<Rightarrow> u64 \<Rightarrow> u64 \<Rightarrow> uuid_dev \<Rightarrow> nat \<Rightarrow> uuid_dev \<Rightarrow> (errno + uuid_packet) \<times> uuid_dev" where
  "sent env flags nodes a ka a1 =
     (let a' = upd_peer ka (\<lambda>p. p\<lparr>up_comm_bm_set := bm_total_weight p a1\<rparr>) a1
      in (Inr (P_UUIDS110 (sent_packet env flags nodes a a' (ud_peers a' ! ka))), a'))"

lemma send_result:
  assumes ok: "dev_ok a" "ka < length (ud_peers a)" and disk: "D_NEGOTIATING \<le> ud_disk_state a" "env_mem env"
  obtains a1 where "same_slots a a1"
    and "send_uuids110 env ka flags nodes a = sent env flags nodes a ka a1"
proof -
  let ?is = "nodes_of_mask (bitmap_uuids_mask a)"
  define a1 where "a1 = snd (bitmap_uuids_of ?is a)"
  have "\<forall>i \<in> set ?is. i < length (m_slots (ud_md a))" using dev_okD(4) [OF ok(1)] by (simp add: nodes_of_mask_def)
  then have same: "same_slots a a1" and uuids: "fst (bitmap_uuids_of ?is a) = map (\<lambda>i. cpu_to_be64 (fst (bitmap_uuid0 i a))) ?is"
    using bitmap_uuids_of_same [of ?is a] by (simp_all add: a1_def)
  have "map (\<lambda>i. cpu_to_be64 (bsr_history_uuid a1 i)) [0..<32] = map cpu_to_be64 (m_history_uuids (ud_md a))"
    using same dev_okD(5) [OF ok(1)] by (intro nth_equalityI) (simp_all add: bsr_history_uuid_def same_slots_def)
  moreover have "ud_disk_state a \<noteq> D_DISKLESS" using disk(1) by (auto simp: less_eq_bsr_disk_state_def)
  ultimately have "send_uuids110 env ka flags nodes a = sent env flags nodes a ka a1"
    using disk unfolding send_uuids110_def Let_def case_prod_unfold uuids a1_def [symmetric] sent_def sent_packet_def
    by (simp add: nodes_of_mask_def)
  with same show ?thesis by (rule that)
qed

text \<open>
  Cu2: When a node with a local disk sends its UUIDs and the peer receives the packet, the receiver accepts it
  and then knows the current UUID, the history, the number of bits out of sync and the flags of the sender, and for each node
  the bitmap UUID, or -1 for an empty slot of a node at another current UUID.
\<close>

theorem uuids110_roundtrip:
  assumes ok: "dev_ok a" "ka < length (ud_peers a)" "dev_ok b" "kb < length (ud_peers b)"
    and disk: "D_NEGOTIATING \<le> ud_disk_state a" "env_mem env" and weight: "bm_total_weight (ud_peers a ! ka) a < 2 ^ 64"
    and flags: "\<not> bit flags UUID_FLAG_CRASHED_PRIMARY" "\<not> bit flags UUID_FLAG_RECONNECT" "\<not> bit flags UUID_FLAG_DISCARD_MY_DATA"
      "\<not> bit flags UUID_FLAG_PRIMARY_IO_ERROR"
  shows "\<exists>pk a' b'. send_uuids110 env ka flags nodes a = (Inr (P_UUIDS110 pk), a') \<and>
    receive_uuids110_data True kb pk b = (None, b') \<and> told a' (ud_peers a' ! ka) (ud_peers b' ! kb) \<and>
    bsr_current_uuid a' = bsr_current_uuid a \<and> m_history_uuids (ud_md a') = m_history_uuids (ud_md a)"
proof -
  obtain a1 where same: "same_slots a a1" and s: "send_uuids110 env ka flags nodes a = sent env flags nodes a ka a1"
    using send_result [OF ok(1,2) disk, of flags nodes] .
  define a' where a': "a' = upd_peer ka (\<lambda>p. p\<lparr>up_comm_bm_set := bm_total_weight p a1\<rparr>) a1"
  have send: "send_uuids110 env ka flags nodes a = (Inr (P_UUIDS110 (sent_packet env flags nodes a a' (ud_peers a' ! ka))), a')"
    unfolding s sent_def a' Let_def ..
  let ?q = "ud_peers a' ! ka" and ?f = "\<lambda>i. cpu_to_be64 (fst (bitmap_uuid0 i a))"
  let ?pk = "sent_packet env flags nodes a a' ?q"
  have slots: "length (m_slots (ud_md a)) = 32" "length (m_history_uuids (ud_md a)) = 32" using dev_okD [OF ok(1)] by simp_all
  have peer: "peer_ok (ud_node_id a) (ud_peers a ! ka)" using dev_okD(6) [OF ok(1,2)] .
  have md: "ud_md a' = ud_md a1" by (simp add: a')
  have q: "?q = (ud_peers a ! ka)\<lparr>up_comm_bm_set := bm_total_weight (ud_peers a ! ka) a\<rparr>"
    using ok(2) same peer slots by (simp add: a' upd_peer_def same_slots_def bm_total_weight_def peer_ok_def)
  have w: "bm_total_weight ?q a' = bm_total_weight (ud_peers a ! ka) a"
    using same peer slots by (simp add: q md bm_total_weight_def same_slots_def peer_ok_def)
  have "length (up_bitmap_uuids (ud_peers b ! kb)) = 32" using dev_okD(6) [OF ok(3,4)] by (simp add: peer_ok_def)
  moreover have "be64_to_cpu (pu_bitmap_uuids_mask ?pk) = bitmap_uuids_mask a" "\<And>i. bit (bitmap_uuids_mask a) i \<Longrightarrow> i < 32"
    "pu_other_uuids ?pk = map ?f (filter (bit (bitmap_uuids_mask a)) [0..<32]) @ map cpu_to_be64 (m_history_uuids (ud_md a))"
    "length (map cpu_to_be64 (m_history_uuids (ud_md a))) = 32"
    using slots by (simp_all add: sent_packet_def bit_bitmap_uuids_mask)
  ultimately obtain b' where recv: "receive_uuids110_data True kb ?pk b = (None, b')"
    and r: "up_current_uuid (ud_peers b' ! kb) = be64_to_cpu (pu_current_uuid ?pk)"
      "up_dirty_bits (ud_peers b' ! kb) = be64_to_cpu (pu_dirty_bits ?pk)" "up_uuid_flags (ud_peers b' ! kb) = be64_to_cpu (pu_uuid_flags ?pk)"
      "up_history_uuids (ud_peers b' ! kb) = map be64_to_cpu (map cpu_to_be64 (m_history_uuids (ud_md a)))"
      "\<forall>i < 32. up_bitmap_uuids (ud_peers b' ! kb) ! i = (if bit (bitmap_uuids_mask a) i then be64_to_cpu (?f i) else 0)"
    by (rule receive_stores [OF ok(4)])
  note p = r [unfolded sent_packet_def, simplified]
  have "tells (m_slots (ud_md a') ! i) (up_bitmap_uuids (ud_peers b' ! kb) ! i)" if "i < 32" for i
    using that r(5) bitmap_uuid0_tells [of a i] same slots by (auto simp: tells_def md same_slots_def bit_bitmap_uuids_mask)
  moreover have "unat (of_nat (up_comm_bm_set ?q) :: u64) = bm_total_weight ?q a'" unfolding w using weight by (simp add: q unat_of_nat)
  ultimately have "told a' ?q (ud_peers b' ! kb)"
    using p flags_of_told [OF flags] same w unfolding told_def by (simp add: md same_slots_def bsr_current_uuid_def q comp_def)
  then show ?thesis using send recv same by (auto simp: md same_slots_def bsr_current_uuid_def)
qed

theorem uuids110_roundtrip_witness:
  "\<exists>pk a' b'. send_uuids110 \<lparr>env_mem = True, env_stable = True, env_authoritative = 0, env_consistent_with_pri = False\<rparr> 0 0 0
      (ex_dev 0 1 0x1230) = (Inr (P_UUIDS110 pk), a') \<and>
    receive_uuids110_data True 0 pk (ex_dev 1 0 0x4560) = (None, b') \<and>
    up_current_uuid (ud_peers b' ! 0) = 0x1230 \<and> up_history_uuids (ud_peers b' ! 0) = replicate 32 0"
  using uuids110_roundtrip [OF ex_dev_ok [of 0 1 "0x1230"] _ ex_dev_ok [of 1 0 "0x4560"], of 0 0
      "\<lparr>env_mem = True, env_stable = True, env_authoritative = 0, env_consistent_with_pri = False\<rparr>" 0 0]
  by (auto simp: told_def ex_dev_def ex_peer_def ex_slot_def bm_total_weight_def bsr_current_uuid_def less_eq_bsr_disk_state_def)

end
