(* ===== verification/Uuid_Agree.thy ===== *)
theory Uuid_Agree
  imports Uuid_Told
begin
unbundle bit_operations_syntax

text \<open>
  Two nodes that have told each other their UUIDs come to matching results: of the comparison of their UUIDs, of the
  recovery after a split brain, and of the handshake as a whole.
\<close>

section \<open>Two nodes that have met\<close>

text \<open>A slot with a UUID belongs to a node that exists, and no UUID is the -1 that stands for an unknown one.\<close>

definition slots_known :: "uuid_dev \<Rightarrow> bool" where
  "slots_known d \<longleftrightarrow> no_pri (bsr_current_uuid d) \<noteq> no_pri (-1) \<and>
     (\<forall>s \<in> set (m_slots (ud_md d)). no_pri (sl_bitmap_uuid s) \<noteq> no_pri (-1) \<and> (sl_bitmap_uuid s \<noteq> 0 \<longrightarrow> node_exists s))"

text \<open>The peer device \<open>ka\<close> of \<open>a\<close> stands for \<open>b\<close>, and \<open>a\<close> has received the UUIDs of \<open>b\<close>.\<close>

definition sees :: "uuid_dev \<Rightarrow> nat \<Rightarrow> uuid_dev \<Rightarrow> nat \<Rightarrow> bool" where
  "sees a ka b kb \<longleftrightarrow> dev_ok a \<and> slots_known a \<and> ka < length (ud_peers a) \<and> up_node_id (ud_peers a ! ka) = ud_node_id b \<and>
     told b (ud_peers b ! kb) (ud_peers a ! ka) \<and> 110 \<le> up_agreed_pro_version (ud_peers a ! ka) \<and> \<not> is_sync_source (ud_peers a ! ka)"

definition met :: "uuid_dev \<Rightarrow> nat \<Rightarrow> uuid_dev \<Rightarrow> nat \<Rightarrow> bool" where
  "met a ka b kb \<longleftrightarrow> sees a ka b kb \<and> sees b kb a ka \<and>
     up_resolve_conflicts (ud_peers a ! ka) \<noteq> up_resolve_conflicts (ud_peers b ! kb)"

lemma met_sym: "met a ka b kb \<Longrightarrow> met b kb a ka"
  by (auto simp: met_def)

text \<open>The current UUID of \<open>a\<close> is among the bitmap and history UUIDs of \<open>b\<close>: \<open>b\<close> has data that is newer.\<close>

definition known_to :: "uuid_dev \<Rightarrow> uuid_dev \<Rightarrow> bool" where
  "known_to a b \<longleftrightarrow> no_pri (bsr_current_uuid a) \<noteq> 0 \<and>
     no_pri (bsr_current_uuid a) \<in> no_pri ` (sl_bitmap_uuid ` set (m_slots (ud_md b)) \<union> set (m_history_uuids (ud_md b)))"

section \<open>The comparison as a decision\<close>

text \<open>
  The rules of \<^verbatim>\<open>bsr_uuid_compare\<close> on the values alone: \<open>x\<close> and \<open>y\<close> are the current UUIDs of this node and of the
  other, \<open>mine\<close> and \<open>theirs\<close> their bitmap UUIDs, \<open>hm\<close> and \<open>ht\<close> their histories; \<open>c\<close> is the result for equal
  current UUIDs.
\<close>

definition decide ::
  "nat \<Rightarrow> nat \<Rightarrow> u64 \<Rightarrow> u64 \<Rightarrow> (nat \<Rightarrow> u64) \<Rightarrow> (nat \<Rightarrow> u64) \<Rightarrow> u64 set \<Rightarrow> u64 set \<Rightarrow> int \<times> nat \<Rightarrow> int \<times> nat" where
  "decide me other x y mine theirs hm ht c =
     (if x \<in> {0, 4} then (if y \<in> {0, 4} then (0, 10) else (-3, 20))
      else if y \<in> {0, 4} then (3, 30)
      else if x = y then c
      else if theirs me = x then (-2, 50)
      else if \<exists>i < 32. theirs i = x then (-4, 52)
      else if x \<in> ht then (-3, 60)
      else if mine other = y then (2, 70)
      else if \<exists>i < 32. i \<noteq> other \<and> i \<noteq> me \<and> mine i = y then (4, 72)
      else if y \<in> hm then (3, 80)
      else if mine other = theirs me \<and> mine other \<noteq> 0 then (100, 90)
      else if hm \<inter> ht \<noteq> {} then (-100, 100)
      else (-1000, 100))"

definition agree :: "int \<Rightarrow> int \<Rightarrow> bool" where
  "agree x y \<longleftrightarrow> (if \<bar>x\<bar> < 100 then y = -x else y = x)"

lemma agree_sym: "agree x y \<Longrightarrow> agree y x"
  by (auto simp: agree_def split: if_splits)

definition ordinary :: "u64 \<Rightarrow> u64 \<Rightarrow> bool" where
  "ordinary x y \<longleftrightarrow> x \<notin> {0, 4} \<and> y \<notin> {0, 4} \<and> x \<noteq> y"

lemma decide_special:
  "\<not> ordinary x y \<Longrightarrow> decide me other x y mine theirs hm ht c =
     (if x \<in> {0, 4} then (if y \<in> {0, 4} then (0, 10) else (-3, 20)) else if y \<in> {0, 4} then (3, 30) else c)"
  by (cases "x \<in> {0, 4}"; cases "y \<in> {0, 4}") (simp_all add: decide_def ordinary_def del: insert_iff)

lemma ordinaryD:
  assumes "ordinary x y"
  shows "(x \<in> {0, 4}) = False" "(y \<in> {0, 4}) = False" "(x = y) = False"
  using assms by (simp_all add: ordinary_def)

lemma decide_older:
  assumes "ordinary x y" and "(\<exists>i < 32. theirs i = x) \<or> x \<in> ht"
  shows "decide me other x y mine theirs hm ht c =
     (if theirs me = x then (-2, 50) else if \<exists>i < 32. theirs i = x then (-4, 52) else (-3, 60))"
proof (cases "\<exists>i < 32. theirs i = x")
  case False
  then have "(x \<in> ht) = True" using assms(2) by blast
  then show ?thesis unfolding decide_def ordinaryD [OF assms(1)] if_False by (simp only: if_True)
next
  case True
  then have "(\<exists>i < 32. theirs i = x) = True" by blast
  then show ?thesis unfolding decide_def ordinaryD [OF assms(1)] if_False by (simp only: if_True)
qed

lemma decide_newer:
  assumes "ordinary x y" and "\<not> ((\<exists>i < 32. theirs i = x) \<or> x \<in> ht)" and "(\<exists>i < 32. mine i = y) \<or> y \<in> hm"
    and "mine me = 0" "me < 32" "other < 32"
  shows "decide me other x y mine theirs hm ht c =
     (if mine other = y then (2, 70) else if \<exists>i < 32. mine i = y then (4, 72) else (3, 80))"
proof -
  have e: "(theirs me = x) = False" "(\<exists>i < 32. theirs i = x) = False" "(x \<in> ht) = False" using assms(2,5) by blast+
  have d: "decide me other x y mine theirs hm ht c =
     (if mine other = y then (2, 70) else if \<exists>i < 32. i \<noteq> other \<and> i \<noteq> me \<and> mine i = y then (4, 72) else if y \<in> hm then (3, 80)
      else if mine other = theirs me \<and> mine other \<noteq> 0 then (100, 90) else if hm \<inter> ht \<noteq> {} then (-100, 100) else (-1000, 100))"
    unfolding decide_def ordinaryD [OF assms(1)] e if_False ..
  show ?thesis
  proof (cases "mine other = y")
    case False
    then have "(\<exists>i < 32. i \<noteq> other \<and> i \<noteq> me \<and> mine i = y) = (\<exists>i < 32. mine i = y)"
      using assms(1,4) by (auto simp: ordinary_def)
    moreover have "(y \<in> hm) = True" if "\<not> (\<exists>i < 32. mine i = y)" using that assms(3) by blast
    ultimately show ?thesis unfolding d by (cases "\<exists>i < 32. mine i = y") (simp_all only: if_False if_True refl not_False_eq_True simp_thms)
  qed (simp add: d)
qed

lemma decide_unrelated:
  assumes "ordinary x y" and "\<not> ((\<exists>i < 32. theirs i = x) \<or> x \<in> ht)" and "\<not> ((\<exists>i < 32. mine i = y) \<or> y \<in> hm)"
    and "me < 32" "other < 32"
  shows "decide me other x y mine theirs hm ht c =
     (if mine other = theirs me \<and> mine other \<noteq> 0 then (100, 90) else if hm \<inter> ht \<noteq> {} then (-100, 100) else (-1000, 100))"
proof -
  have e: "(theirs me = x) = False" "(\<exists>i < 32. theirs i = x) = False" "(x \<in> ht) = False" "(mine other = y) = False"
    "(\<exists>i < 32. i \<noteq> other \<and> i \<noteq> me \<and> mine i = y) = False" "(y \<in> hm) = False"
    using assms(2-5) by blast+
  show ?thesis unfolding decide_def ordinaryD [OF assms(1)] e if_False ..
qed

lemma decide_agrees:
  assumes known: "\<not> (((\<exists>i < 32. theirs i = x) \<or> x \<in> ht) \<and> ((\<exists>i < 32. mine i = y) \<or> y \<in> hm))"
    and nodes: "mine me = 0" "theirs other = 0" "me < 32" "other < 32"
    and c: "agree (fst c) (fst c')" "snd c = 40 \<longleftrightarrow> snd c' = 40"
  shows "agree (fst (decide me other x y mine theirs hm ht c)) (fst (decide other me y x theirs mine ht hm c')) \<and>
    (snd (decide me other x y mine theirs hm ht c) = 40 \<longleftrightarrow> snd (decide other me y x theirs mine ht hm c') = 40)"
proof (cases "ordinary x y")
  case False
  then have "\<not> ordinary y x" by (auto simp: ordinary_def)
  with False show ?thesis using c by (auto simp: decide_special agree_def)
next
  case o: True
  then have o': "ordinary y x" by (auto simp: ordinary_def)
  consider (older) "(\<exists>i < 32. theirs i = x) \<or> x \<in> ht" "\<not> ((\<exists>i < 32. mine i = y) \<or> y \<in> hm)"
    | (newer) "(\<exists>i < 32. mine i = y) \<or> y \<in> hm" "\<not> ((\<exists>i < 32. theirs i = x) \<or> x \<in> ht)"
    | (none) "\<not> ((\<exists>i < 32. mine i = y) \<or> y \<in> hm)" "\<not> ((\<exists>i < 32. theirs i = x) \<or> x \<in> ht)"
    using known by blast
  then show ?thesis
  proof cases
    case older
    show ?thesis
      unfolding decide_older [OF o older(1)] decide_newer [OF o' older(2,1) nodes(2,4,3)] by (auto simp: agree_def)
  next
    case newer
    show ?thesis
      unfolding decide_older [OF o' newer(1)] decide_newer [OF o newer(2,1) nodes(1,3,4)] by (auto simp: agree_def)
  next
    case none
    have "hm \<inter> ht = {} \<longleftrightarrow> ht \<inter> hm = {}" by blast
    then show ?thesis
      unfolding decide_unrelated [OF o none(2,1) nodes(3,4)] decide_unrelated [OF o' none nodes(4,3)] by (simp add: agree_def)
  qed
qed

text \<open>The comparison makes this decision, and changes nothing.\<close>

definition mine_of :: "uuid_dev \<Rightarrow> nat \<Rightarrow> u64" where
  "mine_of d i = no_pri (sl_bitmap_uuid (m_slots (ud_md d) ! i))"

definition history_of :: "uuid_dev \<Rightarrow> u64 set" where
  "history_of d = no_pri ` set (m_history_uuids (ud_md d))"

abbreviation cur_of :: "uuid_dev \<Rightarrow> u64" where "cur_of d \<equiv> no_pri (bsr_current_uuid d)"

lemma told_slot:
  assumes "told b q p" and "slots_known b" and "length (m_slots (ud_md b)) = 32" and "i < 32" and "x \<noteq> 0" "x \<noteq> no_pri (-1)"
  shows "no_pri (up_bitmap_uuids p ! i) = x \<longleftrightarrow> mine_of b i = x"
proof -
  have "m_slots (ud_md b) ! i \<in> set (m_slots (ud_md b))" using assms(3,4) by simp
  then have "sl_bitmap_uuid (m_slots (ud_md b) ! i) \<noteq> 0 \<longrightarrow> node_exists (m_slots (ud_md b) ! i)" using assms(2) by (simp add: slots_known_def)
  moreover have "tells (m_slots (ud_md b) ! i) (up_bitmap_uuids p ! i)" using assms(1,4) by (simp add: told_def)
  ultimately show ?thesis using assms(5,6) by (auto simp: tells_def mine_of_def split: if_splits)
qed

lemma just_created: "or_just_created (no_pri u) = UUID_JUST_CREATED \<longleftrightarrow> no_pri u \<in> {0, 4}"
  by (auto simp: or_just_created_def UUID_JUST_CREATED_def)

lemma find_uuid_iff: "length us = 32 \<Longrightarrow> find_uuid x us = None \<longleftrightarrow> \<not> (\<exists>i < 32. no_pri (us ! i) = x)"
  by (auto simp: find_uuid_def find_None_iff)

lemma history_map: "length (m_history_uuids (ud_md d)) = 32 \<Longrightarrow> set (map no_pri (map (bsr_history_uuid d) [0..<32])) = history_of d"
proof -
  assume "length (m_history_uuids (ud_md d)) = 32"
  then have "map (bsr_history_uuid d) [0..<32] = m_history_uuids (ud_md d)" by (intro nth_equalityI) (simp_all add: bsr_history_uuid_def)
  then show ?thesis by (simp add: history_of_def)
qed

definition compare_rules :: "uuid_peer \<Rightarrow> uuid_dev \<Rightarrow> int \<times> nat" where
  "compare_rules p a =
     (let x = cur_of a; y = no_pri (up_current_uuid p); h = set (map no_pri (map (bsr_history_uuid a) [0..<HISTORY_UUIDS]));
          bm = no_pri (bsr_bitmap_uuid p a); theirs = no_pri (up_bitmap_uuids p ! ud_node_id a)
      in if x \<in> {0, 4} then (if y \<in> {0, 4} then (0, 10) else (-3, 20))
         else if y \<in> {0, 4} then (3, 30)
         else if x = y then compare_crashed p a
         else if theirs = x then (-2, 50)
         else if find_uuid x (up_bitmap_uuids p) \<noteq> None then (-4, 52)
         else if x \<in> set (map no_pri (up_history_uuids p)) then (-3, 60)
         else if bm = y then (2, 70)
         else if find_slot p a \<noteq> None then (4, 72)
         else if y \<in> h then (3, 80)
         else if bm = theirs \<and> bm \<noteq> 0 then (100, 90)
         else if h \<inter> set (map no_pri (up_history_uuids p)) \<noteq> {} then (-100, 100)
         else (-1000, 100))"

lemma compare_new_protocol:
  assumes "110 \<le> up_agreed_pro_version (ud_peers a ! k)"
  obtains n where "bsr_uuid_compare k a = (fst (compare_rules (ud_peers a ! k) a), snd (compare_rules (ud_peers a ! k) a), n, a)"
proof -
  let ?p = "ud_peers a ! k"
  have v: "\<not> up_agreed_pro_version ?p < 110" using assms by simp
  have newer: "compare_newer k a =
     (if no_pri (bsr_bitmap_uuid ?p a) = no_pri (up_current_uuid ?p) then (2, 70, None, a)
      else case find_slot ?p a of Some i \<Rightarrow> (4, 72, Some i, a)
        | None \<Rightarrow> (fst (compare_unrelated ?p a), snd (compare_unrelated ?p a), None, a))"
    by (simp add: compare_newer_def v Let_def case_prod_unfold split: option.split)
  have older: "compare_older k a =
     (if cur_of a = no_pri (up_bitmap_uuids ?p ! ud_node_id a) then (-2, 50, None, a)
      else case find_uuid (cur_of a) (up_bitmap_uuids ?p) of Some i \<Rightarrow> (-4, 52, Some i, a)
        | None \<Rightarrow> if cur_of a \<in> set (map no_pri (up_history_uuids ?p)) then (-3, 60, None, a) else compare_newer k a)"
    by (simp add: compare_older_def v Let_def split: option.split)
  have top: "bsr_uuid_compare k a =
     (if cur_of a \<in> {0, 4} \<and> no_pri (up_current_uuid ?p) \<in> {0, 4} then (0, 10, None, a)
      else if cur_of a \<in> {0, 4} then (-3, 20, None, a)
      else if no_pri (up_current_uuid ?p) \<in> {0, 4} then (3, 30, None, a)
      else if cur_of a = no_pri (up_current_uuid ?p) then (fst (compare_crashed ?p a), snd (compare_crashed ?p a), None, a)
      else compare_older k a)"
    unfolding bsr_uuid_compare_def Let_def just_created by (auto simp: v or_just_created_def case_prod_unfold)
  have "fst (bsr_uuid_compare k a) = fst (compare_rules ?p a)" "fst (snd (bsr_uuid_compare k a)) = snd (compare_rules ?p a)"
    "snd (snd (snd (bsr_uuid_compare k a))) = a"
    unfolding top older newer compare_unrelated_def compare_rules_def Let_def
    by (cases "find_uuid (cur_of a) (up_bitmap_uuids ?p)"; cases "find_slot ?p a"; simp del: insert_iff set_map upt_rec_numeral node_max_simps)+
  then show ?thesis using that by (metis prod.collapse)
qed

text \<open>What this node received stands for the UUIDs of the other node.\<close>

lemma compare_decides:
  assumes see: "sees a ka b kb" and b: "dev_ok b" "slots_known b"
  shows "compare_rules (ud_peers a ! ka) a = decide (ud_node_id a) (ud_node_id b) (cur_of a) (cur_of b) (mine_of a) (mine_of b)
    (history_of a) (history_of b) (compare_crashed (ud_peers a ! ka) a)"
proof (cases "ordinary (cur_of a) (cur_of b)")
  case False
  have "no_pri (up_current_uuid (ud_peers a ! ka)) = cur_of b" using see by (simp add: sees_def told_def)
  then show ?thesis
    by (cases "cur_of a \<in> {0, 4}"; cases "cur_of b \<in> {0, 4}")
      (use False in \<open>simp_all add: decide_special compare_rules_def ordinary_def Let_def del: insert_iff\<close>)
next
  case True
  let ?p = "ud_peers a ! ka"
  have a: "dev_ok a" "slots_known a" and t: "told b (ud_peers b ! kb) ?p" and p: "up_node_id ?p = ud_node_id b"
    "length (up_bitmap_uuids ?p) = 32"
    using see dev_okD(6) [of a ka] by (simp_all add: sees_def peer_ok_def)
  have y: "no_pri (up_current_uuid ?p) = cur_of b" and h: "set (map no_pri (up_history_uuids ?p)) = history_of b"
    using t by (simp_all add: told_def history_of_def)
  have slot: "no_pri (up_bitmap_uuids ?p ! i) = x \<longleftrightarrow> mine_of b i = x" if "i < 32" "x \<noteq> 0" "x \<noteq> no_pri (-1)" for i x
    by (rule told_slot [OF t b(2) dev_okD(4) [OF b(1)] that])
  have bm: "no_pri (bsr_bitmap_uuid ?p a) = mine_of a (ud_node_id b)" by (simp add: bsr_bitmap_uuid_def mine_of_def p)
  have x: "cur_of a \<noteq> 0" "cur_of a \<noteq> no_pri (-1)" using True a(2) by (simp_all add: ordinary_def slots_known_def)
  have me: "ud_node_id a < 32" "ud_node_id b < 32" using dev_okD(3) a(1) b(1) by blast+
  have bm_ne: "mine_of a (ud_node_id b) \<noteq> no_pri (-1)"
    using a(2) me dev_okD(4) [OF a(1)] by (simp add: slots_known_def mine_of_def)
  have e50: "(no_pri (up_bitmap_uuids ?p ! ud_node_id a) = cur_of a) = (mine_of b (ud_node_id a) = cur_of a)" by (rule slot [OF me(1) x])
  have e52: "(find_uuid (cur_of a) (up_bitmap_uuids ?p) \<noteq> None) = (\<exists>i < 32. mine_of b i = cur_of a)"
    using find_uuid_iff [OF p(2), of "cur_of a"] slot [OF _ x] by auto
  have e72: "(find_slot ?p a \<noteq> None) = (\<exists>i < 32. i \<noteq> ud_node_id b \<and> i \<noteq> ud_node_id a \<and> mine_of a i = cur_of b)"
    by (auto simp: find_slot_def find_None_iff p y mine_of_def dev_ok_own [OF a(1)])
  have e90: "(mine_of a (ud_node_id b) = no_pri (up_bitmap_uuids ?p ! ud_node_id a) \<and> mine_of a (ud_node_id b) \<noteq> 0) =
      (mine_of a (ud_node_id b) = mine_of b (ud_node_id a) \<and> mine_of a (ud_node_id b) \<noteq> 0)"
    using slot [OF me(1) _ bm_ne] by metis
  show ?thesis
    unfolding compare_rules_def decide_def Let_def node_max_simps y h bm e50 e52 e72 e90 history_map [OF dev_okD(5) [OF a(1)]] ..
qed

lemma crashed_agrees:
  assumes "met a ka b kb"
  shows "agree (fst (compare_crashed (ud_peers a ! ka) a)) (fst (compare_crashed (ud_peers b ! kb) b)) \<and>
    (snd (compare_crashed (ud_peers a ! ka) a) = 40 \<longleftrightarrow> snd (compare_crashed (ud_peers b ! kb) b) = 40)"
  using assms by (auto simp: met_def sees_def told_def flags_told_def compare_crashed_def agree_def)

lemma known_to_iff:
  assumes "dev_ok b"
  shows "known_to a b \<longleftrightarrow> cur_of a \<noteq> 0 \<and> ((\<exists>i < 32. mine_of b i = cur_of a) \<or> cur_of a \<in> history_of b)"
proof -
  have "set (m_slots (ud_md b)) = (\<lambda>i. m_slots (ud_md b) ! i) ` {..<32}" using dev_okD(4) [OF assms] by (auto simp: set_conv_nth)
  then show ?thesis by (auto simp: known_to_def mine_of_def history_of_def image_Un image_image intro: rev_image_eqI)
qed

lemma compare_agrees:
  assumes met: "met a ka b kb" and "\<not> (known_to a b \<and> known_to b a)"
  obtains hga ra na hgb rb nb where "bsr_uuid_compare ka a = (hga, ra, na, a)" and "bsr_uuid_compare kb b = (hgb, rb, nb, b)"
    and "agree hga hgb" and "ra = 40 \<longleftrightarrow> rb = 40"
proof -
  have see: "sees a ka b kb" "sees b kb a ka" using met by (simp_all add: met_def)
  then have ok: "dev_ok a" "slots_known a" "dev_ok b" "slots_known b" by (simp_all add: sees_def)
  obtain na where a: "bsr_uuid_compare ka a = (fst (compare_rules (ud_peers a ! ka) a), snd (compare_rules (ud_peers a ! ka) a), na, a)"
    using compare_new_protocol [of a ka] see(1) by (auto simp: sees_def)
  obtain nb where b: "bsr_uuid_compare kb b = (fst (compare_rules (ud_peers b ! kb) b), snd (compare_rules (ud_peers b ! kb) b), nb, b)"
    using compare_new_protocol [of b kb] see(2) by (auto simp: sees_def)
  have own: "mine_of a (ud_node_id a) = 0" "mine_of b (ud_node_id b) = 0" "ud_node_id a < 32" "ud_node_id b < 32"
    using ok by (simp_all add: dev_ok_def md_ok_def mine_of_def)
  let ?ca = "compare_crashed (ud_peers a ! ka) a" and ?cb = "compare_crashed (ud_peers b ! kb) b"
  note da = compare_decides [OF see(1) ok(3,4)] and db = compare_decides [OF see(2) ok(1,2)]
  note c = crashed_agrees [OF met]
  have "agree (fst (compare_rules (ud_peers a ! ka) a)) (fst (compare_rules (ud_peers b ! kb) b)) \<and>
    (snd (compare_rules (ud_peers a ! ka) a) = 40 \<longleftrightarrow> snd (compare_rules (ud_peers b ! kb) b) = 40)"
  proof (cases "cur_of a \<in> {0, 4} \<or> cur_of b \<in> {0, 4}")
    case True
    then show ?thesis
      unfolding da db by (cases "cur_of a \<in> {0, 4}"; cases "cur_of b \<in> {0, 4}")
        (simp_all add: decide_special ordinary_def agree_def del: insert_iff)
  next
    case False
    then have "\<not> (((\<exists>i < 32. mine_of b i = cur_of a) \<or> cur_of a \<in> history_of b) \<and> ((\<exists>i < 32. mine_of a i = cur_of b) \<or> cur_of b \<in> history_of a))"
      using assms(2) known_to_iff [OF ok(3), of a] known_to_iff [OF ok(1), of b] by blast
    then show ?thesis unfolding da db using decide_agrees own c by blast
  qed
  then show ?thesis using that [OF a b] by blast
qed

text \<open>
  Cu3: When two nodes have received each other's UUIDs, neither is sync source already, and not each of them has seen the
  current UUID of the other, then their comparisons match: one becomes sync source by the rule by which the other becomes
  sync target, or both find no need for a resync, a split brain or unrelated data.  The comparison changes nothing.
\<close>

theorem uuid_compare_agrees:
  assumes "met a ka b kb" and "\<not> (known_to a b \<and> known_to b a)"
  shows "\<exists>hga ra na hgb rb nb. bsr_uuid_compare ka a = (hga, ra, na, a) \<and> bsr_uuid_compare kb b = (hgb, rb, nb, b) \<and>
    (if \<bar>hga\<bar> < 100 then hgb = -hga else hgb = hga)"
  using compare_agrees [OF assms] unfolding agree_def by metis

text \<open>Node 0 started a new data generation while node 1 was away; then they met.\<close>

definition ex_newer :: uuid_dev where
  "ex_newer = upd_peer 0 (\<lambda>p. p\<lparr>up_current_uuid := 0x1230\<rparr>)
     (upd_md (upd_slot 1 (\<lambda>s. s\<lparr>sl_bitmap_uuid := 0x1230\<rparr>)) (ex_dev 0 1 0x4560))"

definition ex_older :: uuid_dev where
  "ex_older = upd_peer 0 (\<lambda>p. p\<lparr>up_current_uuid := 0x4560, up_bitmap_uuids := (up_bitmap_uuids p)[1 := 0x1230]\<rparr>) (ex_dev 1 0 0x1230)"

lemmas ex_pair_simps = ex_newer_def ex_older_def ex_dev_def ex_peer_def ex_slot_def upd_peer_def upd_md_def upd_slot_def

lemma ex_pair_peers:
  "ud_peers ex_newer = [(ex_peer 1)\<lparr>up_current_uuid := 0x1230\<rparr>]"
  "ud_peers ex_older = [(ex_peer 0)\<lparr>up_current_uuid := 0x4560, up_bitmap_uuids := (replicate 32 0)[1 := 0x1230]\<rparr>]"
  by (simp_all add: ex_pair_simps)

lemma ex_pair_md:
  "bsr_current_uuid ex_newer = 0x4560" "bsr_current_uuid ex_older = 0x1230" "ud_node_id ex_newer = 0" "ud_node_id ex_older = 1"
  "m_history_uuids (ud_md ex_newer) = replicate 32 0" "m_history_uuids (ud_md ex_older) = replicate 32 0"
  "m_slots (ud_md ex_newer) = (replicate 32 ex_slot)[1 := ex_slot\<lparr>sl_bitmap_index := 0, sl_bitmap_uuid := 0x1230\<rparr>]"
  "m_slots (ud_md ex_older) = (replicate 32 ex_slot)[0 := ex_slot\<lparr>sl_bitmap_index := 0\<rparr>]"
  "ud_crashed_primary ex_newer = False" "ud_crashed_primary ex_older = False"
  by (simp_all add: ex_pair_simps bsr_current_uuid_def)

lemma ex_pair_ok: "dev_ok ex_newer" "dev_ok ex_older" "slots_known ex_newer" "slots_known ex_older"
proof -
  show "dev_ok ex_newer" "dev_ok ex_older"
    by (simp_all add: ex_pair_simps dev_ok_def md_ok_def history_ok_def peer_ok_def)
  have "set ((replicate 32 ex_slot)[i := s]) \<subseteq> {ex_slot, s}" for i s
    using set_update_subset_insert [of "replicate 32 ex_slot" i s] by auto
  then show "slots_known ex_newer" "slots_known ex_older"
    unfolding slots_known_def ex_pair_md
    by (force simp: ex_slot_def no_pri_def UUID_PRIMARY_def node_exists_def dest!: subsetD)+
qed

lemma ex_pair_met: "met ex_newer 0 ex_older 0"
proof -
  have "told ex_older (ud_peers ex_older ! 0) (ud_peers ex_newer ! 0)"
    unfolding told_def flags_told_def ex_pair_peers ex_pair_md
    by (auto simp: ex_peer_def tells_def nth_list_update ex_slot_def bm_total_weight_def md_test_peer_flag_def ex_pair_md)
  moreover have "told ex_newer (ud_peers ex_newer ! 0) (ud_peers ex_older ! 0)"
    unfolding told_def flags_told_def ex_pair_peers ex_pair_md
    by (auto simp: ex_peer_def tells_def nth_list_update ex_slot_def node_exists_def bm_total_weight_def md_test_peer_flag_def ex_pair_md)
  ultimately show ?thesis
    using ex_pair_ok by (auto simp: met_def sees_def ex_pair_peers ex_pair_md ex_peer_def is_sync_source_def)
qed

lemma ex_pair_not_known: "\<not> known_to ex_newer ex_older"
  by (auto simp: known_to_iff ex_pair_ok ex_pair_md mine_of_def history_of_def nth_list_update ex_slot_def no_pri_def UUID_PRIMARY_def)

lemma ex_newer_compare: "bsr_uuid_compare 0 ex_newer = (2, 70, None, ex_newer)"
proof -
  have "find_uuid 0x4560 (replicate 32 0) = None"
    by (auto simp: find_uuid_def find_None_iff no_pri_def)
  moreover have "no_pri (bsr_bitmap_uuid (ud_peers ex_newer ! 0) ex_newer) = no_pri 0x1230"
    by (simp add: bsr_bitmap_uuid_def ex_pair_peers ex_pair_md ex_peer_def ex_slot_def)
  ultimately show ?thesis
    by (simp add: bsr_uuid_compare_def compare_older_def compare_newer_def ex_pair_peers ex_pair_md ex_peer_def
        or_just_created_def no_pri_def UUID_JUST_CREATED_def UUID_PRIMARY_def Let_def)
qed

theorem uuid_compare_agrees_witness:
  "\<exists>rb nb. bsr_uuid_compare 0 ex_newer = (2, 70, None, ex_newer) \<and> bsr_uuid_compare 0 ex_older = (-2, rb, nb, ex_older)"
  using uuid_compare_agrees [OF ex_pair_met] ex_pair_not_known ex_newer_compare by auto

end
