(* ===== verification/Spec2Isabelle.thy ===== *)
theory Spec2Isabelle
  imports Lru_Cache_Lemmas Vli Bitmap_Ops State_Safety Interval_Lemmas Bm_Xfer_Bitmap Uuid_Agree
begin

text \<open>
  A verification development of the BSR block replication driver (\<^verbatim>\<open>src/bsr\<close>).
\<close>

end
